(* ===== verification/Prelude.thy ===== *)
theory Prelude
  imports Main "HOL-Library.Word" "HOL-Library.Finite_Map" "HOL-Library.Monad_Syntax"
begin

unbundle bit_operations_syntax

text \<open>
  What every component shares: the machine types of the Rust sources, the standard-library
  operations they are built from (bounds-checked slicing, big-endian conversions, saturating
  arithmetic, \<open>HashMap\<close>) and the generic lemmas about them.

  Conventions. A \<open>Vec<u8>\<close>, \<open>&[u8]\<close>, \<open>BytesMut\<close> or \<open>String\<close> is a list of \<open>8 word\<close> (a Rust string is
  its UTF-8 bytes). \<open>usize\<close> lengths and the monotone second counters are \<open>nat\<close>: the code only
  compares them and subtracts them with \<open>saturating_sub\<close>, which is \<open>nat\<close> subtraction. Every integer
  the code stores in a fixed width and increments or truncates is a word of that width. A
  \<open>HashMap\<close> is a finite map \<open>('k, 'v) fmap\<close>; where the code iterates over one, the model visits the
  keys in ascending order.
\<close>

type_synonym u8 = "8 word"
type_synonym u16 = "16 word"
type_synonym u32 = "32 word"
type_synonym u64 = "64 word"
type_synonym bytes = "u8 list"

section \<open>Collections of facts\<close>

named_theorems wire_simps \<open>unfolding of the wire encoders and decoders\<close>
named_theorems be_simps \<open>big-endian conversions\<close>
named_theorems range_simps \<open>bounds-checked slices\<close>

section \<open>Slices\<close>

text \<open>\<open>xs.get(i)\<close> and \<open>xs.get(a..b)\<close>.\<close>

definition get_at :: "'a list \<Rightarrow> nat \<Rightarrow> 'a option" where
  "get_at xs i = (if i < length xs then Some (xs ! i) else None)"

definition get_range :: "'a list \<Rightarrow> nat \<Rightarrow> nat \<Rightarrow> 'a list option" where
  "get_range xs a b = (if a \<le> b \<and> b \<le> length xs then Some (take (b - a) (drop a xs)) else None)"

lemma get_at_Some_iff [range_simps]: "get_at xs i = Some x \<longleftrightarrow> i < length xs \<and> xs ! i = x"
  by (auto simp: get_at_def)

lemma get_at_None_iff [range_simps]: "get_at xs i = None \<longleftrightarrow> length xs \<le> i"
  by (auto simp: get_at_def)

lemma get_range_Some_iff [range_simps]:
  "get_range xs a b = Some ys \<longleftrightarrow> a \<le> b \<and> b \<le> length xs \<and> ys = take (b - a) (drop a xs)"
  by (auto simp: get_range_def)

lemma get_range_None_iff [range_simps]: "get_range xs a b = None \<longleftrightarrow> b < a \<or> length xs < b"
  by (auto simp: get_range_def)

lemma get_range_length: "get_range xs a b = Some ys \<Longrightarrow> length ys = b - a"
  by (auto simp: get_range_Some_iff)

lemma get_at_append [simp]:
  "i < length xs \<Longrightarrow> get_at (xs @ ys) i = get_at xs i"
  "get_at (xs @ ys) (length xs + i) = get_at ys i"
  by (auto simp: get_at_def nth_append)

lemma get_range_append [simp]: "get_range (xs @ ys @ zs) (length xs) (length xs + length ys) = Some ys"
  by (simp add: get_range_def)

lemma get_at_prefix:
  "get_at (xs @ ys) i = (if i < length xs then Some (xs ! i) else get_at ys (i - length xs))"
  by (auto simp: get_at_def nth_append)

lemma get_at_Cons [simp]: "get_at (x # xs) 0 = Some x" "get_at (x # xs) (Suc i) = get_at xs i"
  by (simp_all add: get_at_def)

lemma drop_prefix: "length p = n \<Longrightarrow> drop (n + m) (p @ q) = drop m q"
  by auto

lemma drop_whole_prefix: "drop (length p) (p @ q) = q"
  by simp

text \<open>The first bytes of a long enough slice.\<close>

lemma drop_unfold4:
  "n + 4 \<le> length xs \<Longrightarrow>
   drop n xs = xs ! n # xs ! (n + 1) # xs ! (n + 2) # xs ! (n + 3) # drop (n + 4) xs"
  by (simp add: Cons_nth_drop_Suc [symmetric] numeral_eq_Suc)

lemma take_unfold6:
  "6 \<le> length xs \<Longrightarrow> take 6 xs = [xs ! 0, xs ! 1, xs ! 2, xs ! 3, xs ! 4, xs ! 5]"
  by (intro nth_equalityI) (auto simp: numeral_eq_Suc less_Suc_eq)

section \<open>Big-endian integers\<close>

text \<open>\<open>to_be_bytes\<close> and \<open>from_be_bytes\<close>.\<close>

definition be16 :: "u16 \<Rightarrow> bytes" where
  "be16 w = [ucast (drop_bit 8 w), ucast w]"

definition be32 :: "u32 \<Rightarrow> bytes" where
  "be32 w = [ucast (drop_bit 24 w), ucast (drop_bit 16 w), ucast (drop_bit 8 w), ucast w]"

definition from_be16 :: "u8 \<Rightarrow> u8 \<Rightarrow> u16" where
  "from_be16 a b = push_bit 8 (ucast a) OR ucast b"

definition from_be32 :: "u8 \<Rightarrow> u8 \<Rightarrow> u8 \<Rightarrow> u8 \<Rightarrow> u32" where
  "from_be32 a b c d =
     push_bit 24 (ucast a) OR push_bit 16 (ucast b) OR push_bit 8 (ucast c) OR ucast d"

text \<open>The \<open>n\<close> bytes of a longer integer.\<close>

definition octets :: "nat \<Rightarrow> 'a::len word \<Rightarrow> bytes" where
  "octets n w = map (\<lambda>i. ucast (drop_bit (8 * (n - 1 - i)) w)) [0..<n]"

text \<open>A length cut to 16 bits, as \<open>len as u16\<close> does.\<close>

definition len16 :: "'a list \<Rightarrow> u16" where
  "len16 xs = of_nat (length xs)"

text \<open>The 24-bit length of a TLS handshake message, read from its three bytes.\<close>

definition u24 :: "u8 \<Rightarrow> u8 \<Rightarrow> u8 \<Rightarrow> nat" where
  "u24 a b c = unat a * 65536 + unat b * 256 + unat c"

lemma be_length [simp]: "length (be16 w) = 2" "length (be32 v) = 4"
  by (simp_all add: be16_def be32_def)

lemma from_be16_be16 [be_simps]: "from_be16 (ucast (drop_bit 8 w)) (ucast w) = w"
  unfolding from_be16_def by (rule bit_word_eqI) (auto simp: bit_simps)

lemma bit_u8_ge [simp]: "8 \<le> n \<Longrightarrow> \<not> bit (b :: u8) n"
  by (auto dest: bit_imp_le_length)

lemma be16_from_be16 [be_simps]: "be16 (from_be16 a b) = [a, b]"
  unfolding be16_def from_be16_def by (auto intro!: bit_word_eqI simp: bit_simps)

lemma from_be32_be32 [be_simps]:
  "from_be32 (ucast (drop_bit 24 w)) (ucast (drop_bit 16 w)) (ucast (drop_bit 8 w)) (ucast w) = w"
proof (rule bit_word_eqI)
  fix n assume "n < LENGTH(32)"
  then consider "n < 8" | "8 \<le> n" "n < 16" | "16 \<le> n" "n < 24" | "24 \<le> n" "n < 32"
    by fastforce
  then show "bit (from_be32 (ucast (drop_bit 24 w)) (ucast (drop_bit 16 w))
               (ucast (drop_bit 8 w)) (ucast w)) n = bit w n"
    by cases (auto simp: from_be32_def bit_simps dest: bit_imp_le_length)
qed

lemma be16_inverse: "from_be16 (be16 w ! 0) (be16 w ! Suc 0) = w"
  by (simp add: be16_def from_be16_be16)

lemma be32_inverse: "from_be32 (be32 w ! 0) (be32 w ! Suc 0) (be32 w ! 2) (be32 w ! 3) = w"
  by (simp add: be32_def from_be32_be32)

lemma be16_inj: "be16 a = be16 b \<longleftrightarrow> a = b"
  by (metis be16_inverse)

lemma be32_inj: "be32 a = be32 b \<longleftrightarrow> a = b"
  by (metis be32_inverse)

lemma be16_nth [simp]: "be16 w ! 0 = ucast (drop_bit 8 w)" "be16 w ! Suc 0 = ucast w"
  by (simp_all add: be16_def)

lemma unat_u8_less [simp]: "unat (b :: u8) < 256"
  using unsigned_less [of b, where ?'a = nat] by simp

lemma unat_u16_less [simp]: "unat (b :: u16) < 65536"
  using unsigned_less [of b, where ?'a = nat] by simp

lemma unat_u32_less [simp]: "unat (b :: u32) < 4294967296"
  using unsigned_less [of b, where ?'a = nat] by simp

lemma unat_ucast_u8 [simp]: "unat (ucast (a :: u8) :: u16) = unat a"
  by (simp add: unsigned_ucast_eq take_bit_nat_eq_self_iff less_trans [OF unat_u8_less])

lemma unat_from_be16: "unat (from_be16 a b) = unat a * 256 + unat b"
proof -
  have disj: "push_bit 8 (ucast a :: u16) AND ucast b = 0"
    by (rule bit_word_eqI) (auto simp: bit_simps)
  have "from_be16 a b = push_bit 8 (ucast a) + ucast b"
    unfolding from_be16_def using disj by (simp add: disjunctive_add_eq_or)
  moreover have "unat a * 256 + unat b < 65536"
    using unat_u8_less [of a] unat_u8_less [of b] by linarith
  ultimately show ?thesis
    by (simp add: push_bit_eq_mult unat_word_ariths)
qed

lemma unat_len16: "length xs < 65536 \<Longrightarrow> unat (len16 xs) = length xs"
  by (simp add: len16_def unat_of_nat)

lemma unat_of_nat_small: "m < 2 ^ LENGTH('a) \<Longrightarrow> unat (of_nat m :: 'a::len word) = m"
  by (simp add: unsigned_of_nat take_bit_nat_eq_self)

lemma length_octets [simp]: "length (octets n w) = n"
  by (simp add: octets_def)

lemma octets_inj:
  fixes a b :: "'a::len word"
  assumes "LENGTH('a) = 8 * n"
  shows "octets n a = octets n b \<longleftrightarrow> a = b"
proof
  assume eq: "octets n a = octets n b"
  show "a = b"
  proof (rule bit_word_eqI)
    fix k assume k: "k < LENGTH('a)"
    define i m where "i = n - 1 - k div 8" and "m = k mod 8"
    have "k div 8 < n" using k assms by auto
    then have i: "i < n" and ki: "k = 8 * (n - 1 - i) + m" and m: "m < 8"
      by (auto simp: i_def m_def)
    from eq have "\<forall>i\<in>set [0..<n]. ucast (drop_bit (8 * (n - 1 - i)) a) = (ucast (drop_bit (8 * (n - 1 - i)) b) :: u8)"
      unfolding octets_def by (simp only: map_eq_conv)
    with i have "ucast (drop_bit (8 * (n - 1 - i)) a) = (ucast (drop_bit (8 * (n - 1 - i)) b) :: u8)"
      unfolding set_upt by simp
    then have "bit (ucast (drop_bit (8 * (n - 1 - i)) a) :: u8) m =
        bit (ucast (drop_bit (8 * (n - 1 - i)) b) :: u8) m" by simp
    then show "bit a k = bit b k" unfolding ki using m by (simp add: bit_simps)
  qed
qed simp

section \<open>Hash maps\<close>

lemma fmdrop_absent: "fmlookup m k = None \<Longrightarrow> fmdrop k m = m"
  by (rule fmap_ext) auto

lemma fmupd_same: "fmlookup m k = Some v \<Longrightarrow> fmupd k v m = m"
  by (rule fmap_ext) auto

lemma fmdom_member_iff: "k |\<in>| fmdom m \<longleftrightarrow> fmlookup m k \<noteq> None"
  by (metis fmdom_notD fmdom_notI)

lemma fcard_fmdom_fmupd:
  "fcard (fmdom (fmupd k v m)) = (if fmlookup m k = None then Suc (fcard (fmdom m)) else fcard (fmdom m))"
  by (simp add: fcard_finsert_if fmdom_member_iff)

lemma fcard_fmdom_fmdrop:
  "fcard (fmdom (fmdrop k m)) = (if fmlookup m k = None then fcard (fmdom m) else fcard (fmdom m) - 1)"
proof (cases "fmlookup m k = None")
  case True
  then show ?thesis by (simp add: fmdrop_absent)
next
  case False
  then have "k \<in> fset (fmdom m)" by (simp add: fmdom_member_iff)
  with False show ?thesis by (auto simp: fcard.rep_eq)
qed

lemma distinct_sorted_keys [simp]: "distinct (sorted_list_of_fset A)"
  by (simp add: sorted_list_of_fset.rep_eq)

lemma length_sorted_keys [simp]: "length (sorted_list_of_fset A) = fcard A"
  by (simp add: sorted_list_of_fset.rep_eq fcard.rep_eq)

lemma sorted_keys_empty [simp]: "sorted_list_of_fset {||} = []" "fcard {||} = 0"
  by (simp_all add: sorted_list_of_fset.rep_eq fcard.rep_eq)

lemma sorted_keys_Nil_iff [simp]: "sorted_list_of_fset A = [] \<longleftrightarrow> A = {||}"
proof -
  have "sorted_list_of_fset A = [] \<longleftrightarrow> fset A = {}"
    by (metis set_empty sorted_list_of_fset_simps(1))
  then show ?thesis by auto
qed

end
