(* ===== verification/BiIndex.thy ===== *)
theory BiIndex
  imports Prelude
begin

text \<open>
  Two components keep a pair of \<open>HashMap\<close>s in step, one from an external key to a small identifier
  and one from the identifier back to a record that holds the key: the fake-IP pool
  (\<open>domain_to_ip\<close> / \<open>ip_to_mapping\<close>) and the UDP association table (\<open>tuple_to_id\<close> / \<open>id_to_entry\<close>).
  \<open>bi_agree\<close> is the consistency they share, with the lemmas for the insertions and removals both
  perform; the locale \<open>two_way_table\<close> is the interface their clients rely on.
\<close>

definition bi_agree :: "('v \<Rightarrow> 'k) \<Rightarrow> ('k, 'i) fmap \<Rightarrow> ('i, 'v) fmap \<Rightarrow> bool" where
  "bi_agree key fwd bwd \<longleftrightarrow>
     (\<forall>k i. fmlookup fwd k = Some i \<longleftrightarrow> (\<exists>v. fmlookup bwd i = Some v \<and> key v = k))"

lemma bi_agree_empty [simp]: "bi_agree key fmempty fmempty"
  by (simp add: bi_agree_def)

lemma bi_agreeD1: "bi_agree key fwd bwd \<Longrightarrow> fmlookup fwd k = Some i \<Longrightarrow>
    \<exists>v. fmlookup bwd i = Some v \<and> key v = k"
  by (auto simp: bi_agree_def)

lemma bi_agreeD2: "bi_agree key fwd bwd \<Longrightarrow> fmlookup bwd i = Some v \<Longrightarrow> fmlookup fwd (key v) = Some i"
  by (auto simp: bi_agree_def)

lemma bi_agree_insert:
  assumes "bi_agree key fwd bwd" "fmlookup fwd (key v) = None" "fmlookup bwd i = None"
  shows "bi_agree key (fmupd (key v) i fwd) (fmupd i v bwd)"
  unfolding bi_agree_def
proof (intro allI)
  fix k j
  show "fmlookup (fmupd (key v) i fwd) k = Some j \<longleftrightarrow>
        (\<exists>u. fmlookup (fmupd i v bwd) j = Some u \<and> key u = k)"
    using assms bi_agreeD2 [OF assms(1)]
    by (cases "j = i"; cases "k = key v") (fastforce simp: bi_agree_def)+
qed

lemma bi_agree_remove:
  assumes "bi_agree key fwd bwd" "fmlookup bwd i = Some v"
  shows "bi_agree key (fmdrop (key v) fwd) (fmdrop i bwd)"
  unfolding bi_agree_def
proof (intro allI)
  fix k j
  have "fmlookup fwd (key v) = Some i" using assms by (rule bi_agreeD2)
  then show "fmlookup (fmdrop (key v) fwd) k = Some j \<longleftrightarrow>
        (\<exists>u. fmlookup (fmdrop i bwd) j = Some u \<and> key u = k)"
    using assms bi_agreeD2 [OF assms(1)]
    by (cases "j = i"; cases "k = key v") (fastforce simp: bi_agree_def)+
qed

text \<open>Updating a record in place, without changing its key.\<close>

lemma bi_agree_update:
  assumes "bi_agree key fwd bwd" "fmlookup bwd i = Some v" "key w = key v"
  shows "bi_agree key fwd (fmupd i w bwd)"
  using assms by (auto simp: bi_agree_def)

lemma bi_agree_inj:
  assumes "bi_agree key fwd bwd" "fmlookup fwd k = Some i" "fmlookup fwd k' = Some i"
  shows "k = k'"
  using bi_agreeD1 [OF assms(1,2)] bi_agreeD1 [OF assms(1,3)] by auto

lemma bi_agree_card:
  assumes "bi_agree key fwd bwd"
  shows "fcard (fmdom fwd) = fcard (fmdom bwd)"
proof -
  have "bij_betw (\<lambda>k. the (fmlookup fwd k)) (fset (fmdom fwd)) (fset (fmdom bwd))"
    by (rule bij_betw_byWitness [where f' = "\<lambda>i. key (the (fmlookup bwd i))"])
      (use bi_agreeD1 [OF assms] bi_agreeD2 [OF assms] in \<open>fastforce simp: fmlookup_dom_iff\<close>)+
  then show ?thesis
    by (simp add: fcard.rep_eq bij_betw_same_card)
qed

locale two_way_table =
  fixes fwd :: "'t \<Rightarrow> ('k, 'i) fmap" and bwd :: "'t \<Rightarrow> ('i, 'v) fmap"
    and key :: "'v \<Rightarrow> 'k" and ok :: "'t \<Rightarrow> bool"
  assumes agree: "ok t \<Longrightarrow> bi_agree key (fwd t) (bwd t)"
begin

lemma fwd_bwd: "ok t \<Longrightarrow> fmlookup (fwd t) k = Some i \<Longrightarrow> \<exists>v. fmlookup (bwd t) i = Some v \<and> key v = k"
  by (rule bi_agreeD1 [OF agree])

lemma bwd_fwd: "ok t \<Longrightarrow> fmlookup (bwd t) i = Some v \<Longrightarrow> fmlookup (fwd t) (key v) = Some i"
  by (rule bi_agreeD2 [OF agree])

lemma fwd_inj: "ok t \<Longrightarrow> fmlookup (fwd t) k = Some i \<Longrightarrow> fmlookup (fwd t) k' = Some i \<Longrightarrow> k = k'"
  by (rule bi_agree_inj [OF agree])

lemma bwd_inj:
  "ok t \<Longrightarrow> fmlookup (bwd t) i = Some v \<Longrightarrow> fmlookup (bwd t) j = Some w \<Longrightarrow> key v = key w \<Longrightarrow> i = j"
  using bwd_fwd [of t i v] bwd_fwd [of t j w] by simp

lemma same_size: "ok t \<Longrightarrow> fcard (fmdom (fwd t)) = fcard (fmdom (bwd t))"
  by (rule bi_agree_card [OF agree])

end

end
