(* ===== verification/FlowRefs.thy ===== *)
theory FlowRefs
  imports Prelude "HOL-Library.Multiset"
begin

text \<open>
  The contract between the fake-IP pool and the flows that use its mappings. A flow (a TCP listener
  slot or a UDP association) takes one reference when it starts and gives it back when it ends; the
  pool promises that a referenced mapping survives every sweep. The multiset of the addresses the
  flows hold is the abstract state; \<open>balanced\<close> says that the pool's counters are its multiplicities.
\<close>

definition balanced :: "('ip \<Rightarrow> 'p \<Rightarrow> nat) \<Rightarrow> 'p \<Rightarrow> 'ip multiset \<Rightarrow> bool" where
  "balanced cnt p hs \<longleftrightarrow> (\<forall>ip. cnt ip p = count hs ip)"

text \<open>The values of a hash map, with multiplicity.\<close>

definition fm_values :: "('k, 'v) fmap \<Rightarrow> 'v multiset" where
  "fm_values m = image_mset (\<lambda>k. the (fmlookup m k)) (mset_set (fset (fmdom m)))"

lemma fm_values_empty [simp]: "fm_values fmempty = {#}"
  by (simp add: fm_values_def)

lemma fm_values_insert:
  assumes "fmlookup m k = None"
  shows "fm_values (fmupd k v m) = add_mset v (fm_values m)"
proof -
  have k: "k \<notin> fset (fmdom m)" using assms by (simp add: fmdom_member_iff)
  have "image_mset (\<lambda>j. the (fmlookup (fmupd k v m) j)) (mset_set (fset (fmdom m))) = fm_values m"
    unfolding fm_values_def using k by (intro image_mset_cong) auto
  with k show ?thesis by (simp add: fm_values_def)
qed

lemma fm_values_remove:
  assumes "fmlookup m k = Some v"
  shows "fm_values m = add_mset v (fm_values (fmdrop k m))"
proof -
  have "fmupd k v (fmdrop k m) = m" using assms by (intro fmap_ext) auto
  then show ?thesis using fm_values_insert [of "fmdrop k m" k v] by simp
qed

locale flow_refs =
  fixes acq :: "'ip \<Rightarrow> nat \<Rightarrow> 'p \<Rightarrow> 'p" and rel :: "'ip \<Rightarrow> nat \<Rightarrow> 'p \<Rightarrow> 'p"
    and swp :: "nat \<Rightarrow> nat \<Rightarrow> 'p \<Rightarrow> 'p" and cnt :: "'ip \<Rightarrow> 'p \<Rightarrow> nat"
    and known :: "'ip \<Rightarrow> 'p \<Rightarrow> bool" and ok :: "'p \<Rightarrow> bool" and cap :: nat
  assumes acq_cnt: "ok p \<Longrightarrow> known ip p \<Longrightarrow> cnt ip p < cap \<Longrightarrow>
      cnt j (acq ip t p) = cnt j p + (if j = ip then 1 else 0)"
    and rel_cnt: "ok p \<Longrightarrow> cnt j (rel ip t p) = cnt j p - (if j = ip then 1 else 0)"
    and swp_cnt: "ok p \<Longrightarrow> cnt j (swp t ttl p) = cnt j p"
    and cnt_known: "ok p \<Longrightarrow> cnt ip p > 0 \<Longrightarrow> known ip p"
    and swp_ok: "ok p \<Longrightarrow> ok (swp t ttl p)"
begin

lemma balanced_acq:
  assumes "ok p" "known ip p" "size hs < cap" "balanced cnt p hs"
  shows "balanced cnt (acq ip t p) (add_mset ip hs)"
proof -
  have "cnt ip p < cap"
    using assms(3,4) count_le_size [of hs ip] by (simp add: balanced_def)
  then show ?thesis
    using assms by (simp add: balanced_def acq_cnt)
qed

lemma balanced_rel: "ok p \<Longrightarrow> balanced cnt p hs \<Longrightarrow> balanced cnt (rel ip t p) (hs - {#ip#})"
  by (simp add: balanced_def rel_cnt)

lemma balanced_swp: "ok p \<Longrightarrow> balanced cnt p hs \<Longrightarrow> balanced cnt (swp t ttl p) hs"
  by (simp add: balanced_def swp_cnt)

lemma held_known: "ok p \<Longrightarrow> balanced cnt p hs \<Longrightarrow> ip \<in># hs \<Longrightarrow> known ip p"
  by (rule cnt_known) (simp_all add: balanced_def)

lemma held_survives: "ok p \<Longrightarrow> balanced cnt p hs \<Longrightarrow> ip \<in># hs \<Longrightarrow> known ip (swp t ttl p)"
  by (rule held_known [OF swp_ok balanced_swp])

end

end
