(* ===== verification/Cursor.thy ===== *)
theory Cursor
  imports Main
begin

text \<open>
  Cyclic cursors. Two tables hand out identifiers by moving a cursor round a finite range and taking
  the first value that is free (\<open>next_free_ip\<close> of the fake-IP pool, \<open>alloc_id\<close> of the association
  table). The interface is the step of the cursor and its position; what the tables need is that the
  cursor visits every value of the range before it comes back to where it was.
\<close>

locale cyclic_cursor =
  fixes adv :: "'c \<Rightarrow> 'c" and pos :: "'c \<Rightarrow> nat" and period :: nat and ok :: "'c \<Rightarrow> bool"
  assumes pos_less: "ok c \<Longrightarrow> pos c < period"
    and ok_adv: "ok c \<Longrightarrow> ok (adv c)"
    and pos_adv: "ok c \<Longrightarrow> pos (adv c) = (pos c + 1) mod period"
    and pos_inj: "ok c \<Longrightarrow> ok d \<Longrightarrow> pos c = pos d \<Longrightarrow> c = d"
begin

lemma ok_iterate: "ok c \<Longrightarrow> ok ((adv ^^ j) c)"
  by (induction j) (auto intro: ok_adv)

lemma pos_iterate: "ok c \<Longrightarrow> pos ((adv ^^ j) c) = (pos c + j) mod period"
  by (induction j) (auto simp: pos_less pos_adv ok_iterate mod_Suc_eq)

lemma orbit_onto:
  assumes "ok c" "ok d"
  shows "\<exists>j<period. (adv ^^ j) c = d"
proof (intro exI conjI)
  let ?j = "(pos d + period - pos c) mod period"
  have less: "pos c < period" "pos d < period" using assms by (auto intro: pos_less)
  then show "?j < period" by simp
  have "pos ((adv ^^ ?j) c) = pos d"
    using less by (simp add: pos_iterate [OF assms(1)] mod_simps)
  then show "(adv ^^ ?j) c = d" using assms by (intro pos_inj ok_iterate)
qed

lemma orbit_closed: "ok c \<Longrightarrow> (adv ^^ period) c = c"
  by (intro pos_inj ok_iterate) (simp_all add: pos_iterate pos_less)

end

end
