(* ===== verification/FakeIp.thy ===== *)
theory FakeIp
  imports BiIndex FlowRefs Cursor
begin

text \<open>
  The fake-IP pool of \<^verbatim>\<open>src/fake_ip.rs\<close>: placeholder addresses of 198.18.0.0/15 handed out for
  domain names, the two maps between them, reference counts of the flows that use a mapping, and
  the sweep that reclaims idle mappings. The invariant \<open>pool_inv\<close> says that the two maps agree and
  that every registered address and the cursor lie between .2 and the end of the range.

  The only loop, \<open>next_free_ip\<close>, probes at most \<open>span\<close> addresses; \<open>probe\<close> is that loop with the
  remaining number of rounds as its argument.
\<close>

section \<open>State and operations\<close>

definition ipv4 :: "u8 \<Rightarrow> u8 \<Rightarrow> u8 \<Rightarrow> u8 \<Rightarrow> u32" where
  "ipv4 a b c d = from_be32 a b c d"

record fake_mapping =
  m_domain :: bytes
  m_refcount :: u32
  m_last_used :: nat

record fake_ip_pool =
  range_start :: u32
  range_end :: u32
  next_ip :: u32
  domain_to_ip :: "(bytes, u32) fmap"
  ip_to_mapping :: "(u32, fake_mapping) fmap"

definition pool_new :: fake_ip_pool where
  "pool_new =
     (let rs = ipv4 198 18 0 0; re = ipv4 198 19 255 255
      in \<lparr> range_start = rs, range_end = re, next_ip = rs + 2,
           domain_to_ip = fmempty, ip_to_mapping = fmempty \<rparr>)"

definition advance_next :: "fake_ip_pool \<Rightarrow> fake_ip_pool" where
  "advance_next p =
     (let n = next_ip p + 1
      in p\<lparr> next_ip := (if n > range_end p then range_start p + 2 else n) \<rparr>)"

text \<open>The \<open>for _ in 0..span\<close> loop: \<open>Inl\<close> is the early return, \<open>Inr\<close> falling out of the loop.\<close>

fun probe :: "nat \<Rightarrow> fake_ip_pool \<Rightarrow> (u32 \<times> fake_ip_pool) + fake_ip_pool" where
  "probe n p =
     (if n = 0 then Inr p
      else let cand = next_ip p; p' = advance_next p
           in if fmlookup (ip_to_mapping p') cand = None then Inl (cand, p')
              else probe (n - 1) p')"

declare probe.simps [simp del]

definition remove_mapping :: "u32 \<Rightarrow> fake_ip_pool \<Rightarrow> fake_ip_pool" where
  "remove_mapping ip p =
     (case fmlookup (ip_to_mapping p) ip of
        None \<Rightarrow> p
      | Some m \<Rightarrow> p\<lparr> ip_to_mapping := fmdrop ip (ip_to_mapping p),
                     domain_to_ip := fmdrop (m_domain m) (domain_to_ip p) \<rparr>)"

definition next_free_ip :: "fake_ip_pool \<Rightarrow> u32 \<times> fake_ip_pool" where
  "next_free_ip p =
     (let span = range_end p - (range_start p + 2) + 1
      in case probe (unat span) p of
           Inl r \<Rightarrow> r
         | Inr p' \<Rightarrow> (let cand = next_ip p' in (cand, remove_mapping cand (advance_next p'))))"

definition alloc :: "bytes \<Rightarrow> nat \<Rightarrow> fake_ip_pool \<Rightarrow> u32 \<times> fake_ip_pool" where
  "alloc domain now p =
     (case fmlookup (domain_to_ip p) domain of
        Some ip \<Rightarrow>
          (ip, case fmlookup (ip_to_mapping p) ip of
                 Some m \<Rightarrow> p\<lparr> ip_to_mapping := fmupd ip (m\<lparr> m_last_used := now \<rparr>) (ip_to_mapping p) \<rparr>
               | None \<Rightarrow> p)
      | None \<Rightarrow>
          (let (ip, p') = next_free_ip p
           in (ip, p'\<lparr> domain_to_ip := fmupd domain ip (domain_to_ip p'),
                       ip_to_mapping :=
                         fmupd ip \<lparr> m_domain = domain, m_refcount = 0, m_last_used = now \<rparr>
                           (ip_to_mapping p') \<rparr>)))"

definition acquire :: "u32 \<Rightarrow> nat \<Rightarrow> fake_ip_pool \<Rightarrow> fake_ip_pool" where
  "acquire ip now p =
     (case fmlookup (ip_to_mapping p) ip of
        Some m \<Rightarrow> p\<lparr> ip_to_mapping :=
                       fmupd ip (m\<lparr> m_refcount := m_refcount m + 1, m_last_used := now \<rparr>)
                         (ip_to_mapping p) \<rparr>
      | None \<Rightarrow> p)"

definition saturating_pred :: "u32 \<Rightarrow> u32" where
  "saturating_pred n = (if n = 0 then 0 else n - 1)"

definition release :: "u32 \<Rightarrow> nat \<Rightarrow> fake_ip_pool \<Rightarrow> fake_ip_pool" where
  "release ip now p =
     (case fmlookup (ip_to_mapping p) ip of
        Some m \<Rightarrow> p\<lparr> ip_to_mapping :=
                       fmupd ip (m\<lparr> m_refcount := saturating_pred (m_refcount m), m_last_used := now \<rparr>)
                         (ip_to_mapping p) \<rparr>
      | None \<Rightarrow> p)"

definition stale :: "nat \<Rightarrow> nat \<Rightarrow> fake_mapping \<Rightarrow> bool" where
  "stale now ttl m \<longleftrightarrow> m_refcount m = 0 \<and> now - m_last_used m > ttl"

definition stale_ips :: "nat \<Rightarrow> nat \<Rightarrow> fake_ip_pool \<Rightarrow> u32 list" where
  "stale_ips now ttl p =
     filter (\<lambda>ip. case fmlookup (ip_to_mapping p) ip of Some m \<Rightarrow> stale now ttl m | None \<Rightarrow> False)
       (sorted_list_of_fset (fmdom (ip_to_mapping p)))"

definition pool_sweep :: "nat \<Rightarrow> nat \<Rightarrow> fake_ip_pool \<Rightarrow> nat \<times> fake_ip_pool" where
  "pool_sweep now ttl p =
     (let st = stale_ips now ttl p in (length st, fold remove_mapping st p))"

definition resolve :: "u32 \<Rightarrow> fake_ip_pool \<Rightarrow> bytes option" where
  "resolve ip p = map_option m_domain (fmlookup (ip_to_mapping p) ip)"

definition is_fake :: "u32 \<Rightarrow> fake_ip_pool \<Rightarrow> bool" where
  "is_fake ip p \<longleftrightarrow> ip \<ge> range_start p \<and> ip \<le> range_end p"

definition pool_usage :: "fake_ip_pool \<Rightarrow> nat \<times> nat" where
  "pool_usage p =
     (let m = ip_to_mapping p; ips = sorted_list_of_fset (fmdom m)
      in (length ips,
          length (filter (\<lambda>ip. case fmlookup m ip of Some e \<Rightarrow> m_refcount e > 0 | None \<Rightarrow> False) ips)))"

section \<open>The invariant\<close>

definition assignable :: "u32 \<Rightarrow> bool" where
  "assignable ip \<longleftrightarrow> ipv4 198 18 0 2 \<le> ip \<and> ip \<le> ipv4 198 19 255 255"

definition pool_inv :: "fake_ip_pool \<Rightarrow> bool" where
  "pool_inv p \<longleftrightarrow>
     range_start p = ipv4 198 18 0 0 \<and> range_end p = ipv4 198 19 255 255 \<and>
     assignable (next_ip p) \<and>
     bi_agree m_domain (domain_to_ip p) (ip_to_mapping p) \<and>
     (\<forall>ip m. fmlookup (ip_to_mapping p) ip = Some m \<longrightarrow> assignable ip)"

text \<open>The number of flows a mapping counts; 0 for an address that is not registered.\<close>

definition refs :: "u32 \<Rightarrow> fake_ip_pool \<Rightarrow> nat" where
  "refs ip p = (case fmlookup (ip_to_mapping p) ip of Some m \<Rightarrow> unat (m_refcount m) | None \<Rightarrow> 0)"

lemma ipv4_bounds [simp]:
  "ipv4 198 18 0 0 = 3323068416" "ipv4 198 18 0 2 = 3323068418" "ipv4 198 19 255 255 = 3323199487"
  by (simp_all add: ipv4_def from_be32_def)

lemma assignable_nat: "assignable ip \<longleftrightarrow> 3323068418 \<le> unat ip \<and> unat ip \<le> 3323199487"
  by (simp add: assignable_def word_le_nat_alt)

lemma pool_new_inv: "pool_inv pool_new"
  by (simp add: pool_inv_def pool_new_def assignable_def)

lemma pool_invD:
  assumes "pool_inv p"
  shows "bi_agree m_domain (domain_to_ip p) (ip_to_mapping p)" "assignable (next_ip p)"
    "fmlookup (ip_to_mapping p) ip = Some m \<Longrightarrow> assignable ip"
    "range_start p = 3323068416" "range_end p = 3323199487"
  using assms by (auto simp: pool_inv_def)

section \<open>The probing loop\<close>

text \<open>The cursor runs round the 131070 assignable addresses, starting at 198.18.0.2.\<close>

abbreviation first_ip :: nat where "first_ip \<equiv> 3323068418"
abbreviation pool_size :: nat where "pool_size \<equiv> 131070"

definition next_addr :: "u32 \<Rightarrow> u32" where
  "next_addr a = (if a + 1 > 3323199487 then 3323068418 else a + 1)"

definition addr_pos :: "u32 \<Rightarrow> nat" where
  "addr_pos a = unat a - 3323068418"

lemma advance_next_fields [simp]:
  "ip_to_mapping (advance_next p) = ip_to_mapping p" "domain_to_ip (advance_next p) = domain_to_ip p"
  "range_start (advance_next p) = range_start p" "range_end (advance_next p) = range_end p"
  by (simp_all add: advance_next_def Let_def)

lemma advance_next_eq:
  "range_start p = 3323068416 \<Longrightarrow> range_end p = 3323199487 \<Longrightarrow>
   advance_next p = p\<lparr> next_ip := next_addr (next_ip p) \<rparr>"
  by (simp add: advance_next_def next_addr_def Let_def)

lemma next_addr_cases:
  assumes "assignable a"
  shows "unat (next_addr a) = (if unat a = 3323199487 then 3323068418 else unat a + 1)"
proof -
  have n: "unat (a + 1) = unat a + 1"
    using assms by (subst unat_add_lem [THEN iffD1]) (simp_all add: assignable_nat)
  show ?thesis
    using assms n by (auto simp: next_addr_def word_less_nat_alt assignable_nat)
qed

interpretation pool_cursor: cyclic_cursor next_addr addr_pos pool_size assignable
proof
  fix a assume a: "assignable a"
  show "addr_pos a < pool_size" using a by (auto simp: addr_pos_def assignable_nat)
  show "assignable (next_addr a)" using a by (auto simp: assignable_nat next_addr_cases)
  show "addr_pos (next_addr a) = (addr_pos a + 1) mod pool_size"
  proof (cases "unat a = 3323199487")
    case True
    then show ?thesis using a by (simp add: addr_pos_def next_addr_cases)
  next
    case False
    then have "addr_pos a + 1 < pool_size" using a by (auto simp: addr_pos_def assignable_nat)
    moreover have "addr_pos (next_addr a) = addr_pos a + 1"
      using a False unfolding addr_pos_def next_addr_cases [OF a] by (simp add: assignable_nat) linarith
    ultimately show ?thesis by simp
  qed
next
  fix a b assume "assignable a" "assignable b" "addr_pos a = addr_pos b"
  then show "a = b" by (auto simp: addr_pos_def assignable_nat word_unat_eq_iff)
qed

lemma probe_Inl:
  assumes "probe n p = Inl (ip, p')" "range_start p = 3323068416" "range_end p = 3323199487"
    "assignable (next_ip p)"
  shows "fmlookup (ip_to_mapping p) ip = None \<and> assignable ip \<and>
    (\<exists>c. assignable c \<and> p' = p\<lparr> next_ip := c \<rparr>)"
  using assms
proof (induction n p rule: probe.induct)
  case (1 n p)
  note adv = advance_next_eq [OF "1.prems"(2,3)]
  have c: "assignable (next_addr (next_ip p))" by (rule pool_cursor.ok_adv [OF "1.prems"(4)])
  show ?case
  proof (cases "fmlookup (ip_to_mapping p) (next_ip p) = None")
    case True
    with "1.prems" adv c show ?thesis
      by (auto simp: probe.simps [of n] Let_def split: if_splits)
  next
    case False
    with "1.prems"(1) have "n \<noteq> 0" "probe (n - 1) (advance_next p) = Inl (ip, p')"
      by (auto simp: probe.simps [of n] Let_def split: if_splits)
    from "1.IH" [OF this(1) refl refl _ this(2)] False "1.prems" adv c show ?thesis by auto
  qed
qed

lemma probe_Inr:
  assumes "probe n p = Inr p'" "range_start p = 3323068416" "range_end p = 3323199487"
    "assignable (next_ip p)"
  shows "p' = p\<lparr> next_ip := (next_addr ^^ n) (next_ip p) \<rparr> \<and>
    (\<forall>j<n. fmlookup (ip_to_mapping p) ((next_addr ^^ j) (next_ip p)) \<noteq> None)"
  using assms
proof (induction n p rule: probe.induct)
  case (1 n p)
  note adv = advance_next_eq [OF "1.prems"(2,3)]
  have c: "assignable (next_addr (next_ip p))" by (rule pool_cursor.ok_adv [OF "1.prems"(4)])
  show ?case
  proof (cases n)
    case 0
    with "1.prems" show ?thesis by (simp add: probe.simps [of 0])
  next
    case (Suc k)
    with "1.prems"(1) have taken: "fmlookup (ip_to_mapping p) (next_ip p) \<noteq> None"
      and rest: "probe k (advance_next p) = Inr p'"
      by (auto simp: probe.simps [of "Suc k"] Let_def split: if_splits)
    have "p' = p\<lparr> next_ip := (next_addr ^^ k) (next_addr (next_ip p)) \<rparr> \<and>
        (\<forall>j<k. fmlookup (ip_to_mapping p) ((next_addr ^^ j) (next_addr (next_ip p))) \<noteq> None)"
      using "1.IH" Suc rest taken "1.prems"(2,3) adv c by auto
    with taken show ?thesis unfolding Suc by (auto simp: funpow_swap1 less_Suc_eq_0_disj)
  qed
qed

section \<open>The operations keep the invariant\<close>

lemma remove_mapping_fields [simp]:
  "next_ip (remove_mapping ip p) = next_ip p" "range_start (remove_mapping ip p) = range_start p"
  "range_end (remove_mapping ip p) = range_end p"
  "ip_to_mapping (remove_mapping ip p) = fmdrop ip (ip_to_mapping p)"
  by (auto simp: remove_mapping_def fmdrop_absent split: option.split)

lemma remove_mapping_agree:
  "bi_agree m_domain (domain_to_ip p) (ip_to_mapping p) \<Longrightarrow>
   bi_agree m_domain (domain_to_ip (remove_mapping ip p)) (fmdrop ip (ip_to_mapping p))"
  by (cases "fmlookup (ip_to_mapping p) ip")
    (auto simp: remove_mapping_def fmdrop_absent intro: bi_agree_remove)

lemma remove_mapping_inv: "pool_inv p \<Longrightarrow> pool_inv (remove_mapping ip p)"
  using remove_mapping_agree [of p ip] by (auto simp: pool_inv_def)

lemma pool_inv_cursor: "pool_inv p \<Longrightarrow> assignable c \<Longrightarrow> pool_inv (p\<lparr> next_ip := c \<rparr>)"
  by (simp add: pool_inv_def)

definition pool_full :: "fake_ip_pool \<Rightarrow> bool" where
  "pool_full p \<longleftrightarrow> (\<forall>ip. assignable ip \<longrightarrow> fmlookup (ip_to_mapping p) ip \<noteq> None)"

lemma next_free_ip_probe:
  "pool_inv p \<Longrightarrow> next_free_ip p =
     (case probe pool_size p of
        Inl r \<Rightarrow> r
      | Inr p' \<Rightarrow> (next_ip p', remove_mapping (next_ip p') (advance_next p')))"
  by (auto simp: pool_inv_def next_free_ip_def Let_def split: sum.split)

lemma probe_Inr_full:
  assumes "probe pool_size p = Inr p'" "pool_inv p"
  shows "pool_full p"
  unfolding pool_full_def
proof (intro allI impI)
  fix ip assume "assignable ip"
  then obtain j where "j < pool_size" "(next_addr ^^ j) (next_ip p) = ip"
    using pool_cursor.orbit_onto [OF pool_invD(2) [OF assms(2)]] by blast
  with probe_Inr [OF assms(1) pool_invD(4,5,2) [OF assms(2)]]
  show "fmlookup (ip_to_mapping p) ip \<noteq> None" by blast
qed

lemma next_free_ip_not_full:
  assumes "pool_inv p" "\<not> pool_full p" "next_free_ip p = (ip, p')"
  shows "fmlookup (ip_to_mapping p) ip = None \<and> assignable ip \<and>
    (\<exists>c. assignable c \<and> p' = p\<lparr> next_ip := c \<rparr>)"
proof (cases "probe pool_size p")
  case (Inl r)
  with assms show ?thesis
    using probe_Inl [OF _ pool_invD(4,5,2) [OF assms(1)], of pool_size]
    by (simp add: next_free_ip_probe)
next
  case (Inr q)
  with assms probe_Inr_full show ?thesis by blast
qed

lemma next_free_ip_full:
  assumes "pool_inv p" "pool_full p" "next_free_ip p = (ip, p')"
  shows "ip = next_ip p \<and> (\<exists>c. assignable c \<and> p' = remove_mapping ip (p\<lparr> next_ip := c \<rparr>))"
proof (cases "probe pool_size p")
  case (Inl r)
  with assms(2) probe_Inl [OF _ pool_invD(4,5,2) [OF assms(1)], of pool_size]
  show ?thesis by (cases r) (auto simp: pool_full_def)
next
  case (Inr q)
  have q: "q = p"
    using probe_Inr [OF Inr pool_invD(4,5,2) [OF assms(1)]]
      pool_cursor.orbit_closed [OF pool_invD(2) [OF assms(1)]] by simp
  have "assignable (next_addr (next_ip p))" "advance_next p = p\<lparr> next_ip := next_addr (next_ip p) \<rparr>"
    using pool_cursor.ok_adv [OF pool_invD(2) [OF assms(1)]]
      advance_next_eq [OF pool_invD(4,5) [OF assms(1)]] by auto
  with Inr q assms show ?thesis by (auto simp: next_free_ip_probe)
qed

text \<open>In both cases the address returned is assignable and free in the pool returned with it.\<close>

lemma next_free_ip_spec:
  assumes "pool_inv p" "next_free_ip p = (ip, p')"
  shows "pool_inv p'" "assignable ip" "fmlookup (ip_to_mapping p') ip = None"
proof -
  have "pool_inv p' \<and> assignable ip \<and> fmlookup (ip_to_mapping p') ip = None"
  proof (cases "pool_full p")
    case True
    from next_free_ip_full [OF assms(1) True assms(2)] show ?thesis
      using pool_inv_cursor [OF assms(1)] pool_invD(2) [OF assms(1)] by (auto intro: remove_mapping_inv)
  next
    case False
    from next_free_ip_not_full [OF assms(1) False assms(2)] show ?thesis
      using pool_inv_cursor [OF assms(1)] by auto
  qed
  then show "pool_inv p'" "assignable ip" "fmlookup (ip_to_mapping p') ip = None" by auto
qed

lemma alloc_inv:
  assumes "pool_inv p" "alloc d now p = (ip, p')"
  shows "pool_inv p'"
proof (cases "fmlookup (domain_to_ip p) d")
  case (Some i)
  from bi_agreeD1 [OF pool_invD(1) [OF assms(1)] Some]
  obtain m where m: "fmlookup (ip_to_mapping p) i = Some m" "m_domain m = d" by blast
  with assms Some show ?thesis
    by (auto simp: alloc_def pool_inv_def intro!: bi_agree_update split: if_splits)
next
  case None
  obtain i q where q: "next_free_ip p = (i, q)" by fastforce
  note spec = next_free_ip_spec [OF assms(1) q]
  have "fmlookup (domain_to_ip q) d = None"
  proof (rule ccontr)
    assume "fmlookup (domain_to_ip q) d \<noteq> None"
    then obtain j m where "fmlookup (ip_to_mapping q) j = Some m" "m_domain m = d"
      using bi_agreeD1 [OF pool_invD(1) [OF spec(1)]] by blast
    moreover have "fmlookup (ip_to_mapping q) j = Some m \<Longrightarrow> fmlookup (ip_to_mapping p) j = Some m"
      using next_free_ip_full [OF assms(1) _ q] next_free_ip_not_full [OF assms(1) _ q]
      by (cases "pool_full p") (auto split: if_splits)
    ultimately show False
      using bi_agreeD2 [OF pool_invD(1) [OF assms(1)]] None by fastforce
  qed
  with spec None assms q bi_agree_insert [OF pool_invD(1) [OF spec(1)], of
      "\<lparr> m_domain = d, m_refcount = 0, m_last_used = now \<rparr>" i]
  show ?thesis by (auto simp: alloc_def pool_inv_def split: if_splits)
qed

lemma acquire_inv: "pool_inv p \<Longrightarrow> pool_inv (acquire ip now p)"
  by (auto simp: acquire_def pool_inv_def intro!: bi_agree_update split: option.splits)

lemma release_inv: "pool_inv p \<Longrightarrow> pool_inv (release ip now p)"
  by (auto simp: release_def pool_inv_def intro!: bi_agree_update split: option.splits)

lemma fold_remove_inv: "pool_inv p \<Longrightarrow> pool_inv (fold remove_mapping ips p)"
  by (induction ips arbitrary: p) (auto intro: remove_mapping_inv)

lemma pool_sweep_inv: "pool_inv p \<Longrightarrow> pool_inv (snd (pool_sweep now ttl p))"
  by (simp add: pool_sweep_def Let_def fold_remove_inv)

lemma fold_remove_lookup:
  "fmlookup (ip_to_mapping (fold remove_mapping ips p)) ip =
     (if ip \<in> set ips then None else fmlookup (ip_to_mapping p) ip)"
  by (induction ips arbitrary: p) auto

lemma set_stale_ips:
  "set (stale_ips now ttl p) = {ip. \<exists>m. fmlookup (ip_to_mapping p) ip = Some m \<and> stale now ttl m}"
  by (auto simp: stale_ips_def fmdom_member_iff split: option.splits)

lemma sweep_lookup:
  "fmlookup (ip_to_mapping (snd (pool_sweep now ttl p))) ip =
     (case fmlookup (ip_to_mapping p) ip of
        Some m \<Rightarrow> if stale now ttl m then None else Some m
      | None \<Rightarrow> None)"
  by (auto simp: pool_sweep_def Let_def fold_remove_lookup set_stale_ips split: option.splits)

section \<open>The pool as a two-way table and as a keeper of references\<close>

interpretation pool_table: two_way_table domain_to_ip ip_to_mapping m_domain pool_inv
  by unfold_locales (rule pool_invD(1))

lemma refs_acquire:
  assumes "fmlookup (ip_to_mapping p) ip \<noteq> None" "refs ip p < 2 ^ 32 - 1"
  shows "refs j (acquire ip t p) = refs j p + (if j = ip then 1 else 0)"
proof -
  obtain m where m: "fmlookup (ip_to_mapping p) ip = Some m" using assms(1) by auto
  have "unat (m_refcount m + 1) = unat (m_refcount m) + 1"
    using assms(2) m by (subst unat_add_lem [THEN iffD1]) (simp_all add: refs_def)
  with m show ?thesis by (simp add: refs_def acquire_def)
qed

lemma refs_release: "refs j (release ip t p) = refs j p - (if j = ip then 1 else 0)"
  by (auto simp: refs_def release_def saturating_pred_def unat_minus_one split: option.split)

lemma refs_sweep: "refs j (snd (pool_sweep t ttl p)) = refs j p"
  by (auto simp: refs_def sweep_lookup stale_def split: option.split)

lemma refs_pos_known: "refs ip p > 0 \<Longrightarrow> resolve ip p \<noteq> None"
  by (auto simp: refs_def resolve_def split: option.splits)

lemma resolve_known: "resolve ip p \<noteq> None \<longleftrightarrow> fmlookup (ip_to_mapping p) ip \<noteq> None"
  by (simp add: resolve_def)

interpretation pool_refs: flow_refs acquire release "\<lambda>t ttl p. snd (pool_sweep t ttl p)" refs
  "\<lambda>ip p. resolve ip p \<noteq> None" pool_inv "2 ^ 32 - 1"
  by unfold_locales
    (simp_all add: refs_acquire refs_release refs_sweep pool_sweep_inv refs_pos_known resolve_known
      del: not_None_eq)

section \<open>Properties\<close>

text \<open>The pools the program can reach: a new pool and any sequence of its public operations.\<close>

inductive pool_reach :: "fake_ip_pool \<Rightarrow> bool" where
  reach_new: "pool_reach pool_new"
| reach_alloc: "pool_reach p \<Longrightarrow> pool_reach (snd (alloc d now p))"
| reach_acquire: "pool_reach p \<Longrightarrow> pool_reach (acquire ip now p)"
| reach_release: "pool_reach p \<Longrightarrow> pool_reach (release ip now p)"
| reach_sweep: "pool_reach p \<Longrightarrow> pool_reach (snd (pool_sweep now ttl p))"

lemma pool_reach_inv: "pool_reach p \<Longrightarrow> pool_inv p"
  by (induction rule: pool_reach.induct)
    (auto simp: pool_new_inv acquire_inv release_inv pool_sweep_inv intro: alloc_inv [OF _ surjective_pairing])

lemma resolve_iff: "pool_inv p \<Longrightarrow> resolve ip p = Some d \<longleftrightarrow> fmlookup (domain_to_ip p) d = Some ip"
  using pool_table.fwd_bwd pool_table.bwd_fwd by (fastforce simp: resolve_def)

lemma assignable_is_fake: "pool_inv p \<Longrightarrow> assignable ip \<Longrightarrow> is_fake ip p"
  by (simp add: pool_inv_def is_fake_def assignable_nat word_le_nat_alt)

lemma alloc_resolve:
  assumes "pool_inv p" "alloc d now p = (ip, p')"
  shows "resolve ip p' = Some d" "fmlookup (domain_to_ip p') d = Some ip"
proof -
  show "resolve ip p' = Some d"
  proof (cases "fmlookup (domain_to_ip p) d")
    case None
    with assms show ?thesis by (auto simp: alloc_def resolve_def split: prod.splits)
  next
    case (Some i)
    with assms pool_table.fwd_bwd [OF assms(1) Some] show ?thesis
      by (auto simp: alloc_def resolve_def)
  qed
  then show "fmlookup (domain_to_ip p') d = Some ip"
    using alloc_inv [OF assms] resolve_iff by blast
qed

text \<open>
  C28. In every pool the program can reach, the two directions of the table are inverse to each other:
  a domain is assigned an address exactly when the address resolves back to the domain. Hence no
  address answers for two domains and no domain has two addresses, and every address handed out is
  recognised as fake and is neither the unused .0 nor the resolver address .1.
\<close>

theorem pool_reach_bijection:
  assumes "pool_reach p"
  shows "(resolve ip p = Some d \<longleftrightarrow> fmlookup (domain_to_ip p) d = Some ip) \<and>
    (resolve ip p = Some d \<longrightarrow> is_fake ip p \<and> ip \<noteq> ipv4 198 18 0 0 \<and> ip \<noteq> ipv4 198 18 0 1)"
proof -
  note inv = pool_reach_inv [OF assms]
  have "is_fake ip p \<and> ip \<noteq> ipv4 198 18 0 0 \<and> ip \<noteq> ipv4 198 18 0 1" if "resolve ip p = Some d"
  proof -
    have "assignable ip" using that inv by (auto simp: resolve_def pool_inv_def)
    then show ?thesis
      using assignable_is_fake [OF inv] by (auto simp: assignable_nat ipv4_def from_be32_def)
  qed
  then show ?thesis using resolve_iff [OF inv] by blast
qed

lemma alloc_pool_new:
  "alloc d now pool_new =
     (3323068418, pool_new\<lparr> next_ip := 3323068419, domain_to_ip := fmupd d 3323068418 fmempty,
        ip_to_mapping := fmupd 3323068418 \<lparr> m_domain = d, m_refcount = 0, m_last_used = now \<rparr> fmempty \<rparr>)"
  by (simp add: alloc_def next_free_ip_def probe.simps pool_new_def advance_next_def Let_def)

theorem pool_reach_bijection_witness:
  "resolve (ipv4 198 18 0 2) (snd (alloc [97, 46, 98] 7 pool_new)) = Some [97, 46, 98] \<and>
   is_fake (ipv4 198 18 0 2) (snd (alloc [97, 46, 98] 7 pool_new))"
proof -
  have "resolve (ipv4 198 18 0 2) (snd (alloc [97, 46, 98] 7 pool_new)) = Some [97, 46, 98]"
    by (simp add: alloc_pool_new resolve_def)
  with pool_reach_bijection [OF reach_alloc [OF reach_new], of "ipv4 198 18 0 2" "[97, 46, 98]" 7]
  show ?thesis by blast
qed

text \<open>What the flows of the program do to the pool.\<close>

datatype flow_event = FlowStart u32 nat | FlowEnd u32 nat

fun apply_flow :: "flow_event \<Rightarrow> fake_ip_pool \<Rightarrow> fake_ip_pool" where
  "apply_flow (FlowStart ip t) p = acquire ip t p"
| "apply_flow (FlowEnd ip t) p = release ip t p"

lemma apply_flow_domains: "domain_to_ip (apply_flow e p) = domain_to_ip p"
  by (cases e) (auto simp: acquire_def release_def split: option.split)

lemma fold_apply_flow_domains: "domain_to_ip (fold apply_flow es p) = domain_to_ip p"
  by (induction es arbitrary: p) (simp_all add: apply_flow_domains)

text \<open>
  Allocation is stable and round-trips: the address returned for a domain is recognised as fake
  and resolves back to that domain, and after any sequence of flow starts and ends a further query
  for the domain, at any time, gets the same address again.
\<close>

lemma alloc_stable:
  assumes "pool_inv p" "alloc d now p = (ip, p')"
  shows "resolve ip p' = Some d \<and> is_fake ip p' \<and> fst (alloc d t (fold apply_flow es p')) = ip"
proof -
  note inv = alloc_inv [OF assms]
  have r: "resolve ip p' = Some d" by (rule alloc_resolve(1) [OF assms])
  then have "is_fake ip p'"
    using assignable_is_fake [OF inv] inv by (auto simp: resolve_def pool_inv_def)
  then show ?thesis
    using r alloc_resolve(2) [OF assms] by (simp add: alloc_def fold_apply_flow_domains)
qed

text \<open>
  While an assignable address is free, allocating a new domain disturbs nobody: the probing loop
  finds a free address within one round of the ring, and every address that resolved before the
  allocation resolves to the same domain with the same reference count after it.
\<close>

lemma alloc_frame:
  assumes "pool_inv p" "assignable free" "resolve free p = None"
    "fmlookup (domain_to_ip p) d = None" "alloc d now p = (ip, p')"
  shows "resolve ip p = None \<and> resolve ip p' = Some d \<and> refs ip p' = 0 \<and>
    (\<forall>j. j \<noteq> ip \<longrightarrow> fmlookup (ip_to_mapping p') j = fmlookup (ip_to_mapping p) j)"
proof -
  have "\<not> pool_full p" using assms(2,3) by (auto simp: pool_full_def resolve_def)
  moreover obtain q where q: "next_free_ip p = (ip, q)"
    "p' = q\<lparr> domain_to_ip := fmupd d ip (domain_to_ip q),
             ip_to_mapping := fmupd ip \<lparr> m_domain = d, m_refcount = 0, m_last_used = now \<rparr>
               (ip_to_mapping q) \<rparr>"
    using assms(4,5) by (auto simp: alloc_def split: prod.splits)
  ultimately have "fmlookup (ip_to_mapping p) ip = None" "ip_to_mapping q = ip_to_mapping p"
    using next_free_ip_not_full [OF assms(1)] by auto
  then show ?thesis using q by (simp add: resolve_def refs_def)
qed

lemma alloc_pool_new_fields:
  "ip_to_mapping (snd (alloc d now pool_new)) =
     fmupd 3323068418 \<lparr> m_domain = d, m_refcount = 0, m_last_used = now \<rparr> fmempty"
  "domain_to_ip (snd (alloc d now pool_new)) = fmupd d 3323068418 fmempty"
  "next_ip (snd (alloc d now pool_new)) = 3323068419"
  "range_start (snd (alloc d now pool_new)) = 3323068416"
  "range_end (snd (alloc d now pool_new)) = 3323199487"
  unfolding alloc_pool_new by (simp_all add: pool_new_def)

text \<open>
  C30. A sweep removes exactly the mappings that no flow uses and that have been idle for more than
  the TTL, in both directions of the table, and reports their number. In particular a mapping with
  an active flow is never reclaimed.
\<close>

theorem sweep_exact:
  assumes "pool_inv p"
  shows "resolve ip (snd (pool_sweep now ttl p)) =
      (if \<exists>m. fmlookup (ip_to_mapping p) ip = Some m \<and> m_refcount m = 0 \<and> ttl < now - m_last_used m
       then None else resolve ip p) \<and>
    (fmlookup (domain_to_ip (snd (pool_sweep now ttl p))) d = Some ip \<longleftrightarrow>
       resolve ip (snd (pool_sweep now ttl p)) = Some d) \<and>
    fst (pool_sweep now ttl p) + fst (pool_usage (snd (pool_sweep now ttl p))) = fst (pool_usage p)"
proof -
  let ?q = "snd (pool_sweep now ttl p)"
  have "set (stale_ips now ttl p) \<subseteq> fset (fmdom (ip_to_mapping p))" "distinct (stale_ips now ttl p)"
    by (auto simp: stale_ips_def)
  moreover have "fset (fmdom (ip_to_mapping ?q)) =
      fset (fmdom (ip_to_mapping p)) - set (stale_ips now ttl p)"
    by (auto simp: fmdom_member_iff sweep_lookup set_stale_ips split: option.splits if_splits)
  ultimately have "length (stale_ips now ttl p) + fcard (fmdom (ip_to_mapping ?q)) =
      fcard (fmdom (ip_to_mapping p))"
    by (metis List.finite_set card_Diff_subset card_mono distinct_card fcard.rep_eq finite_fset
        le_add_diff_inverse)
  then have "fst (pool_sweep now ttl p) + fst (pool_usage ?q) = fst (pool_usage p)"
    by (simp add: pool_usage_def Let_def pool_sweep_def)
  moreover have "resolve ip ?q =
      (if \<exists>m. fmlookup (ip_to_mapping p) ip = Some m \<and> m_refcount m = 0 \<and> ttl < now - m_last_used m
       then None else resolve ip p)"
    by (auto simp: resolve_def sweep_lookup stale_def split: option.split)
  ultimately show ?thesis
    using resolve_iff [OF pool_sweep_inv [OF assms]] by (intro conjI; blast)
qed

theorem sweep_exact_witness:
  "resolve 3323068418 (snd (pool_sweep 2000 1800 (snd (alloc [97] 7 pool_new)))) = None \<and>
   fst (pool_sweep 2000 1800 (snd (alloc [97] 7 pool_new))) = 1 \<and>
   resolve 3323068418
     (snd (pool_sweep 2000 1800 (acquire 3323068418 8 (snd (alloc [97] 7 pool_new))))) = Some [97]"
proof -
  define p where "p = snd (alloc [97] 7 pool_new)"
  have p: "pool_inv p" unfolding p_def by (rule alloc_inv [OF pool_new_inv surjective_pairing])
  note f = alloc_pool_new_fields [of "[97]" 7, folded p_def]
  have r: "resolve 3323068418 (snd (pool_sweep 2000 1800 p)) = None"
    using sweep_exact [OF p, of 3323068418 2000 1800 "[97]"] by (simp add: f)
  moreover have "\<not> (\<exists>d. resolve j (snd (pool_sweep 2000 1800 p)) = Some d)" for j
    using sweep_exact [OF p, of j 2000 1800 "[97]"] r by (auto simp: f resolve_def split: if_splits)
  then have "ip_to_mapping (snd (pool_sweep 2000 1800 p)) = fmempty"
    by (intro fmap_ext) (simp add: resolve_def)
  then have "fst (pool_sweep 2000 1800 p) = 1"
    using sweep_exact [OF p, of 0 2000 1800 "[97]"] by (simp add: pool_usage_def f Let_def fcard.rep_eq)
  moreover have "resolve 3323068418 (snd (pool_sweep 2000 1800 (acquire 3323068418 8 p))) = Some [97]"
    using sweep_exact [OF acquire_inv [OF p], of 3323068418 2000 1800 3323068418 8 "[97]"]
    by (simp add: f acquire_def resolve_def)
  ultimately show ?thesis by (simp flip: p_def)
qed

text \<open>
  C29. What happens when all 131070 addresses are registered: the allocation for a new domain takes
  the address under the cursor away from its present owner, whatever its reference count is. The
  owner's domain loses its address, and a flow that still holds the address now resolves to the new
  domain. The documentation of the pool promises that an active mapping is never overwritten; the
  code relies on the caller having swept.
\<close>

theorem full_pool_overwrites_active:
  assumes "pool_inv p" "pool_full p" "fmlookup (domain_to_ip p) d = None"
    "fmlookup (ip_to_mapping p) (next_ip p) = Some victim"
  shows "fst (alloc d now p) = next_ip p \<and>
    resolve (next_ip p) (snd (alloc d now p)) = Some d \<and>
    fmlookup (domain_to_ip (snd (alloc d now p))) (m_domain victim) = None \<and>
    refs (next_ip p) (snd (alloc d now p)) = 0"
proof -
  obtain ip q where q: "next_free_ip p = (ip, q)" by fastforce
  from next_free_ip_full [OF assms(1,2) q]
  obtain c where c: "ip = next_ip p" "q = remove_mapping ip (p\<lparr> next_ip := c \<rparr>)" by blast
  have "m_domain victim \<noteq> d"
    using assms(3) bi_agreeD2 [OF pool_invD(1) [OF assms(1)] assms(4)] by auto
  with q c assms(3,4) show ?thesis
    by (simp add: alloc_def resolve_def refs_def remove_mapping_def)
qed

text \<open>A full pool in which every mapping is in use, for the witness.\<close>

definition all_ips :: "u32 list" where
  "all_ips = map of_nat [first_ip..<first_ip + pool_size]"

definition crowded_pool :: fake_ip_pool where
  "crowded_pool = pool_new\<lparr>
     domain_to_ip := fmap_of_list (map (\<lambda>d. (d, from_be32 (d ! 0) (d ! 1) (d ! 2) (d ! 3))) (map be32 all_ips)),
     ip_to_mapping := fmap_of_list
       (map (\<lambda>ip. (ip, \<lparr> m_domain = be32 ip, m_refcount = 1, m_last_used = 0 \<rparr>)) all_ips) \<rparr>"

lemma set_all_ips: "set all_ips = {ip. assignable ip}"
proof -
  have "ip \<in> of_nat ` {first_ip..<first_ip + pool_size}" if "assignable ip" for ip
    using that by (intro image_eqI [of _ _ "unat ip"]) (auto simp: assignable_nat)
  moreover have "assignable (of_nat i)" if "first_ip \<le> i" "i < first_ip + pool_size" for i
    using that by (simp add: assignable_nat unat_of_nat)
  ultimately show ?thesis unfolding all_ips_def set_map set_upt by auto
qed

lemma crowded_lookup:
  "fmlookup (ip_to_mapping crowded_pool) ip =
     (if assignable ip then Some \<lparr> m_domain = be32 ip, m_refcount = 1, m_last_used = 0 \<rparr> else None)"
  unfolding crowded_pool_def
  by (simp add: fmlookup_of_list map_of_map_restrict set_all_ips restrict_map_def)

lemma crowded_domains:
  "fmlookup (domain_to_ip crowded_pool) d = Some ip \<longleftrightarrow> assignable ip \<and> be32 ip = d"
  unfolding crowded_pool_def
  by (auto simp: fmlookup_of_list map_of_map_restrict set_all_ips restrict_map_def image_iff
      be32_inverse split: if_splits simp del: map_map dest: arg_cong [of _ _ "\<lambda>d. from_be32 (d ! 0) (d ! Suc 0) (d ! 2) (d ! 3)"])

lemma crowded_inv: "pool_inv crowded_pool"
proof -
  have "bi_agree m_domain (domain_to_ip crowded_pool) (ip_to_mapping crowded_pool)"
    by (auto simp: bi_agree_def crowded_domains crowded_lookup)
  moreover have "next_ip crowded_pool = 3323068418" "range_start crowded_pool = 3323068416"
    "range_end crowded_pool = 3323199487"
    by (simp_all add: crowded_pool_def pool_new_def)
  ultimately show ?thesis by (simp add: pool_inv_def crowded_lookup assignable_nat)
qed

theorem full_pool_overwrites_active_witness:
  "refs (next_ip crowded_pool) crowded_pool = 1 \<and>
   resolve (next_ip crowded_pool) (snd (alloc [97] 5 crowded_pool)) = Some [97] \<and>
   refs (next_ip crowded_pool) (snd (alloc [97] 5 crowded_pool)) = 0"
proof -
  have n: "next_ip crowded_pool = 3323068418" by (simp add: crowded_pool_def pool_new_def)
  have full: "pool_full crowded_pool" by (simp add: pool_full_def crowded_lookup)
  have new: "fmlookup (domain_to_ip crowded_pool) [97] = None"
    by (rule ccontr) (auto simp: crowded_domains be32_def)
  have old: "fmlookup (ip_to_mapping crowded_pool) (next_ip crowded_pool) =
      Some \<lparr> m_domain = be32 3323068418, m_refcount = 1, m_last_used = 0 \<rparr>"
    by (simp add: n crowded_lookup assignable_nat)
  from full_pool_overwrites_active [OF crowded_inv full new old, of 5] old
  show ?thesis by (simp add: refs_def)
qed

end
