(* ===== verification/Shared.thy ===== *)
theory Shared
  imports Prelude
begin

text \<open>
  The types the components exchange: the client error of \<^verbatim>\<open>src/shared/errors.rs\<close>, the target address
  of \<^verbatim>\<open>src/shared/target.rs\<close>, and Rust's strings: UTF-8 validation as \<open>std::str::from_utf8\<close> does it,
  ASCII case folding, joining and suffix tests.

  The payload of an error is a short tag that names the failing check; the source's message texts
  are not modelled.
\<close>

datatype client_error = Io string | InvalidTarget string | Utf8 string | Reality string

type_synonym 'a result = "client_error + 'a"

datatype ip_addr = V4 u32 | V6 "128 word"

datatype target_addr = IpPort ip_addr u16 | DomainPort bytes u16

fun target_port :: "target_addr \<Rightarrow> u16" where
  "target_port (IpPort _ p) = p"
| "target_port (DomainPort _ p) = p"

section \<open>Strings\<close>

text \<open>A string literal as its bytes.\<close>

definition str :: "string \<Rightarrow> bytes" where
  "str s = map of_char s"

definition utf8_cont :: "u8 \<Rightarrow> bool" where
  "utf8_cont b \<longleftrightarrow> 0x80 \<le> b \<and> b \<le> 0xBF"

definition utf8_width :: "u8 \<Rightarrow> nat" where
  "utf8_width a =
     (if a < 0x80 then 1
      else if 0xC2 \<le> a \<and> a \<le> 0xDF then 2
      else if 0xE0 \<le> a \<and> a \<le> 0xEF then 3
      else if 0xF0 \<le> a \<and> a \<le> 0xF4 then 4
      else 0)"

text \<open>
  The bytes after the first: continuation bytes, with the first of them restricted further for the
  four leading bytes that would otherwise admit overlong forms, surrogates or code points beyond
  U+10FFFF.
\<close>

definition utf8_tail :: "u8 \<Rightarrow> bytes \<Rightarrow> bool" where
  "utf8_tail a t \<longleftrightarrow> list_all utf8_cont t \<and>
     (a = 0xE0 \<longrightarrow> 0xA0 \<le> t ! 0) \<and> (a = 0xED \<longrightarrow> t ! 0 \<le> 0x9F) \<and>
     (a = 0xF0 \<longrightarrow> 0x90 \<le> t ! 0) \<and> (a = 0xF4 \<longrightarrow> t ! 0 \<le> 0x8F)"

text \<open>The length of the well-formed character a string starts with; 0 if there is none.\<close>

fun utf8_len :: "bytes \<Rightarrow> nat" where
  "utf8_len [] = 0"
| "utf8_len (a # t) =
     (let w = utf8_width a
      in if w \<le> Suc (length t) \<and> utf8_tail a (take (w - 1) t) then w else 0)"

function valid_utf8 :: "bytes \<Rightarrow> bool" where
  "valid_utf8 s =
     (if s = [] then True
      else if utf8_len s = 0 then False
      else valid_utf8 (drop (utf8_len s) s))"
  by pat_completeness auto
termination by (relation "measure length") auto

declare valid_utf8.simps [simp del]

definition to_ascii_lowercase :: "bytes \<Rightarrow> bytes" where
  "to_ascii_lowercase = map (\<lambda>b. if 0x41 \<le> b \<and> b \<le> 0x5A then b + 0x20 else b)"

text \<open>\<open>parts.join(sep)\<close>.\<close>

fun join :: "bytes \<Rightarrow> bytes list \<Rightarrow> bytes" where
  "join sep [] = []"
| "join sep [x] = x"
| "join sep (x # y # ys) = x @ sep @ join sep (y # ys)"

text \<open>\<open>s.strip_suffix(t)\<close> and \<open>s.trim_end_matches(c)\<close> for one-byte characters.\<close>

definition strip_suffix :: "bytes \<Rightarrow> bytes \<Rightarrow> bytes option" where
  "strip_suffix s t =
     (if length t \<le> length s \<and> drop (length s - length t) s = t
      then Some (take (length s - length t) s) else None)"

definition trim_end :: "u8 \<Rightarrow> bytes \<Rightarrow> bytes" where
  "trim_end c s = rev (dropWhile ((=) c) (rev s))"

lemma strip_suffix_Some_iff: "strip_suffix s t = Some p \<longleftrightarrow> s = p @ t"
  by (auto simp: strip_suffix_def) (metis append_take_drop_id)

lemma valid_utf8_Nil [simp]: "valid_utf8 []"
  by (simp add: valid_utf8.simps)

lemma valid_utf8_ascii_Cons [simp]: "b < 0x80 \<Longrightarrow> valid_utf8 (b # s) = valid_utf8 s"
  by (simp add: valid_utf8.simps [of "b # s"] utf8_width_def utf8_tail_def) (auto simp: word_less_nat_alt)

lemma valid_utf8_ascii: "(\<forall>b\<in>set s. b < 0x80) \<Longrightarrow> valid_utf8 s"
  by (induction s) simp_all

lemma utf8_len_append:
  "utf8_len s \<noteq> 0 \<Longrightarrow> s \<noteq> [] \<Longrightarrow> utf8_len (s @ t) = utf8_len s \<and> utf8_len s \<le> length s"
  by (cases s) (auto simp: Let_def split: if_splits)

lemma valid_utf8_append: "valid_utf8 xs \<Longrightarrow> valid_utf8 (xs @ ys) = valid_utf8 ys"
proof (induction xs rule: valid_utf8.induct)
  case (1 s)
  show ?case
  proof (cases "s = []")
    case False
    with 1 have "utf8_len s \<noteq> 0" "valid_utf8 (drop (utf8_len s) s)"
      by (auto simp: valid_utf8.simps [of s] split: if_splits)
    with 1 False utf8_len_append [of s ys] show ?thesis
      by (simp add: valid_utf8.simps [of "s @ ys"])
  qed simp
qed

lemma valid_utf8_join:
  "valid_utf8 sep \<Longrightarrow> \<forall>x\<in>set xs. valid_utf8 x \<Longrightarrow> valid_utf8 (join sep xs)"
  by (induction sep xs rule: join.induct) (simp_all add: valid_utf8_append)

lemma trim_end_decompose: "\<exists>n. s = trim_end c s @ replicate n c"
proof
  let ?t = "takeWhile ((=) c) (rev s)"
  have t: "replicate (length ?t) c = rev ?t"
    by (rule replicate_eqI [symmetric]) (auto dest: set_takeWhileD)
  have "trim_end c s @ rev ?t = rev (?t @ dropWhile ((=) c) (rev s))"
    by (simp add: trim_end_def flip: rev_append)
  then show "s = trim_end c s @ replicate (length ?t) c"
    unfolding t by simp
qed

lemma trim_end_last: "trim_end c s = [] \<or> last (trim_end c s) \<noteq> c"
  using hd_dropWhile [of "(=) c" "rev s"]
  by (cases "dropWhile ((=) c) (rev s)") (auto simp: trim_end_def last_rev)

lemma dropWhile_replicate_append: "dropWhile ((=) c) (replicate n c @ ys) = dropWhile ((=) c) ys"
  by (induction n) simp_all

lemma trim_end_replicate:
  assumes "xs = [] \<or> last xs \<noteq> c"
  shows "trim_end c (xs @ replicate n c) = xs"
proof -
  have "dropWhile ((=) c) (rev xs) = rev xs"
    using assms by (cases "rev xs") (auto simp: last_rev [symmetric])
  then show ?thesis by (simp add: trim_end_def dropWhile_replicate_append)
qed

end
