(* ===== verification/Dns.thy ===== *)
theory Dns
  imports Shared
begin

text \<open>
  The DNS codec of \<^verbatim>\<open>src/dns.rs\<close>: the parser of single-question queries and the builder of the
  responses the client forges. The label loop consumes at least one byte per round, so it ends by
  the bounds check on the data.
\<close>

section \<open>Definitions\<close>

definition QTYPE_A :: u16 where "QTYPE_A = 1"
definition QTYPE_AAAA :: u16 where "QTYPE_AAAA = 28"

record dns_query =
  q_id :: u16
  q_qname :: bytes
  q_qtype :: u16
  q_rd :: bool
  q_question :: bytes

datatype answer = AnswerA u32 u32 | NoData

text \<open>The loop over the labels, from \<open>pos\<close> on; returns the labels and the position after the root.\<close>

function read_labels :: "bytes \<Rightarrow> nat \<Rightarrow> bytes list \<Rightarrow> (bytes list \<times> nat) option" where
  "read_labels data pos labels =
     (case get_at data pos of
        None \<Rightarrow> None
      | Some len \<Rightarrow>
          if len = 0 then Some (labels, pos + 1)
          else if len AND 0xC0 \<noteq> 0 then None
          else case get_range data (pos + 1) (pos + 1 + unat len) of
                 None \<Rightarrow> None
               | Some label \<Rightarrow>
                   if valid_utf8 label
                   then read_labels data (pos + 1 + unat len) (labels @ [label]) else None)"
  by pat_completeness auto
termination
  by (relation "measure (\<lambda>(data, pos, _). length data - pos)") (auto simp: get_at_Some_iff)

declare read_labels.simps [simp del]

definition parse_query :: "bytes \<Rightarrow> dns_query option" where
  "parse_query data =
     (if length data < 12 then None
      else let qid = from_be16 (data ! 0) (data ! 1);
               flags = from_be16 (data ! 2) (data ! 3);
               rd = (flags AND 0x0100 \<noteq> 0);
               qdcount = from_be16 (data ! 4) (data ! 5)
           in if qdcount \<noteq> 1 then None
              else do {
                (labels, pos) \<leftarrow> read_labels data 12 [];
                t0 \<leftarrow> get_at data pos;
                t1 \<leftarrow> get_at data (pos + 1);
                question \<leftarrow> get_range data 12 (pos + 4);
                Some \<lparr> q_id = qid, q_qname = join (str ''.'') labels, q_qtype = from_be16 t0 t1,
                       q_rd = rd, q_question = question \<rparr>
              })"

definition response_header :: "dns_query \<Rightarrow> answer \<Rightarrow> bytes" where
  "response_header q ans =
     (let rd_bit = (if q_rd q then 0x0100 else 0);
          flags = 0x8000 OR rd_bit;
          ancount = (case ans of AnswerA _ _ \<Rightarrow> 1 | NoData \<Rightarrow> 0)
      in be16 (q_id q) @ be16 flags @ be16 1 @ be16 ancount @ be16 0 @ be16 0)"

definition answer_record :: "answer \<Rightarrow> bytes" where
  "answer_record ans =
     (case ans of
        AnswerA ip ttl \<Rightarrow> [0xC0, 0x0C] @ be16 QTYPE_A @ be16 1 @ be32 ttl @ be16 4 @ be32 ip
      | NoData \<Rightarrow> [])"

definition build_response :: "dns_query \<Rightarrow> answer \<Rightarrow> bytes" where
  "build_response q ans = response_header q ans @ q_question q @ answer_record ans"

section \<open>The wire format of a query\<close>

text \<open>
  RFC 1035 as a reference: a name is a sequence of labels of 1 to 63 bytes, each after its length,
  closed by a zero byte; a query is a 12-byte header with one question.
\<close>

definition wf_label :: "bytes \<Rightarrow> bool" where
  "wf_label l \<longleftrightarrow> l \<noteq> [] \<and> length l \<le> 63 \<and> valid_utf8 l"

definition encode_labels :: "bytes list \<Rightarrow> bytes" where
  "encode_labels ls = concat (map (\<lambda>l. of_nat (length l) # l) ls) @ [0]"

definition encode_question :: "bytes list \<Rightarrow> u16 \<Rightarrow> u16 \<Rightarrow> bytes" where
  "encode_question ls qtype qclass = encode_labels ls @ be16 qtype @ be16 qclass"

definition query_packet :: "u16 \<Rightarrow> u16 \<Rightarrow> bytes \<Rightarrow> bytes list \<Rightarrow> u16 \<Rightarrow> u16 \<Rightarrow> bytes" where
  "query_packet qid flags counts ls qtype qclass =
     be16 qid @ be16 flags @ be16 1 @ counts @ encode_question ls qtype qclass"

definition query_of :: "u16 \<Rightarrow> u16 \<Rightarrow> bytes list \<Rightarrow> u16 \<Rightarrow> u16 \<Rightarrow> dns_query" where
  "query_of qid flags ls qtype qclass =
     \<lparr> q_id = qid, q_qname = join (str ''.'') ls, q_qtype = qtype, q_rd = (flags AND 0x0100 \<noteq> 0),
       q_question = encode_question ls qtype qclass \<rparr>"

section \<open>The label loop\<close>

lemma label_len_bits: "b AND 0xC0 = 0 \<longleftrightarrow> unat (b :: u8) \<le> 63"
proof -
  have "b AND 0xC0 = 0 \<longleftrightarrow> take_bit 6 b = b"
  proof
    assume "b AND 0xC0 = 0"
    moreover have "mask 6 OR 0xC0 = (- 1 :: u8)" by (simp add: mask_eq_exp_minus_1)
    then have "b = (b AND mask 6) OR (b AND 0xC0)" by (metis and.right_neutral bit.conj_disj_distrib)
    ultimately show "take_bit 6 b = b" by (simp add: take_bit_eq_mask)
  next
    assume "take_bit 6 b = b"
    then have "b AND 0xC0 = b AND (mask 6 AND 0xC0)"
      by (metis and.assoc take_bit_eq_mask)
    then show "b AND 0xC0 = 0" by (simp add: mask_eq_exp_minus_1)
  qed
  also have "\<dots> \<longleftrightarrow> unat b \<le> 63"
    by (simp add: word_unat_eq_iff unsigned_take_bit_eq take_bit_nat_eq_self_iff) linarith
  finally show ?thesis .
qed

lemma encode_labels_Cons: "encode_labels (l # ls) = of_nat (length l) # l @ encode_labels ls"
  by (simp add: encode_labels_def)

lemma unat_label_len: "length l \<le> 63 \<Longrightarrow> unat (of_nat (length l) :: u8) = length l"
  by (simp add: unat_of_nat)

lemma read_labels_complete:
  "\<forall>l\<in>set ls. wf_label l \<Longrightarrow>
   read_labels (pre @ encode_labels ls @ post) (length pre) acc =
     Some (acc @ ls, length pre + length (encode_labels ls))"
proof (induction ls arbitrary: pre acc)
  case Nil
  show ?case by (subst read_labels.simps) (simp add: encode_labels_def get_at_def)
next
  case (Cons l ls)
  let ?b = "of_nat (length l) :: u8"
  have l: "l \<noteq> []" "unat ?b = length l" "valid_utf8 l" "?b AND 0xC0 = 0"
    using Cons.prems by (auto simp: wf_label_def unat_label_len label_len_bits)
  then have nz: "?b \<noteq> 0" by (metis length_0_conv unat_0)
  have "read_labels ((pre @ ?b # l) @ encode_labels ls @ post) (length (pre @ ?b # l)) (acc @ [l]) =
      Some ((acc @ [l]) @ ls, length (pre @ ?b # l) + length (encode_labels ls))"
    using Cons.prems by (intro Cons.IH) auto
  then show ?case
    using l nz
    by (subst read_labels.simps) (simp add: encode_labels_Cons get_at_def get_range_def nth_append)
qed

lemma read_labels_sound:
  "read_labels data pos acc = Some (ls, p) \<Longrightarrow>
   \<exists>ks. ls = acc @ ks \<and> (\<forall>l\<in>set ks. wf_label l) \<and> p \<le> length data \<and>
     drop pos data = encode_labels ks @ drop p data"
proof (induction data pos acc rule: read_labels.induct)
  case (1 data pos acc)
  let ?b = "data ! pos" let ?n = "pos + 1 + unat (data ! pos)"
  have pos: "pos < length data" and b: "get_at data pos = Some ?b"
    using "1.prems" by (subst (asm) read_labels.simps, auto simp: get_at_Some_iff split: option.splits)+
  then have d: "drop pos data = ?b # drop (pos + 1) data" by (simp add: Cons_nth_drop_Suc)
  show ?case
  proof (cases "?b = 0")
    case True
    with "1.prems" b pos d show ?thesis
      by (subst (asm) read_labels.simps) (auto simp: encode_labels_def intro!: exI [of _ "[]"])
  next
    case False
    with "1.prems" b obtain label where l: "?b AND 0xC0 = 0"
      "get_range data (pos + 1) ?n = Some label" "valid_utf8 label"
      "read_labels data ?n (acc @ [label]) = Some (ls, p)"
      by (subst (asm) read_labels.simps) (auto split: if_splits option.splits)
    from "1.IH" [OF b False _ l(2,3,4)] l(1)
    obtain ks where ks: "ls = acc @ label # ks" "\<forall>l\<in>set ks. wf_label l" "p \<le> length data"
      "drop ?n data = encode_labels ks @ drop p data" by auto
    have lab: "label = take (unat ?b) (drop (pos + 1) data)" "length label = unat ?b"
      using l(2) get_range_length [OF l(2)] by (auto simp: get_range_Some_iff)
    have "drop (pos + 1) data = label @ drop ?n data"
      using lab(1) by (metis append_take_drop_id drop_drop add.commute)
    then have "drop pos data = encode_labels (label # ks) @ drop p data"
      using d lab(2) ks(4) by (simp add: encode_labels_Cons)
    moreover have "wf_label label"
      using l lab(2) False by (auto simp: wf_label_def label_len_bits unat_eq_0)
    ultimately show ?thesis using ks by (intro exI [of _ "label # ks"]) auto
  qed
qed

section \<open>Properties\<close>

lemma parse_query_complete:
  assumes "\<forall>l\<in>set ls. wf_label l" "length counts = 6"
  shows "parse_query (query_packet qid flags counts ls qtype qclass @ trailer) =
    Some (query_of qid flags ls qtype qclass)"
proof -
  define pre where "pre = be16 qid @ be16 flags @ be16 1 @ counts"
  define post where "post = be16 qtype @ be16 qclass @ trailer"
  define e where "e = encode_labels ls"
  have pre: "length pre = 12" using assms(2) by (simp add: pre_def)
  have data: "query_packet qid flags counts ls qtype qclass @ trailer = pre @ e @ post"
    by (simp add: query_packet_def encode_question_def pre_def post_def e_def)
  have "read_labels (pre @ e @ post) 12 [] = Some (ls, 12 + length e)"
    using read_labels_complete [OF assms(1), of pre post "[]"] pre by (simp add: e_def)
  moreover have "get_at (pre @ e @ post) (12 + length e) = Some (ucast (drop_bit 8 qtype))"
    "get_at (pre @ e @ post) (13 + length e) = Some (ucast qtype)"
    using pre by (simp_all add: get_at_prefix post_def be16_def)
  moreover have "get_range (pre @ (e @ be16 qtype @ be16 qclass) @ trailer) (length pre)
      (length pre + length (e @ be16 qtype @ be16 qclass)) = Some (e @ be16 qtype @ be16 qclass)"
    by (rule get_range_append)
  then have "get_range (pre @ e @ post) 12 (16 + length e) = Some (encode_question ls qtype qclass)"
    using pre by (simp add: post_def e_def encode_question_def add.commute)
  moreover have "from_be16 ((pre @ e @ post) ! 0) ((pre @ e @ post) ! 1) = qid"
    "from_be16 ((pre @ e @ post) ! 2) ((pre @ e @ post) ! 3) = flags"
    by (simp_all add: pre_def be16_def be_simps)
  moreover have "from_be16 ((pre @ e @ post) ! 4) ((pre @ e @ post) ! 5) = 1"
    by (simp add: pre_def be16_def from_be16_def)
  ultimately show ?thesis
    unfolding data parse_query_def query_of_def using pre by (simp add: Let_def add.commute be_simps)
qed

lemma parse_query_sound:
  assumes "parse_query data = Some q"
  shows "\<exists>qid flags counts ls qtype qclass trailer.
    data = query_packet qid flags counts ls qtype qclass @ trailer \<and> length counts = 6 \<and>
    (\<forall>l\<in>set ls. wf_label l) \<and> q = query_of qid flags ls qtype qclass"
proof -
  have len: "12 \<le> length data" and one: "from_be16 (data ! 4) (data ! 5) = 1"
    using assms by (auto simp: parse_query_def Let_def split: if_splits)
  obtain labels pos where rl: "read_labels data 12 [] = Some (labels, pos)" and p4: "pos + 4 \<le> length data"
    and q: "q = \<lparr> q_id = from_be16 (data ! 0) (data ! 1), q_qname = join (str ''.'') labels,
      q_qtype = from_be16 (data ! pos) (data ! (pos + 1)),
      q_rd = (from_be16 (data ! 2) (data ! 3) AND 0x0100 \<noteq> 0),
      q_question = take (pos + 4 - 12) (drop 12 data) \<rparr>"
    using assms by (auto simp: parse_query_def Let_def range_simps split: if_splits bind_splits)
  from read_labels_sound [OF rl] have wf: "\<forall>l\<in>set labels. wf_label l"
    and d: "drop 12 data = encode_labels labels @ drop pos data" by auto
  have tr: "drop pos data = be16 (from_be16 (data ! pos) (data ! (pos + 1))) @
      be16 (from_be16 (data ! (pos + 2)) (data ! (pos + 3))) @ drop (pos + 4) data"
    using drop_unfold4 [OF p4] by (simp add: be16_from_be16)
  have hd: "take 6 data = be16 (from_be16 (data ! 0) (data ! 1)) @ be16 (from_be16 (data ! 2) (data ! 3)) @ be16 1"
    unfolding one [symmetric] be16_from_be16 using take_unfold6 [of data] len by simp
  have p12: "pos = 12 + length (encode_labels labels)"
    using arg_cong [OF d, of length] p4 len by simp
  have "data = take 6 data @ take 6 (drop 6 data) @ drop 12 data"
    by (metis append_take_drop_id drop_drop numeral_plus_numeral add_num_simps)
  then have "data = query_packet (from_be16 (data ! 0) (data ! 1)) (from_be16 (data ! 2) (data ! 3))
      (take 6 (drop 6 data)) labels (from_be16 (data ! pos) (data ! (pos + 1)))
      (from_be16 (data ! (pos + 2)) (data ! (pos + 3))) @ drop (pos + 4) data"
    using hd d tr by (simp add: query_packet_def encode_question_def)
  moreover have "q = query_of (from_be16 (data ! 0) (data ! 1)) (from_be16 (data ! 2) (data ! 3))
      labels (from_be16 (data ! pos) (data ! (pos + 1))) (from_be16 (data ! (pos + 2)) (data ! (pos + 3)))"
    using q d tr p12 by (simp add: query_of_def encode_question_def)
  moreover have "length (take 6 (drop 6 data)) = 6" using len by simp
  ultimately show ?thesis using wf by blast
qed

text \<open>
  C37. The parser accepts exactly the well-formed packets: it returns a query if and only if the data
  is a 12-byte header with QDCOUNT 1, followed by a sequence of UTF-8 labels of 1 to 63 bytes, the
  root, a type and a class, followed by anything; and then the id, the dotted name, the type, the RD
  bit and the raw question it returns are those of the packet. Everything else, truncated data and
  compression pointers included, is rejected.
\<close>

theorem parse_query_iff:
  "parse_query data = Some q \<longleftrightarrow>
   (\<exists>qid flags counts ls qtype qclass trailer.
      data = query_packet qid flags counts ls qtype qclass @ trailer \<and> length counts = 6 \<and>
      (\<forall>l\<in>set ls. wf_label l) \<and> q = query_of qid flags ls qtype qclass)"
proof
  assume "parse_query data = Some q"
  then show "\<exists>qid flags counts ls qtype qclass trailer.
      data = query_packet qid flags counts ls qtype qclass @ trailer \<and> length counts = 6 \<and>
      (\<forall>l\<in>set ls. wf_label l) \<and> q = query_of qid flags ls qtype qclass"
    by (rule parse_query_sound)
qed (use parse_query_complete in blast)

theorem parse_query_iff_witness:
  "parse_query (query_packet 7 0x0100 [0,0,0,0,0,0] [str ''dns'', str ''google''] 1 1 @ [1, 2]) =
   Some \<lparr> q_id = 7, q_qname = str ''dns.google'', q_qtype = 1, q_rd = True,
          q_question = [3, 100, 110, 115, 6, 103, 111, 111, 103, 108, 101, 0, 0, 1, 0, 1] \<rparr>"
proof -
  have wf: "\<forall>l\<in>set [str ''dns'', str ''google'']. wf_label l"
    by (simp add: wf_label_def str_def)
  have "query_of 7 0x0100 [str ''dns'', str ''google''] 1 1 =
      \<lparr> q_id = 7, q_qname = str ''dns.google'', q_qtype = 1, q_rd = True,
        q_question = [3, 100, 110, 115, 6, 103, 111, 111, 103, 108, 101, 0, 0, 1, 0, 1] \<rparr>"
    by (simp add: query_of_def encode_question_def encode_labels_def str_def be16_def)
  then show ?thesis
    unfolding parse_query_iff using wf by (intro exI conjI) (rule refl | assumption | simp)+
qed

text \<open>The header of a response, read as the header of a query.\<close>

definition response_counts :: "answer \<Rightarrow> bytes" where
  "response_counts ans = be16 (case ans of AnswerA _ _ \<Rightarrow> 1 | NoData \<Rightarrow> 0) @ be16 0 @ be16 0"

lemma build_response_packet:
  "build_response (query_of qid flags ls qtype qclass) ans =
     query_packet qid (if flags AND 0x0100 \<noteq> 0 then 0x8100 else 0x8000) (response_counts ans) ls qtype qclass @
     answer_record ans"
  by (simp add: build_response_def response_header_def query_of_def query_packet_def response_counts_def
      Let_def)

lemma response_parses:
  assumes "parse_query data = Some q"
  shows "parse_query (build_response q ans) = Some q"
proof -
  from parse_query_sound [OF assms] obtain qid flags counts ls qtype qclass trailer
    where wf: "\<forall>l\<in>set ls. wf_label l" and q: "q = query_of qid flags ls qtype qclass" by blast
  have f: "query_of qid (if flags AND 0x0100 \<noteq> 0 then 0x8100 else 0x8000) ls qtype qclass = q"
    by (simp add: q query_of_def)
  show ?thesis
    unfolding q build_response_packet
    by (subst parse_query_complete [OF wf]) (simp_all add: response_counts_def f flip: q)
qed

lemma response_address: "drop (length (build_response q (AnswerA ip ttl)) - 4) (build_response q (AnswerA ip ttl)) = be32 ip"
  by (simp add: build_response_def answer_record_def)

lemma question_length:
  assumes "parse_query data = Some q"
  shows "length (q_question q) + 12 \<le> length data"
proof -
  from parse_query_sound [OF assms] obtain qid flags counts ls qtype qclass trailer
    where "data = query_packet qid flags counts ls qtype qclass @ trailer" "length counts = 6"
      "q = query_of qid flags ls qtype qclass" by blast
  then show ?thesis by (simp add: query_packet_def query_of_def)
qed

text \<open>
  A response answers the query it was built from: it begins with the id of the query, has the
  response bit set and the RD bit and the question of the query, so that a client that parses it
  finds exactly the query it asked; and it ends with the answer record, whose last four bytes are the
  address.
\<close>

lemma response_matches_query:
  assumes "parse_query data = Some q"
  shows "parse_query (build_response q ans) = Some q \<and>
    take 2 (build_response q ans) = take 2 data \<and>
    build_response q ans ! 2 = (if q_rd q then 0x81 else 0x80) \<and>
    (\<forall>ip ttl. ans = AnswerA ip ttl \<longrightarrow>
       drop (length (build_response q ans) - 4) (build_response q ans) = be32 ip)"
proof -
  from parse_query_sound [OF assms] obtain qid flags counts ls qtype qclass trailer
    where d: "data = query_packet qid flags counts ls qtype qclass @ trailer"
      and q: "q = query_of qid flags ls qtype qclass" by blast
  have "take 2 (build_response q ans) = take 2 data"
    by (simp add: d q build_response_packet query_packet_def)
  moreover have "build_response q ans ! 2 = (if q_rd q then 0x81 else 0x80)"
    unfolding q build_response_packet by (simp add: query_packet_def be16_def query_of_def)
  ultimately show ?thesis using response_parses [OF assms] by (simp add: response_address)
qed

end
