(* ===== verification/DnsBlock.thy ===== *)
theory DnsBlock
  imports Shared FakeIp
begin

text \<open>
  The recogniser of encrypted-DNS endpoints, \<^verbatim>\<open>src/dns_block.rs\<close>: the ports of DoT/DoQ and of plain
  DNS over TCP, the built-in names of DoH servers with their subdomains, and their bootstrap addresses.
\<close>

definition is_encrypted_dns_port :: "u16 \<Rightarrow> bool" where
  "is_encrypted_dns_port port \<longleftrightarrow> port = 853"

definition is_dns_relay_port :: "u16 \<Rightarrow> bool" where
  "is_dns_relay_port port \<longleftrightarrow> port = 53 \<or> is_encrypted_dns_port port"

definition DOH_DOMAINS :: "bytes list" where
  "DOH_DOMAINS = map str
     [''dns.google'', ''dns.google.com'', ''dns64.dns.google'', ''cloudflare-dns.com'',
      ''mozilla.cloudflare-dns.com'', ''chrome.cloudflare-dns.com'', ''one.one.one.one'',
      ''dns.quad9.net'', ''dns11.quad9.net'', ''dns10.quad9.net'', ''doh.opendns.com'',
      ''dns.adguard-dns.com'', ''dns.adguard.com'', ''doh.cleanbrowsing.org'', ''doh.dns.sb'',
      ''dns.nextdns.io'']"

definition DOH_IPS :: "u32 list" where
  "DOH_IPS =
     [ipv4 1 1 1 1, ipv4 1 0 0 1, ipv4 8 8 8 8, ipv4 8 8 4 4, ipv4 9 9 9 9, ipv4 149 112 112 112,
      ipv4 208 67 222 222, ipv4 208 67 220 220, ipv4 94 140 14 14, ipv4 94 140 15 15]"

abbreviation dot :: u8 where "dot \<equiv> 0x2E"

definition ends_with_dot :: "bytes \<Rightarrow> bool" where
  "ends_with_dot p \<longleftrightarrow> p \<noteq> [] \<and> last p = dot"

definition is_doh_domain :: "bytes \<Rightarrow> bool" where
  "is_doh_domain domain =
     (let d = to_ascii_lowercase (trim_end dot domain)
      in list_ex (\<lambda>doh. d = doh \<or>
           (case strip_suffix d doh of Some p \<Rightarrow> ends_with_dot p | None \<Rightarrow> False)) DOH_DOMAINS)"

definition is_doh_ip :: "u32 \<Rightarrow> bool" where
  "is_doh_ip ip \<longleftrightarrow> ip \<in> set DOH_IPS"

section \<open>Properties\<close>

text \<open>A name under a zone: the zone itself or a name whose last labels are those of the zone.\<close>

definition in_zone :: "bytes \<Rightarrow> bytes \<Rightarrow> bool" where
  "in_zone zone d \<longleftrightarrow> d = zone \<or> (\<exists>sub. d = sub @ [dot] @ zone)"

lemma to_ascii_lowercase_append:
  "to_ascii_lowercase (xs @ ys) = to_ascii_lowercase xs @ to_ascii_lowercase ys"
  by (simp add: to_ascii_lowercase_def)

lemma to_ascii_lowercase_dots [simp]: "to_ascii_lowercase (replicate n dot) = replicate n dot"
  by (simp add: to_ascii_lowercase_def)

lemma lowercase_dot_iff: "(if 0x41 \<le> b \<and> b \<le> 0x5A then b + 0x20 else b) = dot \<longleftrightarrow> b = (dot :: u8)"
proof -
  have "b + 0x20 = dot \<longleftrightarrow> b = dot - 0x20" by (rule eq_diff_eq [symmetric])
  then show ?thesis by auto
qed

lemma lowercase_last: "s \<noteq> [] \<Longrightarrow> last (to_ascii_lowercase s) = dot \<longleftrightarrow> last s = dot"
  using lowercase_dot_iff [of "last s"] by (simp add: to_ascii_lowercase_def last_map)

lemma doh_domains_end: "zone \<in> set DOH_DOMAINS \<Longrightarrow> zone \<noteq> [] \<and> last zone \<noteq> dot"
  by (auto simp: DOH_DOMAINS_def str_def)

lemma in_zone_last: "in_zone zone d \<Longrightarrow> zone \<noteq> [] \<and> last zone \<noteq> dot \<Longrightarrow> d \<noteq> [] \<and> last d \<noteq> dot"
  by (auto simp: in_zone_def)

lemma ends_with_dot_iff: "ends_with_dot p \<longleftrightarrow> (\<exists>sub. p = sub @ [dot])"
  by (cases p rule: rev_cases) (auto simp: ends_with_dot_def)

lemma doh_match_iff:
  "(d = zone \<or> (case strip_suffix d zone of Some p \<Rightarrow> ends_with_dot p | None \<Rightarrow> False)) \<longleftrightarrow> in_zone zone d"
proof -
  have "(case strip_suffix d zone of Some p \<Rightarrow> ends_with_dot p | None \<Rightarrow> False) \<longleftrightarrow>
      (\<exists>p. d = p @ zone \<and> ends_with_dot p)"
    by (cases "strip_suffix d zone") (auto simp: strip_suffix_Some_iff [symmetric])
  also have "\<dots> \<longleftrightarrow> (\<exists>sub. d = sub @ [dot] @ zone)"
    by (auto simp: ends_with_dot_iff)
  finally show ?thesis by (simp add: in_zone_def)
qed

text \<open>
  C38. A domain is recognised as a DoH server if and only if, read without regard to case and to
  trailing dots, it is one of the listed names or a proper subdomain of one on a label boundary. A
  name that merely ends in the same characters is not recognised, so no ordinary site is blocked.
\<close>

theorem is_doh_domain_iff:
  "is_doh_domain domain \<longleftrightarrow>
   (\<exists>zone\<in>set DOH_DOMAINS. \<exists>d n. in_zone zone d \<and> to_ascii_lowercase domain = d @ replicate n dot)"
proof -
  let ?d = "to_ascii_lowercase (trim_end dot domain)"
  obtain n where n: "domain = trim_end dot domain @ replicate n dot" using trim_end_decompose by blast
  then have l: "to_ascii_lowercase domain = ?d @ replicate n dot"
    by (metis to_ascii_lowercase_append to_ascii_lowercase_dots)
  have e: "?d = [] \<or> last ?d \<noteq> dot"
    using trim_end_last [of dot domain] lowercase_last [of "trim_end dot domain"]
    by (auto simp: to_ascii_lowercase_def)
  have "is_doh_domain domain \<longleftrightarrow> (\<exists>zone\<in>set DOH_DOMAINS. in_zone zone ?d)"
    by (simp add: is_doh_domain_def Let_def list_ex_iff doh_match_iff)
  moreover have "?d = d" if "zone \<in> set DOH_DOMAINS" "in_zone zone d"
    "to_ascii_lowercase domain = d @ replicate m dot" for zone d m
    using trim_end_replicate [of ?d dot n] trim_end_replicate [of d dot m] l e that
      in_zone_last [OF that(2) doh_domains_end [OF that(1)]] by simp
  ultimately show ?thesis using l by blast
qed

theorem is_doh_domain_iff_witness:
  "is_doh_domain (str ''Foo.DNS.google.'') \<and> \<not> is_doh_domain (str ''notdns.google'')"
proof
  have "in_zone (str ''dns.google'') (str ''foo.dns.google'')"
    by (auto simp: in_zone_def str_def intro!: exI [of _ "str ''foo''"])
  moreover have "to_ascii_lowercase (str ''Foo.DNS.google.'') = str ''foo.dns.google'' @ replicate 1 dot"
    by (simp add: to_ascii_lowercase_def str_def)
  moreover have "str ''dns.google'' \<in> set DOH_DOMAINS" by (simp add: DOH_DOMAINS_def)
  ultimately show "is_doh_domain (str ''Foo.DNS.google.'')" unfolding is_doh_domain_iff by blast
  show "\<not> is_doh_domain (str ''notdns.google'')" by code_simp
qed

end
