(* ===== verification/Transition.thy ===== *)
theory Transition
  imports Main
begin

text \<open>
  Labelled runs and invariants over their history. The state machines of the program are functions
  or relations \<open>step s l s'\<close>, where the label \<open>l\<close> is what the outside sees of a step; a property of
  a component is an invariant that may speak about all labels so far.
\<close>

inductive runs :: "('s \<Rightarrow> 'l \<Rightarrow> 's \<Rightarrow> bool) \<Rightarrow> 's \<Rightarrow> 'l list \<Rightarrow> 's \<Rightarrow> bool" for step s where
  runs_Nil: "runs step s [] s"
| runs_snoc: "runs step s ls s' \<Longrightarrow> step s' l s'' \<Longrightarrow> runs step s (ls @ [l]) s''"

inductive_cases runs_NilE: "runs step s [] s'"
inductive_cases runs_snocE: "runs step s (ls @ [l]) s''"

lemma runs_append: "runs step s ls s' \<Longrightarrow> runs step s' ms s'' \<Longrightarrow> runs step s (ls @ ms) s''"
  by (rotate_tac 1, induction rule: runs.induct) (auto simp flip: append_assoc intro: runs.intros)

lemma runs_single: "step s l s' \<Longrightarrow> runs step s [l] s'"
  using runs_snoc [OF runs_Nil] by fastforce

locale history_invariant =
  fixes start :: 's and step :: "'s \<Rightarrow> 'l \<Rightarrow> 's \<Rightarrow> bool" and inv :: "'l list \<Rightarrow> 's \<Rightarrow> bool"
  assumes start_inv: "inv [] start"
    and step_inv: "inv ls s \<Longrightarrow> step s l s' \<Longrightarrow> inv (ls @ [l]) s'"
begin

lemma inv_runs: "runs step start ls s \<Longrightarrow> inv ls s"
  by (induction rule: runs.induct) (auto intro: start_inv step_inv)

end

end
