(* ===== verification/Failover.thy ===== *)
theory Failover
  imports Shared Transition
begin

text \<open>
  The TUIC/REALITY failover of \<^verbatim>\<open>src/failover.rs\<close>: the blackhole detector, the shared state with its
  decision methods, the background health task and the upstream that chooses the leg of a TCP
  connection.

  Times are the seconds of the monotone clock the methods are given. The sequential definitions run
  each method as a whole; \<open>atomic_step\<close> splits the methods into their single atomic operations, so that
  the concurrent callers (every failed open runs in its own task) can interleave in between.
\<close>

section \<open>Definitions\<close>

definition DOWN_SLOW_CONSEC :: u32 where "DOWN_SLOW_CONSEC = 3"
definition UP_PROBE_CONSEC :: u32 where "UP_PROBE_CONSEC = 3"
definition UP_COOLDOWN_SECS :: nat where "UP_COOLDOWN_SECS = 60"
definition PROBE_INTERVAL_SECS :: nat where "PROBE_INTERVAL_SECS = 30"
definition HEALTH_TICK_SECS :: nat where "HEALTH_TICK_SECS = 3"
definition BLACKHOLE_RX_STALE_SECS :: nat where "BLACKHOLE_RX_STALE_SECS = 10"

lemmas failover_consts = DOWN_SLOW_CONSEC_def UP_PROBE_CONSEC_def UP_COOLDOWN_SECS_def
  PROBE_INTERVAL_SECS_def HEALTH_TICK_SECS_def BLACKHOLE_RX_STALE_SECS_def

record blackhole_detector =
  last_rx :: nat
  last_change_secs :: nat
  primed :: bool

definition detector_new :: blackhole_detector where
  "detector_new = \<lparr> last_rx = 0, last_change_secs = 0, primed = False \<rparr>"

definition observe :: "nat \<Rightarrow> nat \<Rightarrow> blackhole_detector \<Rightarrow> bool \<times> blackhole_detector" where
  "observe rx now d =
     (if \<not> primed d \<or> rx \<noteq> last_rx d
      then (False, d\<lparr> last_rx := rx, last_change_secs := now, primed := True \<rparr>)
      else (now - last_change_secs d \<ge> BLACKHOLE_RX_STALE_SECS, d))"

definition detector_reset :: "blackhole_detector \<Rightarrow> blackhole_detector" where
  "detector_reset d = d\<lparr> primed := False \<rparr>"

datatype tcp_leg = Tuic | Reality_leg

definition leg_as_u8 :: "tcp_leg \<Rightarrow> u8" where
  "leg_as_u8 l = (case l of Tuic \<Rightarrow> 0 | Reality_leg \<Rightarrow> 1)"

definition leg_from_u8 :: "u8 \<Rightarrow> tcp_leg" where
  "leg_from_u8 v = (if v = 1 then Reality_leg else Tuic)"

record failover_state =
  active_tcp_leg :: u8
  tuic_consec_fail :: u32
  probe_consec_ok :: u32
  reality_switch_at :: nat

definition failover_new :: failover_state where
  "failover_new = \<lparr> active_tcp_leg = leg_as_u8 Tuic, tuic_consec_fail = 0, probe_consec_ok = 0,
     reality_switch_at = 0 \<rparr>"

definition active_leg :: "failover_state \<Rightarrow> tcp_leg" where
  "active_leg s = leg_from_u8 (active_tcp_leg s)"

definition set_leg :: "tcp_leg \<Rightarrow> failover_state \<Rightarrow> failover_state" where
  "set_leg l s = s\<lparr> active_tcp_leg := leg_as_u8 l \<rparr>"

definition switch_to_reality :: "nat \<Rightarrow> failover_state \<Rightarrow> bool \<times> failover_state" where
  "switch_to_reality now s =
     (if active_tcp_leg s \<noteq> leg_as_u8 Tuic then (False, s)
      else (True, s\<lparr> active_tcp_leg := leg_as_u8 Reality_leg, reality_switch_at := now,
                     tuic_consec_fail := 0, probe_consec_ok := 0 \<rparr>))"

definition switch_to_tuic :: "failover_state \<Rightarrow> bool \<times> failover_state" where
  "switch_to_tuic s =
     (if active_tcp_leg s \<noteq> leg_as_u8 Reality_leg then (False, s)
      else (True, s\<lparr> active_tcp_leg := leg_as_u8 Tuic, tuic_consec_fail := 0, probe_consec_ok := 0 \<rparr>))"

definition record_tuic_success :: "failover_state \<Rightarrow> failover_state" where
  "record_tuic_success s = s\<lparr> tuic_consec_fail := 0 \<rparr>"

definition record_tuic_failure :: "bool \<Rightarrow> nat \<Rightarrow> failover_state \<Rightarrow> bool \<times> failover_state" where
  "record_tuic_failure dead now s =
     (if active_leg s \<noteq> Tuic then (False, s)
      else if dead then switch_to_reality now s
      else let n = tuic_consec_fail s + 1; s' = s\<lparr> tuic_consec_fail := n \<rparr>
           in if n \<ge> DOWN_SLOW_CONSEC then switch_to_reality now s' else (False, s'))"

definition record_probe :: "bool \<Rightarrow> nat \<Rightarrow> failover_state \<Rightarrow> bool \<times> failover_state" where
  "record_probe ok now s =
     (if active_leg s \<noteq> Reality_leg then (False, s)
      else if \<not> ok then (False, s\<lparr> probe_consec_ok := 0 \<rparr>)
      else let n = probe_consec_ok s + 1; s' = s\<lparr> probe_consec_ok := n \<rparr>;
               cooled = (now - reality_switch_at s' \<ge> UP_COOLDOWN_SECS)
           in if n \<ge> UP_PROBE_CONSEC \<and> cooled then switch_to_tuic s' else (False, s'))"

definition record_blackhole :: "nat \<Rightarrow> failover_state \<Rightarrow> bool \<times> failover_state" where
  "record_blackhole now s =
     (if active_leg s \<noteq> Tuic then (False, s) else switch_to_reality now s)"

text \<open>
  One round of the health task. \<open>rx\<close> is what \<open>rx_datagrams\<close> returns, \<open>ok\<close> what \<open>probe\<close> returns; the
  clock is read once for the detector and once for the decision.
\<close>

record health_task =
  h_state :: failover_state
  h_detector :: blackhole_detector
  h_since :: nat

record tick_input =
  t_obs :: nat
  t_rec :: nat
  t_rx :: "nat option"
  t_probe :: bool

definition health_tick :: "tick_input \<Rightarrow> health_task \<Rightarrow> health_task" where
  "health_tick i h =
     (case active_leg (h_state h) of
        Tuic \<Rightarrow>
          (let h1 = h\<lparr> h_since := 0 \<rparr> in
           case t_rx i of
             None \<Rightarrow> h1
           | Some rx \<Rightarrow>
               let (stalled, d) = observe rx (t_obs i) (h_detector h1); h2 = h1\<lparr> h_detector := d \<rparr>
               in if \<not> stalled then h2
                  else let (switched, s) = record_blackhole (t_rec i) (h_state h2);
                           h3 = h2\<lparr> h_state := s \<rparr>
                       in if switched then h3\<lparr> h_detector := detector_reset d \<rparr> else h3)
      | Reality_leg \<Rightarrow>
          (let h1 = h\<lparr> h_detector := detector_reset (h_detector h),
                       h_since := h_since h + HEALTH_TICK_SECS \<rparr>
           in if h_since h1 \<ge> PROBE_INTERVAL_SECS
              then h1\<lparr> h_since := 0,
                        h_state := snd (record_probe (t_probe i) (t_rec i) (h_state h1)) \<rparr>
              else h1))"

text \<open>
  Opening a TCP connection. The two upstreams are parameters: what their \<open>open_tcp\<close> returns, and
  whether the TUIC connection is dead when asked after a failure. The last component lists the legs
  that were tried.
\<close>

definition failover_open_tcp ::
  "(target_addr \<Rightarrow> 'r result) \<Rightarrow> (target_addr \<Rightarrow> 'r result) \<Rightarrow> bool \<Rightarrow> nat \<Rightarrow> target_addr \<Rightarrow>
   failover_state \<Rightarrow> 'r result \<times> failover_state \<times> tcp_leg list" where
  "failover_open_tcp tuic_open reality_open is_dead now target s =
     (case active_leg s of
        Tuic \<Rightarrow>
          (case tuic_open target of
             Inr stream \<Rightarrow> (Inr stream, record_tuic_success s, [Tuic])
           | Inl e \<Rightarrow>
               (let (switched, s') = record_tuic_failure is_dead now s
                in if switched then (reality_open target, s', [Tuic, Reality_leg])
                   else (Inl e, s', [Tuic])))
      | Reality_leg \<Rightarrow> (reality_open target, s, [Reality_leg]))"

definition failover_open_is_cheap :: "failover_state \<Rightarrow> bool" where
  "failover_open_is_cheap s = False"

definition failover_leg_u8 :: "failover_state \<Rightarrow> u8" where
  "failover_leg_u8 s = leg_as_u8 (active_leg s)"

text \<open>UDP is bound to the TUIC leg: its \<open>send_udp\<close> is called whatever the state is.\<close>

definition failover_send_udp :: "(bytes \<Rightarrow> 'u \<Rightarrow> 'u) \<Rightarrow> bytes \<Rightarrow> failover_state \<times> 'u \<Rightarrow> failover_state \<times> 'u" where
  "failover_send_udp tuic_send_udp datagram fu = (fst fu, tuic_send_udp datagram (snd fu))"

section \<open>Calls and their history\<close>

text \<open>The calls the program makes on the shared state, and what they return.\<close>

datatype failover_call =
    OpenOk
  | OpenFail bool nat
  | ProbeDone bool nat
  | Blackhole nat

fun apply_call :: "failover_call \<Rightarrow> failover_state \<Rightarrow> bool \<times> failover_state" where
  "apply_call OpenOk s = (False, record_tuic_success s)"
| "apply_call (OpenFail dead now) s = record_tuic_failure dead now s"
| "apply_call (ProbeDone ok now) s = record_probe ok now s"
| "apply_call (Blackhole now) s = record_blackhole now s"

definition call_step :: "failover_state \<Rightarrow> failover_call \<times> bool \<Rightarrow> failover_state \<Rightarrow> bool" where
  "call_step s l s' \<longleftrightarrow> apply_call (fst l) s = (snd l, s')"

text \<open>The calls since the last switch of leg, latest first, and the call that switched.\<close>

definition since_switch :: "(failover_call \<times> bool) list \<Rightarrow> failover_call list" where
  "since_switch ls = map fst (takeWhile (Not \<circ> snd) (rev ls))"

definition last_switch :: "(failover_call \<times> bool) list \<Rightarrow> failover_call option" where
  "last_switch ls = map_option fst (find snd (rev ls))"

fun is_open :: "failover_call \<Rightarrow> bool" where
  "is_open OpenOk = True" | "is_open (OpenFail _ _) = True" | "is_open _ = False"

fun is_open_fail :: "failover_call \<Rightarrow> bool" where
  "is_open_fail (OpenFail _ _) = True" | "is_open_fail _ = False"

fun is_probe :: "failover_call \<Rightarrow> bool" where
  "is_probe (ProbeDone _ _) = True" | "is_probe _ = False"

fun is_probe_ok :: "failover_call \<Rightarrow> bool" where
  "is_probe_ok (ProbeDone ok _) = ok" | "is_probe_ok _ = False"

fun down_time :: "failover_call \<Rightarrow> nat option" where
  "down_time (OpenFail _ t) = Some t" | "down_time (Blackhole t) = Some t" | "down_time _ = None"

text \<open>How many opens in a row have failed, and how many probes in a row succeeded, since the switch.\<close>

definition fails_in_row :: "(failover_call \<times> bool) list \<Rightarrow> nat" where
  "fails_in_row ls = length (takeWhile is_open_fail (filter is_open (since_switch ls)))"

definition oks_in_row :: "(failover_call \<times> bool) list \<Rightarrow> nat" where
  "oks_in_row ls = length (takeWhile is_probe_ok (filter is_probe (since_switch ls)))"

lemma since_switch_snoc [simp]:
  "since_switch (ls @ [(c, r)]) = (if r then [] else c # since_switch ls)"
  by (simp add: since_switch_def)

lemma last_switch_snoc [simp]:
  "last_switch (ls @ [(c, r)]) = (if r then Some c else last_switch ls)"
  by (simp add: last_switch_def)

lemma since_switch_Nil [simp]: "since_switch [] = []" "last_switch [] = None"
  by (simp_all add: since_switch_def last_switch_def)

lemma in_row_snoc [simp]:
  "fails_in_row (ls @ [(c, r)]) =
     (if r then 0 else if is_open_fail c then Suc (fails_in_row ls) else if is_open c then 0
      else fails_in_row ls)"
  "oks_in_row (ls @ [(c, r)]) =
     (if r then 0 else if is_probe_ok c then Suc (oks_in_row ls) else if is_probe c then 0
      else oks_in_row ls)"
  by (cases c; simp add: fails_in_row_def oks_in_row_def)+

lemma in_row_Nil [simp]: "fails_in_row [] = 0" "oks_in_row [] = 0"
  by (simp_all add: fails_in_row_def oks_in_row_def)

text \<open>What the counters and the switch time mean in terms of the history.\<close>

definition history_inv :: "(failover_call \<times> bool) list \<Rightarrow> failover_state \<Rightarrow> bool" where
  "history_inv ls s \<longleftrightarrow>
     (active_tcp_leg s = 0 \<or> active_tcp_leg s = 1) \<and>
     (active_leg s = Tuic \<longrightarrow> tuic_consec_fail s = of_nat (fails_in_row ls) \<and> fails_in_row ls < 3) \<and>
     (active_leg s = Reality_leg \<longrightarrow> probe_consec_ok s = of_nat (oks_in_row ls) \<and>
        (\<exists>c. last_switch ls = Some c \<and> down_time c = Some (reality_switch_at s)))"

lemma leg_simps [simp]:
  "leg_from_u8 0 = Tuic" "leg_from_u8 1 = Reality_leg" "leg_as_u8 Tuic = 0" "leg_as_u8 Reality_leg = 1"
  by (simp_all add: leg_from_u8_def leg_as_u8_def)

text \<open>A counter below the threshold 3, as a word.\<close>

lemma threshold_u32: "Suc n < 2 ^ 32 \<Longrightarrow> (3 :: u32) \<le> of_nat n + 1 \<longleftrightarrow> 2 \<le> n"
proof -
  assume "Suc n < 2 ^ 32"
  then have "unat (of_nat (Suc n) :: u32) = Suc n" by (intro unat_of_nat_small) simp
  then have "unat (of_nat n + 1 :: u32) = Suc n" by (simp add: add.commute)
  then show ?thesis by (simp add: word_le_nat_alt)
qed

lemmas record_defs = record_tuic_success_def record_tuic_failure_def record_probe_def
  record_blackhole_def switch_to_reality_def switch_to_tuic_def

lemma history_inv_step:
  assumes "history_inv ls s" "call_step s (c, r) s'"
  shows "history_inv (ls @ [(c, r)]) s'"
proof (cases c)
  case OpenOk
  with assms show ?thesis
    by (auto simp: call_step_def history_inv_def record_defs active_leg_def)
next
  case (OpenFail dead now)
  with assms threshold_u32 [of "fails_in_row ls"] show ?thesis
    by (auto simp: call_step_def history_inv_def record_defs active_leg_def
        Let_def failover_consts not_le split: if_splits)
next
  case (ProbeDone ok now)
  with assms show ?thesis
    by (auto simp: call_step_def history_inv_def record_defs active_leg_def
        Let_def failover_consts not_le split: if_splits)
next
  case (Blackhole now)
  with assms show ?thesis
    by (auto simp: call_step_def history_inv_def record_defs active_leg_def
        split: if_splits)
qed

interpretation failover_history: history_invariant failover_new call_step history_inv
proof
  show "history_inv [] failover_new"
    by (simp add: history_inv_def failover_new_def active_leg_def)
next
  fix ls s l s' assume "history_inv ls s" "call_step s l s'"
  then show "history_inv (ls @ [l]) s'" by (cases l) (simp add: history_inv_step)
qed

section \<open>Properties of the decisions\<close>

text \<open>
  C20. Hysteresis on the way up: whatever calls were made before, a probe result sends TCP back to
  TUIC if and only if REALITY is on duty, the probe succeeded, it is at least the third success in a
  row since the switch, and at least 60 seconds have passed since the call that switched to REALITY.
\<close>

theorem up_hysteresis:
  assumes "runs call_step failover_new ls s" "Suc (oks_in_row ls) < 2 ^ 32"
  shows "fst (record_probe ok now s) \<longleftrightarrow>
    ok \<and> active_leg s = Reality_leg \<and> 2 \<le> oks_in_row ls \<and>
    (\<exists>c t. last_switch ls = Some c \<and> down_time c = Some t \<and> 60 \<le> now - t)"
proof -
  have inv: "history_inv ls s" by (rule failover_history.inv_runs [OF assms(1)])
  show ?thesis
  proof (cases "active_leg s = Reality_leg")
    case True
    with inv have "active_tcp_leg s = 1" "probe_consec_ok s = of_nat (oks_in_row ls)"
      by (auto simp: history_inv_def active_leg_def)
    with True inv threshold_u32 [OF assms(2)] show ?thesis
      by (auto simp: history_inv_def record_probe_def switch_to_tuic_def Let_def failover_consts)
  next
    case False
    then show ?thesis by (simp add: record_probe_def)
  qed
qed

text \<open>A run for the witnesses: a blackhole at second 5, then a probe every 30 seconds.\<close>

lemma example_run:
  "runs call_step failover_new
     [(Blackhole 5, True), (ProbeDone True 35, False), (ProbeDone True 65, False)]
     \<lparr> active_tcp_leg = 1, tuic_consec_fail = 0, probe_consec_ok = 2, reality_switch_at = 5 \<rparr>"
proof -
  have "runs call_step failover_new [(Blackhole 5, True)]
      \<lparr> active_tcp_leg = 1, tuic_consec_fail = 0, probe_consec_ok = 0, reality_switch_at = 5 \<rparr>"
    by (rule runs_single) (simp add: call_step_def record_defs failover_new_def active_leg_def)
  from runs_snoc [OF this, of "(ProbeDone True 35, False)"]
  have "runs call_step failover_new [(Blackhole 5, True), (ProbeDone True 35, False)]
      \<lparr> active_tcp_leg = 1, tuic_consec_fail = 0, probe_consec_ok = 1, reality_switch_at = 5 \<rparr>"
    by (simp add: call_step_def record_defs active_leg_def failover_consts Let_def)
  from runs_snoc [OF this, of "(ProbeDone True 65, False)"]
  show ?thesis by (simp add: call_step_def record_defs active_leg_def failover_consts Let_def)
qed

theorem up_hysteresis_witness:
  "fst (record_probe True 95
     \<lparr> active_tcp_leg = 1, tuic_consec_fail = 0, probe_consec_ok = 2, reality_switch_at = 5 \<rparr>) \<and>
   \<not> fst (record_probe True 64
     \<lparr> active_tcp_leg = 1, tuic_consec_fail = 0, probe_consec_ok = 2, reality_switch_at = 5 \<rparr>)"
  using up_hysteresis [OF example_run, of True 95] up_hysteresis [OF example_run, of True 64]
  by (simp add: oks_in_row_def since_switch_def last_switch_def active_leg_def)

text \<open>
  C21. Asymmetry on the way down: whatever calls were made before, a failed open moves TCP to REALITY
  if and only if TUIC is on duty and either its connection is dead, or this is at least the third
  failed open in a row since the last success and since the last switch of leg.
\<close>

theorem down_asymmetry:
  assumes "runs call_step failover_new ls s"
  shows "fst (record_tuic_failure dead now s) \<longleftrightarrow>
    active_leg s = Tuic \<and> (dead \<or> 2 \<le> fails_in_row ls)"
proof -
  have inv: "history_inv ls s" by (rule failover_history.inv_runs [OF assms])
  show ?thesis
  proof (cases "active_leg s = Tuic")
    case True
    with inv have "active_tcp_leg s = 0" "tuic_consec_fail s = of_nat (fails_in_row ls)"
      "fails_in_row ls < 3"
      by (auto simp: history_inv_def active_leg_def)
    with True threshold_u32 [of "fails_in_row ls"] show ?thesis
      by (simp add: record_tuic_failure_def switch_to_reality_def Let_def failover_consts)
  next
    case False
    then show ?thesis by (simp add: record_tuic_failure_def)
  qed
qed

theorem down_asymmetry_witness:
  "\<not> fst (record_tuic_failure False 8 failover_new) \<and> fst (record_tuic_failure True 8 failover_new)"
  using down_asymmetry [OF runs_Nil, of False 8] down_asymmetry [OF runs_Nil, of True 8]
  by (simp add: failover_new_def active_leg_def)



section \<open>The health task\<close>

text \<open>
  A round of the health task together with the opens that other tasks have recorded since the round
  before.
\<close>

type_synonym round_input = "failover_call list \<times> tick_input"

definition apply_calls :: "failover_call list \<Rightarrow> failover_state \<Rightarrow> failover_state" where
  "apply_calls cs s = fold (\<lambda>c s. snd (apply_call c s)) cs s"

definition health_round :: "round_input \<Rightarrow> health_task \<Rightarrow> health_task" where
  "health_round r h = health_tick (snd r) (h\<lparr> h_state := apply_calls (fst r) (h_state h) \<rparr>)"

fun health_rounds :: "nat \<Rightarrow> (nat \<Rightarrow> round_input) \<Rightarrow> health_task \<Rightarrow> health_task" where
  "health_rounds 0 ins h = h"
| "health_rounds (Suc k) ins h = health_round (ins k) (health_rounds k ins h)"

lemma open_call_on_reality:
  "is_open c \<Longrightarrow> active_leg s = Reality_leg \<Longrightarrow>
   active_tcp_leg (snd (apply_call c s)) = active_tcp_leg s \<and>
   probe_consec_ok (snd (apply_call c s)) = probe_consec_ok s \<and>
   reality_switch_at (snd (apply_call c s)) = reality_switch_at s"
  by (cases c) (auto simp: record_tuic_success_def record_tuic_failure_def)

lemma apply_calls_on_reality:
  "list_all is_open cs \<Longrightarrow> active_leg s = Reality_leg \<Longrightarrow>
   active_tcp_leg (apply_calls cs s) = active_tcp_leg s \<and>
   probe_consec_ok (apply_calls cs s) = probe_consec_ok s \<and>
   reality_switch_at (apply_calls cs s) = reality_switch_at s"
proof (induction cs arbitrary: s)
  case (Cons c cs)
  then have "active_leg (snd (apply_call c s)) = Reality_leg"
    using open_call_on_reality [of c s] by (simp add: active_leg_def)
  with Cons open_call_on_reality [of c s] show ?case by (auto simp: apply_calls_def)
qed (simp add: apply_calls_def)

text \<open>One round on REALITY with a successful probe: it counts three seconds, or it probes.\<close>

lemma health_round_reality:
  assumes "active_leg (h_state h) = Reality_leg" "active_tcp_leg (h_state h) = 1"
    "list_all is_open (fst r)" "t_probe (snd r)"
  shows "if h_since h + 3 < 30
    then h_since (health_round r h) = h_since h + 3 \<and>
      active_tcp_leg (h_state (health_round r h)) = 1 \<and>
      probe_consec_ok (h_state (health_round r h)) = probe_consec_ok (h_state h) \<and>
      reality_switch_at (h_state (health_round r h)) = reality_switch_at (h_state h)
    else h_since (health_round r h) = 0 \<and>
      (if 3 \<le> probe_consec_ok (h_state h) + 1 \<and> 60 \<le> t_rec (snd r) - reality_switch_at (h_state h)
       then active_tcp_leg (h_state (health_round r h)) = 0
       else active_tcp_leg (h_state (health_round r h)) = 1 \<and>
         probe_consec_ok (h_state (health_round r h)) = probe_consec_ok (h_state h) + 1 \<and>
         reality_switch_at (h_state (health_round r h)) = reality_switch_at (h_state h))"
proof -
  have "active_leg (apply_calls (fst r) (h_state h)) = Reality_leg"
    using apply_calls_on_reality [OF assms(3,1)] assms(2) by (simp add: active_leg_def)
  then show ?thesis
    using assms apply_calls_on_reality [OF assms(3,1)]
    by (auto simp: health_round_def health_tick_def Let_def failover_consts record_probe_def switch_to_tuic_def)
qed

text \<open>While REALITY is on duty, time and successful probes add up.\<close>

lemma recovery_progress:
  assumes "active_tcp_leg (h_state h) = 1" "h_since h < 30" "3 dvd h_since h"
    "unat (probe_consec_ok (h_state h)) < 2 ^ 32 - 3"
    "\<And>i. list_all is_open (fst (ins i)) \<and> t_probe (snd (ins i)) \<and>
       reality_switch_at (h_state h) + 3 * (i + 1) \<le> t_rec (snd (ins i))"
    "\<And>j. j \<le> k \<Longrightarrow> active_tcp_leg (h_state (health_rounds j ins h)) \<noteq> 0"
  shows "\<exists>d\<le>2. h_since (health_rounds k ins h) + 30 * d = h_since h + 3 * k \<and>
    active_tcp_leg (h_state (health_rounds k ins h)) = 1 \<and>
    unat (probe_consec_ok (h_state (health_rounds k ins h))) = unat (probe_consec_ok (h_state h)) + d \<and>
    reality_switch_at (h_state (health_rounds k ins h)) = reality_switch_at (h_state h) \<and>
    h_since (health_rounds k ins h) < 30"
  using assms(6)
proof (induction k)
  case 0
  then show ?case using assms(1,2) by (intro exI [of _ 0]) simp
next
  case (Suc k)
  let ?g = "health_rounds k ins h" and ?r = "ins k"
  from Suc obtain d where d: "d \<le> 2" "h_since ?g + 30 * d = h_since h + 3 * k"
    "active_tcp_leg (h_state ?g) = 1"
    "unat (probe_consec_ok (h_state ?g)) = unat (probe_consec_ok (h_state h)) + d"
    "reality_switch_at (h_state ?g) = reality_switch_at (h_state h)" "h_since ?g < 30" by auto
  note step = health_round_reality [of ?g ?r, unfolded active_leg_def d(3) leg_simps, OF refl refl]
  have stay: "active_tcp_leg (h_state (health_round ?r ?g)) \<noteq> 0" using Suc.prems [of "Suc k"] by simp
  show ?case
  proof (cases "h_since ?g + 3 < 30")
    case True
    with step assms(5) [of k] d show ?thesis by (intro exI [of _ d]) simp
  next
    case False
    have u: "unat (probe_consec_ok (h_state ?g) + 1) = unat (probe_consec_ok (h_state ?g)) + 1"
      using d(1,4) assms(4) by (subst unat_add_lem [THEN iffD1]) simp_all
    have "\<not> (3 \<le> probe_consec_ok (h_state ?g) + 1 \<and> 60 \<le> t_rec (snd ?r) - reality_switch_at (h_state ?g))"
      using False step assms(5) [of k] stay by auto
    moreover have "60 \<le> t_rec (snd ?r) - reality_switch_at (h_state ?g) \<and>
        3 \<le> probe_consec_ok (h_state ?g) + 1" if "d = 2"
      using that d False assms(2) assms(5) [of k] u by (auto simp: word_le_nat_alt)
    ultimately have "d \<le> 1" using d(1) by (cases "d = 2") auto
    moreover have "h_since ?g = 27"
    proof -
      have "3 dvd h_since ?g"
        using d(2) assms(3) by presburger
      then show ?thesis using False d(6) by presburger
    qed
    ultimately show ?thesis
      using step assms(5) [of k] d stay u False by (intro exI [of _ "Suc d"]) (auto split: if_splits)
  qed
qed

text \<open>
  C23. Recovery is live: if REALITY is on duty and from now on every TUIC probe succeeds, then within
  30 rounds of the health task (90 seconds at its 3-second tick) TCP is back on TUIC, whatever opens
  other tasks record in between.
\<close>

theorem recovery_liveness:
  assumes "active_tcp_leg (h_state h) = 1" "h_since h < 30" "3 dvd h_since h"
    "unat (probe_consec_ok (h_state h)) < 2 ^ 32 - 3"
    "\<And>i. list_all is_open (fst (ins i)) \<and> t_probe (snd (ins i)) \<and>
       reality_switch_at (h_state h) + 3 * (i + 1) \<le> t_rec (snd (ins i))"
  shows "\<exists>k\<le>30. active_leg (h_state (health_rounds k ins h)) = Tuic"
proof (rule ccontr)
  assume "\<not> ?thesis"
  then have "active_tcp_leg (h_state (health_rounds j ins h)) \<noteq> 0" if "j \<le> 30" for j
    using that by (force simp: active_leg_def)
  with recovery_progress [OF assms, of 30] obtain d where "d \<le> 2"
    "h_since (health_rounds 30 ins h) + 30 * d = h_since h + 90" "h_since (health_rounds 30 ins h) < 30"
    by auto
  then show False by linarith
qed

definition health_new :: health_task where
  "health_new = \<lparr> h_state = failover_new, h_detector = detector_new, h_since = 0 \<rparr>"

theorem recovery_liveness_witness:
  "\<exists>k\<le>30. active_leg (h_state (health_rounds k
      (\<lambda>i. ([OpenFail True 9], \<lparr> t_obs = 8 + 3 * i, t_rec = 8 + 3 * i, t_rx = None, t_probe = True \<rparr>))
      (health_new\<lparr> h_state := snd (record_blackhole 5 failover_new) \<rparr>))) = Tuic"
  by (rule recovery_liveness)
    (simp_all add: health_new_def failover_new_def record_defs active_leg_def)

lemma open_call_on_tuic:
  assumes "is_open c" "active_tcp_leg s = 0"
  shows "active_tcp_leg (snd (apply_call c s)) = 0 \<or>
    active_tcp_leg (snd (apply_call c s)) = 1 \<and> probe_consec_ok (snd (apply_call c s)) = 0"
  using assms by (cases c) (auto simp: record_defs Let_def active_leg_def)

lemma apply_calls_on_tuic:
  "list_all is_open cs \<Longrightarrow> active_tcp_leg s = 0 \<Longrightarrow>
   active_tcp_leg (apply_calls cs s) = 0 \<or>
   active_tcp_leg (apply_calls cs s) = 1 \<and> probe_consec_ok (apply_calls cs s) = 0"
proof (induction cs arbitrary: s)
  case (Cons c cs)
  let ?t = "snd (apply_call c s)"
  have e: "apply_calls (c # cs) s = apply_calls cs ?t" by (simp add: apply_calls_def)
  from open_call_on_tuic [of c s] Cons.prems
  consider "active_tcp_leg ?t = 0" | "active_tcp_leg ?t = 1" "probe_consec_ok ?t = 0" by auto
  then show ?case
  proof cases
    case 1
    with Cons e show ?thesis by simp
  next
    case 2
    with Cons.prems e apply_calls_on_reality [of cs ?t] show ?thesis by (simp add: active_leg_def)
  qed
qed (simp add: apply_calls_def)

text \<open>One round on TUIC: it ends on REALITY, or the detector has watched and is not yet due.\<close>

lemma health_round_tuic:
  assumes "active_tcp_leg (h_state h) = 0" "list_all is_open (fst r)" "t_rx (snd r) = Some rx"
  shows "active_leg (h_state (health_round r h)) = Reality_leg \<or>
    active_tcp_leg (h_state (health_round r h)) = 0 \<and>
    h_detector (health_round r h) = snd (observe rx (t_obs (snd r)) (h_detector h)) \<and>
    \<not> fst (observe rx (t_obs (snd r)) (h_detector h))"
proof -
  let ?s = "apply_calls (fst r) (h_state h)"
  from apply_calls_on_tuic [OF assms(2,1)]
  consider "active_tcp_leg ?s = 0" | "active_tcp_leg ?s = 1" "probe_consec_ok ?s = 0" by blast
  then show ?thesis
  proof cases
    case 1
    with assms(3) show ?thesis
      by (auto simp: health_round_def health_tick_def Let_def active_leg_def record_blackhole_def
          switch_to_reality_def split: prod.splits)
  next
    case 2
    have "\<not> (3 :: u32) \<le> 1" by (simp add: word_le_nat_alt)
    with 2 show ?thesis
      by (auto simp: health_round_def health_tick_def Let_def active_leg_def record_probe_def failover_consts)
  qed
qed

text \<open>
  C24. Detection is live: if TUIC is on duty and its receive counter stands still, then within five
  rounds of the health task (12 seconds after the first look) TCP is on REALITY, even if opens keep
  succeeding optimistically on the dead path.
\<close>

theorem blackhole_liveness:
  assumes "active_tcp_leg (h_state h) = 0" "last_change_secs (h_detector h) \<le> t_obs (snd (ins 0))"
    "\<And>i. list_all is_open (fst (ins i)) \<and> t_rx (snd (ins i)) = Some rx \<and>
       t_obs (snd (ins 0)) + 3 * i \<le> t_obs (snd (ins i))"
  shows "\<exists>k\<le>5. active_leg (h_state (health_rounds k ins h)) = Reality_leg"
proof (rule ccontr)
  assume n: "\<not> ?thesis"
  have "k < 5 \<Longrightarrow> active_tcp_leg (h_state (health_rounds (Suc k) ins h)) = 0 \<and>
    primed (h_detector (health_rounds (Suc k) ins h)) \<and>
    last_rx (h_detector (health_rounds (Suc k) ins h)) = rx \<and>
    last_change_secs (h_detector (health_rounds (Suc k) ins h)) \<le> t_obs (snd (ins 0)) \<and>
    (k = 4 \<longrightarrow> False)" for k
  proof (induction k)
    case 0
    have "active_leg (h_state (health_rounds 1 ins h)) \<noteq> Reality_leg" using n one_le_numeral by blast
    with health_round_tuic [OF assms(1), of "ins 0" rx] assms(2) assms(3) [of 0] show ?case
      by (auto simp: observe_def split: if_splits)
  next
    case (Suc k)
    let ?g = "health_rounds (Suc k) ins h"
    have "active_leg (h_state (health_rounds (Suc (Suc k)) ins h)) \<noteq> Reality_leg"
      using n Suc_leI [OF Suc.prems] by blast
    with Suc health_round_tuic [of ?g "ins (Suc k)" rx] assms(3) [of "Suc k"] show ?case
      by (auto simp: observe_def failover_consts)
  qed
  from this [of 4] show False by simp
qed

theorem blackhole_liveness_witness:
  "\<exists>k\<le>5. active_leg (h_state (health_rounds k
      (\<lambda>i. ([OpenOk], \<lparr> t_obs = 3 * i, t_rec = 3 * i, t_rx = Some 77, t_probe = False \<rparr>))
      health_new)) = Reality_leg"
  by (rule blackhole_liveness [where rx = 77])
    (simp_all add: health_new_def failover_new_def detector_new_def)

section \<open>Interleaved callers\<close>

text \<open>
  The methods split into their atomic operations. A program counter says which operation a task
  performs next; \<open>Done b\<close> has returned \<open>b\<close>. The label of a step says whether it was a
  \<open>compare_exchange\<close> that moved the leg. Every operation is atomic on its own variable; the
  interleaving is sequentially consistent.
\<close>

datatype fo_pc =
    FailLoad bool nat        \<comment> \<open>record_tuic_failure: load the leg\<close>
  | FailAdd nat              \<comment> \<open>fetch_add on the failure count\<close>
  | HoleLoad nat             \<comment> \<open>record_blackhole: load the leg\<close>
  | RealityCas nat           \<comment> \<open>switch_to_reality\<close>
  | RealityAt nat | RealityFail | RealityOk
  | ProbeLoad bool nat       \<comment> \<open>record_probe: load the leg\<close>
  | ProbeZero | ProbeAdd nat | ProbeCool u32 nat
  | TuicCas                  \<comment> \<open>switch_to_tuic\<close>
  | TuicFail | TuicOk
  | SuccessStore             \<comment> \<open>record_tuic_success\<close>
  | Done bool

fun atomic_step :: "fo_pc \<Rightarrow> failover_state \<Rightarrow> tcp_leg option \<times> failover_state \<times> fo_pc" where
  "atomic_step (FailLoad dead now) s =
     (None, s, if active_leg s \<noteq> Tuic then Done False
               else if dead then RealityCas now else FailAdd now)"
| "atomic_step (FailAdd now) s =
     (None, s\<lparr> tuic_consec_fail := tuic_consec_fail s + 1 \<rparr>,
      if tuic_consec_fail s + 1 \<ge> DOWN_SLOW_CONSEC then RealityCas now else Done False)"
| "atomic_step (HoleLoad now) s =
     (None, s, if active_leg s \<noteq> Tuic then Done False else RealityCas now)"
| "atomic_step (RealityCas now) s =
     (if active_tcp_leg s = leg_as_u8 Tuic
      then (Some Reality_leg, s\<lparr> active_tcp_leg := leg_as_u8 Reality_leg \<rparr>, RealityAt now)
      else (None, s, Done False))"
| "atomic_step (RealityAt now) s = (None, s\<lparr> reality_switch_at := now \<rparr>, RealityFail)"
| "atomic_step RealityFail s = (None, s\<lparr> tuic_consec_fail := 0 \<rparr>, RealityOk)"
| "atomic_step RealityOk s = (None, s\<lparr> probe_consec_ok := 0 \<rparr>, Done True)"
| "atomic_step (ProbeLoad ok now) s =
     (None, s, if active_leg s \<noteq> Reality_leg then Done False
               else if \<not> ok then ProbeZero else ProbeAdd now)"
| "atomic_step ProbeZero s = (None, s\<lparr> probe_consec_ok := 0 \<rparr>, Done False)"
| "atomic_step (ProbeAdd now) s =
     (None, s\<lparr> probe_consec_ok := probe_consec_ok s + 1 \<rparr>, ProbeCool (probe_consec_ok s + 1) now)"
| "atomic_step (ProbeCool n now) s =
     (None, s, if n \<ge> UP_PROBE_CONSEC \<and> now - reality_switch_at s \<ge> UP_COOLDOWN_SECS
               then TuicCas else Done False)"
| "atomic_step TuicCas s =
     (if active_tcp_leg s = leg_as_u8 Reality_leg
      then (Some Tuic, s\<lparr> active_tcp_leg := leg_as_u8 Tuic \<rparr>, TuicFail)
      else (None, s, Done False))"
| "atomic_step TuicFail s = (None, s\<lparr> tuic_consec_fail := 0 \<rparr>, TuicOk)"
| "atomic_step TuicOk s = (None, s\<lparr> probe_consec_ok := 0 \<rparr>, Done True)"
| "atomic_step SuccessStore s = (None, s\<lparr> tuic_consec_fail := 0 \<rparr>, Done False)"
| "atomic_step (Done b) s = (None, s, Done b)"

fun entry :: "failover_call \<Rightarrow> fo_pc" where
  "entry OpenOk = SuccessStore"
| "entry (OpenFail dead now) = FailLoad dead now"
| "entry (ProbeDone ok now) = ProbeLoad ok now"
| "entry (Blackhole now) = HoleLoad now"

text \<open>A task that runs alone, for a given number of operations.\<close>

fun run_alone :: "nat \<Rightarrow> fo_pc \<Rightarrow> failover_state \<Rightarrow> failover_state \<times> fo_pc" where
  "run_alone 0 pc s = (s, pc)"
| "run_alone (Suc n) pc s = (let (_, s', pc') = atomic_step pc s in run_alone n pc' s')"

text \<open>Any number of tasks: one that starts a call, or one that performs its next operation.\<close>

inductive tasks_step ::
  "failover_state \<times> fo_pc list \<Rightarrow> tcp_leg option \<Rightarrow> failover_state \<times> fo_pc list \<Rightarrow> bool" where
  task_start: "tasks_step (s, pcs) None (s, pcs @ [entry c])"
| task_run: "i < length pcs \<Longrightarrow> atomic_step (pcs ! i) s = (l, s', pc') \<Longrightarrow>
    tasks_step (s, pcs) l (s', pcs[i := pc'])"

text \<open>
  The split into atomic operations is the sequential method: a task that is not interrupted
  leaves after six operations at the latest exactly the state, and returns exactly the result, of the
  method it called.
\<close>

lemma run_alone_is_method:
  assumes "active_tcp_leg s = 0 \<or> active_tcp_leg s = 1"
  shows "run_alone 6 (entry c) s = (snd (apply_call c s), Done (fst (apply_call c s)))"
  using assms
  by (cases c) (auto simp: numeral_eq_Suc record_defs Let_def active_leg_def)

text \<open>The successful switches of a run, in order, and the tasks that have performed one.\<close>

definition moves :: "tcp_leg option list \<Rightarrow> tcp_leg list" where
  "moves ls = map the (filter (\<lambda>l. l \<noteq> None) ls)"

fun winner :: "fo_pc \<Rightarrow> bool" where
  "winner (RealityAt _) = True" | "winner RealityFail = True" | "winner RealityOk = True"
| "winner TuicFail = True" | "winner TuicOk = True" | "winner (Done b) = b"
| "winner _ = False"

definition winners :: "fo_pc list \<Rightarrow> nat" where
  "winners pcs = (\<Sum>pc\<leftarrow>pcs. if winner pc then 1 else 0)"

definition alternating :: "tcp_leg list \<Rightarrow> bool" where
  "alternating ms \<longleftrightarrow> (\<forall>i<length ms. ms ! i = (if even i then Reality_leg else Tuic))"

definition tasks_inv :: "tcp_leg option list \<Rightarrow> failover_state \<times> fo_pc list \<Rightarrow> bool" where
  "tasks_inv ls c \<longleftrightarrow> alternating (moves ls) \<and>
     active_tcp_leg (fst c) = (if even (length (moves ls)) then 0 else 1) \<and>
     winners (snd c) = length (moves ls)"

lemma moves_snoc [simp]: "moves (ls @ [l]) = moves ls @ (case l of None \<Rightarrow> [] | Some m \<Rightarrow> [m])"
  by (cases l) (simp_all add: moves_def)

lemma winners_update:
  "i < length pcs \<Longrightarrow> winners (pcs[i := pc]) + (if winner (pcs ! i) then 1 else 0) =
    winners pcs + (if winner pc then 1 else 0)"
proof (induction pcs arbitrary: i)
  case (Cons x pcs)
  show ?case
  proof (cases i)
    case (Suc j)
    with Cons.IH [of j] Cons.prems show ?thesis by (simp add: winners_def)
  qed (simp add: winners_def)
qed simp

lemma atomic_step_move:
  assumes "atomic_step pc s = (l, s', pc')"
  shows "case l of
      None \<Rightarrow> active_tcp_leg s' = active_tcp_leg s \<and> winner pc' = winner pc
    | Some Reality_leg \<Rightarrow> active_tcp_leg s = 0 \<and> active_tcp_leg s' = 1 \<and> \<not> winner pc \<and> winner pc'
    | Some Tuic \<Rightarrow> active_tcp_leg s = 1 \<and> active_tcp_leg s' = 0 \<and> \<not> winner pc \<and> winner pc'"
  using assms by (cases pc) (auto split: if_splits)

lemma tasks_inv_step:
  assumes "tasks_inv ls c" "tasks_step c l c'"
  shows "tasks_inv (ls @ [l]) c'"
  using assms(2)
proof cases
  case (task_start s pcs call)
  have "\<not> winner (entry call)" by (cases call) auto
  with task_start assms(1) show ?thesis by (simp add: tasks_inv_def winners_def)
next
  case (task_run i pcs s s' pc')
  from atomic_step_move [OF task_run(4)] winners_update [OF task_run(3), of pc'] assms(1) task_run(1,2)
  show ?thesis
    by (auto simp: tasks_inv_def alternating_def nth_append less_Suc_eq split: option.splits tcp_leg.splits if_splits)
qed

interpretation failover_tasks: history_invariant "(failover_new, [])" tasks_step tasks_inv
proof
  show "tasks_inv [] (failover_new, [])"
    by (simp add: tasks_inv_def moves_def alternating_def failover_new_def winners_def)
qed (rule tasks_inv_step)

text \<open>
  C19. However the tasks interleave, down to single atomic operations, the successful switches
  alternate strictly, beginning with one to REALITY; the leg is REALITY exactly after an odd number
  of them; and each switch has exactly one winner, so that no two failed opens retry for the same
  switch and no reset is done twice.
\<close>

theorem switches_alternate:
  assumes "runs tasks_step (failover_new, []) ls (s, pcs)"
  shows "(\<forall>i<length (moves ls). moves ls ! i = (if even i then Reality_leg else Tuic)) \<and>
    (active_leg s = Reality_leg \<longleftrightarrow> odd (length (moves ls))) \<and>
    winners pcs = length (moves ls)"
  using failover_tasks.inv_runs [OF assms]
  by (auto simp: tasks_inv_def alternating_def active_leg_def split: if_splits)

theorem switches_alternate_witness:
  "winners [RealityAt 4, Done False] = length (moves [None, None, None, None, Some Reality_leg, None])"
proof -
  let ?s = "failover_new\<lparr> active_tcp_leg := 1 \<rparr>"
  have e: "entry (Blackhole 4) = HoleLoad 4" "entry (OpenFail True 5) = FailLoad True 5" by simp_all
  have r0: "runs tasks_step (failover_new, []) [None] (failover_new, [HoleLoad 4])"
    using task_start [of failover_new "[]" "Blackhole 4"] by (intro runs_single) simp
  from runs_snoc [OF this, of None "(failover_new, [HoleLoad 4, FailLoad True 5])"]
  have r1: "runs tasks_step (failover_new, []) [None, None] (failover_new, [HoleLoad 4, FailLoad True 5])"
    using task_start [of failover_new "[HoleLoad 4]" "OpenFail True 5"] by simp
  from runs_snoc [OF this, of None "(failover_new, [RealityCas 4, FailLoad True 5])"]
  have r2: "runs tasks_step (failover_new, []) [None, None, None] (failover_new, [RealityCas 4, FailLoad True 5])"
    using task_run [of 0 "[HoleLoad 4, FailLoad True 5]" failover_new None failover_new "RealityCas 4"]
    by (simp add: active_leg_def failover_new_def)
  from runs_snoc [OF this, of None "(failover_new, [RealityCas 4, RealityCas 5])"]
  have r3: "runs tasks_step (failover_new, []) [None, None, None, None] (failover_new, [RealityCas 4, RealityCas 5])"
    using task_run [of 1 "[RealityCas 4, FailLoad True 5]" failover_new None failover_new "RealityCas 5"]
    by (simp add: active_leg_def failover_new_def)
  from runs_snoc [OF this, of "Some Reality_leg" "(?s, [RealityAt 4, RealityCas 5])"]
  have r4: "runs tasks_step (failover_new, []) [None, None, None, None, Some Reality_leg] (?s, [RealityAt 4, RealityCas 5])"
    using task_run [of 0 "[RealityCas 4, RealityCas 5]" failover_new "Some Reality_leg" ?s "RealityAt 4"]
    by (simp add: failover_new_def)
  from runs_snoc [OF this, of None "(?s, [RealityAt 4, Done False])"]
  have r5: "runs tasks_step (failover_new, []) [None, None, None, None, Some Reality_leg, None] (?s, [RealityAt 4, Done False])"
    using task_run [of 1 "[RealityAt 4, RealityCas 5]" ?s None ?s "Done False"] by simp
  from switches_alternate [OF r5] show ?thesis by blast
qed

end
