(* ===== verification/Address.thy ===== *)
theory Address
  imports Shared
begin

text \<open>
  What the two wire encodings of a target address (TUIC and VLESS) have in common: the octets of an IP
  address, the one-byte length prefix of a domain name with its truncation at 255 bytes, and the
  contract both have to satisfy, \<open>self_delimiting\<close>: the receiver can tell which address it has read and
  where the payload behind it begins.
\<close>

definition v6_octets :: "128 word \<Rightarrow> bytes" where
  "v6_octets w = octets 16 w"

text \<open>\<open>len = min(bytes.len(), 255)\<close>, then the length byte and the first \<open>len\<close> bytes.\<close>

definition host_bytes :: "bytes \<Rightarrow> bytes" where
  "host_bytes host = (let len = min (length host) 255 in of_nat len # take len host)"

fun host_fits :: "target_addr \<Rightarrow> bool" where
  "host_fits (IpPort _ _) = True"
| "host_fits (DomainPort host _) = (length host \<le> 255)"

lemma length_v6_octets [simp]: "length (v6_octets w) = 16"
  by (simp add: v6_octets_def)

lemma length_host_bytes: "length (host_bytes host) = 1 + min (length host) 255"
  by (simp add: host_bytes_def Let_def)

lemma v6_octets_inj: "v6_octets a = v6_octets b \<longleftrightarrow> a = b"
  unfolding v6_octets_def by (rule octets_inj) simp

lemma unat_host_len: "unat (of_nat (min (length host) 255) :: u8) = min (length host) 255"
  by (rule unat_of_nat_small) simp

lemma host_bytes_append_inj:
  assumes "host_bytes h @ r = host_bytes g @ s" "length h \<le> 255" "length g \<le> 255"
  shows "h = g \<and> r = s"
proof -
  have l: "length h = length g"
    using assms unat_host_len [of h] unat_host_len [of g] by (simp add: host_bytes_def Let_def min_def)
  with assms show ?thesis by (simp add: host_bytes_def Let_def min_def)
qed

locale self_delimiting =
  fixes enc :: "'a \<Rightarrow> bytes" and fits :: "'a \<Rightarrow> bool"
  assumes enc_inj: "fits a \<Longrightarrow> fits b \<Longrightarrow> enc a @ r = enc b @ s \<Longrightarrow> a = b"
begin

lemma enc_payload: "fits a \<Longrightarrow> fits b \<Longrightarrow> enc a @ r = enc b @ s \<Longrightarrow> a = b \<and> r = s"
  using enc_inj [of a b r s] by auto

text \<open>Behind a header of fixed length the address and the payload are still determined.\<close>

lemma framed_payload:
  assumes "length h = length g" "h @ enc a @ r = g @ enc b @ s" "fits a" "fits b"
  shows "h = g \<and> a = b \<and> r = s"
  using assms enc_payload [of a b r s] by simp

end

end
