(* ===== verification/TuicCodec.thy ===== *)
theory TuicCodec
  imports Address
begin

text \<open>
  The TUIC v5 command codec of \<^verbatim>\<open>src/tuic.rs\<close> and the small decisions of its upstream: addresses,
  the Authenticate, Connect, Packet and Heartbeat commands, the decoder of downlink packets, the choice
  between datagram and stream, the heartbeat window and the reconnect back-off.
\<close>

section \<open>Commands\<close>

definition TUIC_VER :: u8 where "TUIC_VER = 0x05"
definition CMD_AUTHENTICATE :: u8 where "CMD_AUTHENTICATE = 0x00"
definition CMD_CONNECT :: u8 where "CMD_CONNECT = 0x01"
definition CMD_PACKET :: u8 where "CMD_PACKET = 0x02"
definition CMD_HEARTBEAT :: u8 where "CMD_HEARTBEAT = 0x04"
definition ATYP_NONE :: u8 where "ATYP_NONE = 0xFF"
definition ATYP_DOMAIN :: u8 where "ATYP_DOMAIN = 0x00"
definition ATYP_IPV4 :: u8 where "ATYP_IPV4 = 0x01"
definition ATYP_IPV6 :: u8 where "ATYP_IPV6 = 0x02"

lemmas tuic_consts = TUIC_VER_def CMD_AUTHENTICATE_def CMD_CONNECT_def CMD_PACKET_def
  CMD_HEARTBEAT_def ATYP_NONE_def ATYP_DOMAIN_def ATYP_IPV4_def ATYP_IPV6_def

fun encode_address :: "target_addr \<Rightarrow> bytes" where
  "encode_address (IpPort (V4 ip) port) = ATYP_IPV4 # be32 ip @ be16 port"
| "encode_address (IpPort (V6 ip) port) = ATYP_IPV6 # v6_octets ip @ be16 port"
| "encode_address (DomainPort host port) = ATYP_DOMAIN # host_bytes host @ be16 port"

definition encode_authenticate :: "bytes \<Rightarrow> bytes \<Rightarrow> bytes" where
  "encode_authenticate uuid token = [TUIC_VER, CMD_AUTHENTICATE] @ uuid @ token"

definition encode_connect :: "target_addr \<Rightarrow> bytes" where
  "encode_connect target = [TUIC_VER, CMD_CONNECT] @ encode_address target"

definition encode_packet :: "u16 \<Rightarrow> target_addr \<Rightarrow> bytes \<Rightarrow> bytes" where
  "encode_packet assoc_id target data =
     [TUIC_VER, CMD_PACKET] @ be16 assoc_id @ be16 0 @ [1, 0] @ be16 (len16 data) @
     encode_address target @ data"

definition encode_heartbeat :: bytes where
  "encode_heartbeat = [TUIC_VER, CMD_HEARTBEAT]"

record packet_meta =
  pm_assoc_id :: u16
  pm_pkt_id :: u16
  pm_frag_total :: u8
  pm_frag_id :: u8
  pm_data :: bytes

definition address_len :: "bytes \<Rightarrow> nat \<Rightarrow> nat option" where
  "address_len buf pos =
     do { atyp \<leftarrow> get_at buf pos;
          if atyp = ATYP_IPV4 then Some (1 + 4 + 2)
          else if atyp = ATYP_IPV6 then Some (1 + 16 + 2)
          else if atyp = ATYP_DOMAIN then
            do { l \<leftarrow> get_at buf (pos + 1); Some (1 + 1 + unat l + 2) }
          else if atyp = ATYP_NONE then Some 1
          else None }"

text \<open>On the 64-bit targets \<open>data_start.checked_add(size)\<close> cannot overflow: both are small.\<close>

definition decode_packet_meta :: "bytes \<Rightarrow> packet_meta option" where
  "decode_packet_meta buf =
     (if length buf < 10 then None
      else let size = unat (from_be16 (buf ! 8) (buf ! 9)) in
        do { addr_len \<leftarrow> address_len buf 10;
             let data_start = 10 + addr_len;
             let data_end = data_start + size;
             if length buf < data_end then None
             else Some \<lparr> pm_assoc_id = from_be16 (buf ! 2) (buf ! 3),
                         pm_pkt_id = from_be16 (buf ! 4) (buf ! 5),
                         pm_frag_total = buf ! 6, pm_frag_id = buf ! 7,
                         pm_data = take (data_end - data_start) (drop data_start buf) \<rparr> })"

definition decode_packet :: "bytes \<Rightarrow> (u16 \<times> bytes) option" where
  "decode_packet buf = map_option (\<lambda>m. (pm_assoc_id m, pm_data m)) (decode_packet_meta buf)"

section \<open>Decisions of the upstream\<close>

datatype udp_send = Datagram | Stream
datatype udp_relay_mode = Native | Quic

definition relay_mode_parse :: "bytes \<Rightarrow> udp_relay_mode option" where
  "relay_mode_parse s =
     (let l = to_ascii_lowercase s
      in if l = str ''native'' then Some Native else if l = str ''quic'' then Some Quic else None)"

definition udp_send_plan :: "udp_relay_mode \<Rightarrow> nat option \<Rightarrow> nat \<Rightarrow> udp_send" where
  "udp_send_plan mode max_datagram len =
     (case mode of
        Quic \<Rightarrow> Stream
      | Native \<Rightarrow> (case max_datagram of Some mx \<Rightarrow> if len \<le> mx then Datagram else Stream | None \<Rightarrow> Stream))"

definition is_datagram_pressured :: "nat \<Rightarrow> nat \<Rightarrow> bool" where
  "is_datagram_pressured send_buffer_space mtu \<longleftrightarrow> send_buffer_space < mtu"

definition TUIC_HB_IDLE_WINDOW_SECS :: nat where "TUIC_HB_IDLE_WINDOW_SECS = 60"

definition should_send_heartbeat :: "nat \<Rightarrow> nat \<Rightarrow> nat \<Rightarrow> bool" where
  "should_send_heartbeat last_activity now idle_window \<longleftrightarrow>
     last_activity \<noteq> 0 \<and> now - last_activity \<le> idle_window"

definition UDP_RECONNECT_CAP_MS :: nat where "UDP_RECONNECT_CAP_MS = 30000"
definition UDP_RECONNECT_BASE_MS :: nat where "UDP_RECONNECT_BASE_MS = 500"

definition u64_max :: nat where "u64_max = 2 ^ 64 - 1"

text \<open>\<open>1u64.checked_shl(n)\<close> fails from a shift of 64 on; \<open>saturating_mul\<close> stops at \<open>u64::MAX\<close>.\<close>

definition checked_shl_one :: "nat \<Rightarrow> nat option" where
  "checked_shl_one n = (if n < 64 then Some (2 ^ n) else None)"

definition saturating_mul :: "nat \<Rightarrow> nat \<Rightarrow> nat" where
  "saturating_mul a b = min (a * b) u64_max"

definition udp_reconnect_backoff :: "nat \<Rightarrow> nat" where
  "udp_reconnect_backoff attempt =
     (let e = saturating_mul UDP_RECONNECT_BASE_MS
                (case checked_shl_one attempt of Some v \<Rightarrow> v | None \<Rightarrow> u64_max)
      in min e UDP_RECONNECT_CAP_MS)"

text \<open>
  Sending a UDP packet. The QUIC connection is a parameter: \<open>conn\<close> is \<open>None\<close> when \<open>current_conn\<close> finds
  none (locked by the reconnecting task, or closed), and otherwise says what its
  \<open>max_datagram_size\<close> is and how \<open>send_datagram\<close> and the writing of a uni-stream end.
\<close>

datatype datagram_result = SendOk | TooLarge | SendFailed

record quic_conn =
  qc_max_datagram :: "nat option"
  qc_send_datagram :: "bytes \<Rightarrow> datagram_result"
  qc_write_uni :: "bytes \<Rightarrow> bool"

record tuic_udp =
  tu_mode :: udp_relay_mode
  tu_drops :: u64
  tu_fallbacks :: u64
  tu_last_activity :: nat

datatype wire_out = OnDatagram bytes | OnStream bytes

definition send_udp_via_stream :: "quic_conn \<Rightarrow> bytes \<Rightarrow> tuic_udp \<Rightarrow> wire_out list \<times> tuic_udp" where
  "send_udp_via_stream conn data t =
     (if qc_write_uni conn data then ([OnStream data], t)
      else ([], t\<lparr> tu_drops := tu_drops t + 1 \<rparr>))"

definition send_udp :: "quic_conn option \<Rightarrow> nat \<Rightarrow> bytes \<Rightarrow> tuic_udp \<Rightarrow> wire_out list \<times> tuic_udp" where
  "send_udp conn_now clock datagram t0 =
     (let t = t0\<lparr> tu_last_activity := clock \<rparr> in
      case conn_now of
        None \<Rightarrow> ([], t\<lparr> tu_drops := tu_drops t + 1 \<rparr>)
      | Some conn \<Rightarrow>
          (case udp_send_plan (tu_mode t) (qc_max_datagram conn) (length datagram) of
             Datagram \<Rightarrow>
               (case qc_send_datagram conn datagram of
                  SendOk \<Rightarrow> ([OnDatagram datagram], t)
                | TooLarge \<Rightarrow>
                    send_udp_via_stream conn datagram (t\<lparr> tu_fallbacks := tu_fallbacks t + 1 \<rparr>)
                | SendFailed \<Rightarrow> ([], t\<lparr> tu_drops := tu_drops t + 1 \<rparr>))
           | Stream \<Rightarrow>
               send_udp_via_stream conn datagram
                 (if tu_mode t = Native then t\<lparr> tu_fallbacks := tu_fallbacks t + 1 \<rparr> else t)))"

section \<open>Properties\<close>

lemma encode_address_inj:
  "host_fits a \<Longrightarrow> host_fits b \<Longrightarrow> encode_address a @ r = encode_address b @ s \<Longrightarrow> a = b"
proof (induction a rule: encode_address.induct)
  case (1 ip port)
  then show ?case by (cases b rule: encode_address.cases) (auto simp: tuic_consts be32_inj be16_inj)
next
  case (2 ip port)
  then show ?case by (cases b rule: encode_address.cases) (auto simp: tuic_consts v6_octets_inj be16_inj)
next
  case (3 host port)
  then show ?case
  proof (cases b rule: encode_address.cases)
    case (3 host' port')
    with "3.prems" host_bytes_append_inj [of host "be16 port @ r" host' "be16 port' @ s"]
    show ?thesis by (simp add: be16_inj)
  qed (auto simp: tuic_consts)
qed

interpretation tuic_address: self_delimiting encode_address host_fits
  by unfold_locales (rule encode_address_inj)

lemma address_len_encode:
  "address_len (pre @ encode_address t @ post) (length pre) = Some (length (encode_address t))"
proof (cases t rule: encode_address.cases)
  case (3 host port)
  have "get_at (pre @ encode_address t @ post) (length pre + 1) = Some (of_nat (min (length host) 255))"
    using 3 by (simp add: get_at_prefix host_bytes_def Let_def)
  then show ?thesis
    using 3 unat_host_len [of host]
    by (simp add: address_len_def get_at_prefix tuic_consts length_host_bytes)
qed (simp_all add: address_len_def get_at_prefix tuic_consts)

lemma encode_packet_meta:
  "decode_packet_meta (encode_packet assoc_id target data @ rest) =
     Some \<lparr> pm_assoc_id = assoc_id, pm_pkt_id = 0, pm_frag_total = 1, pm_frag_id = 0,
            pm_data = take (length data mod 65536) data \<rparr>"
proof -
  let ?pre = "[TUIC_VER, CMD_PACKET] @ be16 assoc_id @ be16 0 @ [1, 0] @ be16 (len16 data)"
  let ?buf = "?pre @ encode_address target @ data @ rest"
  have buf: "encode_packet assoc_id target data @ rest = ?buf" by (simp add: encode_packet_def)
  have "from_be16 (?buf ! 8) (?buf ! 9) = len16 data" by (simp add: be16_def from_be16_be16)
  moreover have "unat (len16 data) = length data mod 65536"
    by (simp add: len16_def unsigned_of_nat take_bit_nat_def)
  moreover have "address_len ?buf 10 = Some (length (encode_address target))"
    using address_len_encode [of ?pre target "data @ rest"] by simp
  moreover have "from_be16 (?buf ! 2) (?buf ! 3) = assoc_id" "from_be16 (?buf ! 4) (?buf ! 5) = 0"
    "?buf ! 6 = 1" "?buf ! 7 = 0"
    by (simp_all add: be16_def from_be16_be16) (simp add: from_be16_def)
  moreover have "drop (10 + length (encode_address target)) ?buf =
      drop (length (encode_address target)) (encode_address target @ data @ rest)"
    by (rule drop_prefix) simp
  then have "drop (10 + length (encode_address target)) ?buf = data @ rest"
    by (simp only: drop_whole_prefix)
  ultimately have "decode_packet_meta ?buf =
     Some \<lparr> pm_assoc_id = assoc_id, pm_pkt_id = 0, pm_frag_total = 1, pm_frag_id = 0,
            pm_data = take (length data mod 65536) data \<rparr>"
    unfolding decode_packet_meta_def Let_def by (simp del: append_assoc)
  then show ?thesis unfolding buf .
qed

lemma encode_packet_decodes:
  "length data < 65536 \<Longrightarrow> decode_packet_meta (encode_packet assoc_id target data) =
     Some \<lparr> pm_assoc_id = assoc_id, pm_pkt_id = 0, pm_frag_total = 1, pm_frag_id = 0, pm_data = data \<rparr>"
  using encode_packet_meta [of assoc_id target data "[]"] by simp

text \<open>
  C33. What the encoder sends, the decoder reads: decoding an encoded packet gives back its
  association, the unfragmented header (packet 0, fragment 0 of 1) and its payload, for every kind of
  address and whatever follows the packet. The size field has 16 bits, so of a payload of 65536 bytes
  or more only the length modulo 65536 survives; no UDP payload is that long.
\<close>

theorem packet_roundtrip:
  "decode_packet_meta (encode_packet assoc_id target data @ rest) =
     Some \<lparr> pm_assoc_id = assoc_id, pm_pkt_id = 0, pm_frag_total = 1, pm_frag_id = 0,
            pm_data = take (length data mod 65536) data \<rparr> \<and>
   (length data < 65536 \<longrightarrow>
      decode_packet (encode_packet assoc_id target data @ rest) = Some (assoc_id, data))"
  using encode_packet_meta [of assoc_id target data rest] by (simp add: decode_packet_def)

theorem packet_roundtrip_witness:
  "decode_packet (encode_packet 9 (DomainPort (str ''a.b'') 53) [1, 2, 3] @ [7]) = Some (9, [1, 2, 3])"
  using packet_roundtrip [of 9 "DomainPort (str ''a.b'') 53" "[1, 2, 3]" "[7]"] by simp

text \<open>
  The commands are unambiguous: two packets with the same bytes have the same association, the
  same target and the same payload, and two Connect commands that begin the same byte stream have
  the same target and leave the same stream behind them. The hosts have to fit the one-byte length.
\<close>

lemma tuic_unambiguous:
  assumes "host_fits t" "host_fits t'"
  shows "(encode_packet i t d = encode_packet i' t' d' \<longrightarrow> i = i' \<and> t = t' \<and> d = d') \<and>
    (encode_connect t @ r = encode_connect t' @ r' \<longrightarrow> t = t' \<and> r = r')"
proof -
  have "i = i' \<and> t = t' \<and> d = d'" if "encode_packet i t d = encode_packet i' t' d'"
  proof -
    let ?h = "\<lambda>i d. [TUIC_VER, CMD_PACKET] @ be16 i @ be16 0 @ [1, 0] @ be16 (len16 (d :: bytes))"
    have "?h i d @ encode_address t @ d = ?h i' d' @ encode_address t' @ d'"
      using that by (simp add: encode_packet_def)
    from tuic_address.framed_payload [OF _ this assms] show ?thesis by (simp add: be16_inj)
  qed
  moreover have "t = t' \<and> r = r'" if "encode_connect t @ r = encode_connect t' @ r'"
    using tuic_address.enc_payload [OF assms, of r r'] that by (simp add: encode_connect_def)
  ultimately show ?thesis by blast
qed



lemma checked_shl_saturates: "64 \<le> n \<Longrightarrow> (30000::nat) \<le> 500 * 2 ^ n"
proof -
  assume "64 \<le> n"
  then have "(2::nat) ^ 64 \<le> 2 ^ n" by (intro power_increasing) simp_all
  then show ?thesis by simp
qed

text \<open>
  The reconnect back-off is 500 ms doubled with every failed attempt and capped at 30 s, for
  every attempt count: neither the shift that fails from 64 on nor the saturating product disturbs
  it. So it never decreases and stays between 0.5 s and 30 s.
\<close>

lemma backoff_exact:
  "udp_reconnect_backoff n = min (500 * 2 ^ n) 30000 \<and>
   udp_reconnect_backoff n \<le> udp_reconnect_backoff (Suc n) \<and>
   500 \<le> udp_reconnect_backoff n"
proof -
  have e: "udp_reconnect_backoff k = min (500 * 2 ^ k) 30000" for k
  proof (cases "k < 64")
    case True
    then show ?thesis
      by (simp add: udp_reconnect_backoff_def saturating_mul_def checked_shl_one_def
          UDP_RECONNECT_BASE_MS_def UDP_RECONNECT_CAP_MS_def u64_max_def Let_def min_def)
  next
    case False
    then show ?thesis
      using checked_shl_saturates [of k]
      by (simp add: udp_reconnect_backoff_def saturating_mul_def checked_shl_one_def
          UDP_RECONNECT_BASE_MS_def UDP_RECONNECT_CAP_MS_def u64_max_def Let_def min_def)
  qed
  have "(1::nat) \<le> 2 ^ n" by simp
  then have "500 \<le> min (500 * 2 ^ n) (30000 :: nat)" by linarith
  then show ?thesis unfolding e by simp
qed

end
