(* ===== verification/Oldest.thy ===== *)
theory Oldest
  imports Prelude "HOL-Library.Product_Lexorder"
begin

text \<open>
  \<open>map.iter().min_by_key(|(k, v)| (age(v), *k))\<close>: the entry that two capped tables evict. The key
  breaks ties, so the choice does not depend on the order of iteration.
\<close>

definition oldest :: "('v \<Rightarrow> nat) \<Rightarrow> ('k::linorder, 'v) fmap \<Rightarrow> 'k option" where
  "oldest age m =
     (case sorted_list_of_fset (fmdom m) of
        [] \<Rightarrow> None
      | ks \<Rightarrow> Some (arg_min_list (\<lambda>k. (age (the (fmlookup m k)), k)) ks))"

lemma oldest_Some:
  assumes "oldest age m = Some k"
  shows "k \<in> fset (fmdom m)" "j \<in> fset (fmdom m) \<Longrightarrow> age (the (fmlookup m k)) \<le> age (the (fmlookup m j))"
proof -
  let ?ks = "sorted_list_of_fset (fmdom m)"
  let ?f = "\<lambda>k. (age (the (fmlookup m k)), k)"
  have ne: "?ks \<noteq> []" and k: "k = arg_min_list ?f ?ks"
    using assms by (auto simp: oldest_def split: list.splits)
  show "k \<in> fset (fmdom m)" using arg_min_list_in [OF ne, of ?f] k by simp
  assume "j \<in> fset (fmdom m)"
  then have "?f (arg_min_list ?f ?ks) \<le> ?f j"
    using f_arg_min_list_f [OF ne, of ?f] by simp
  then show "age (the (fmlookup m k)) \<le> age (the (fmlookup m j))"
    unfolding k [symmetric] by (auto simp: less_eq_prod_def)
qed

lemma oldest_lookup: "oldest age m = Some k \<Longrightarrow> fmlookup m k \<noteq> None"
  using oldest_Some(1) by (metis fmdom_member_iff)

lemma oldest_None: "oldest age m = None \<longleftrightarrow> fmdom m = {||}"
  by (auto simp: oldest_def split: list.splits)

end
