(* ===== verification/Frag.thy ===== *)
theory Frag
  imports TuicCodec Oldest
begin

text \<open>
  The reassembler of fragmented downlink packets, \<open>FragReassembler\<close> of \<^verbatim>\<open>src/tuic.rs\<close>: incomplete
  packets by association and packet id, a cap with eviction of the oldest, and a sweep by age.
\<close>

section \<open>Definitions\<close>

definition FRAG_REASSEMBLY_CAP :: nat where "FRAG_REASSEMBLY_CAP = 256"
definition FRAG_REASSEMBLY_TTL_SECS :: nat where "FRAG_REASSEMBLY_TTL_SECS = 10"

type_synonym frag_key = "u16 \<times> u16"

record frag_partial =
  fp_frags :: "bytes option list"
  fp_received :: nat
  fp_first_seen :: nat

record frag_reassembler =
  fr_partials :: "(frag_key, frag_partial) fmap"
  fr_cap :: nat

definition frag_with_cap :: "nat \<Rightarrow> frag_reassembler" where
  "frag_with_cap cap = \<lparr> fr_partials = fmempty, fr_cap = max cap 1 \<rparr>"

definition frag_new :: frag_reassembler where
  "frag_new = frag_with_cap FRAG_REASSEMBLY_CAP"

definition evict_if_full :: "frag_reassembler \<Rightarrow> frag_reassembler" where
  "evict_if_full r =
     (if fcard (fmdom (fr_partials r)) < fr_cap r then r
      else case oldest fp_first_seen (fr_partials r) of
             Some victim \<Rightarrow> r\<lparr> fr_partials := fmdrop victim (fr_partials r) \<rparr>
           | None \<Rightarrow> r)"

definition key_of :: "packet_meta \<Rightarrow> frag_key" where
  "key_of m = (pm_assoc_id m, pm_pkt_id m)"

definition empty_partial :: "nat \<Rightarrow> nat \<Rightarrow> frag_partial" where
  "empty_partial frag_total now =
     \<lparr> fp_frags = replicate frag_total None, fp_received = 0, fp_first_seen = now \<rparr>"

definition store_frag :: "nat \<Rightarrow> bytes \<Rightarrow> frag_partial \<Rightarrow> frag_partial" where
  "store_frag i data p =
     p\<lparr> fp_received := (if fp_frags p ! i = None then fp_received p + 1 else fp_received p),
        fp_frags := (fp_frags p)[i := Some data] \<rparr>"

definition join_frags :: "bytes option list \<Rightarrow> bytes" where
  "join_frags fs = concat (map (\<lambda>f. case f of Some d \<Rightarrow> d | None \<Rightarrow> []) fs)"

definition frag_accept :: "packet_meta \<Rightarrow> nat \<Rightarrow> frag_reassembler \<Rightarrow> bytes option \<times> frag_reassembler" where
  "frag_accept m now r =
     (if pm_frag_total m = 0 \<or> pm_frag_id m \<ge> pm_frag_total m then (None, r)
      else if pm_frag_total m = 1 then (Some (pm_data m), r)
      else let key = key_of m;
               frag_total = unat (pm_frag_total m);
               r1 = (case fmlookup (fr_partials r) key of
                       Some p \<Rightarrow> if length (fp_frags p) \<noteq> frag_total
                                 then r\<lparr> fr_partials := fmdrop key (fr_partials r) \<rparr> else r
                     | None \<Rightarrow> r);
               r2 = (if fmlookup (fr_partials r1) key = None then evict_if_full r1 else r1);
               p = (case fmlookup (fr_partials r2) key of
                      Some p \<Rightarrow> p | None \<Rightarrow> empty_partial frag_total now);
               p' = store_frag (unat (pm_frag_id m)) (pm_data m) p
           in if fp_received p' < length (fp_frags p')
              then (None, r2\<lparr> fr_partials := fmupd key p' (fr_partials r2) \<rparr>)
              else (Some (join_frags (fp_frags p')),
                    r2\<lparr> fr_partials := fmdrop key (fr_partials r2) \<rparr>))"

definition frag_sweep :: "nat \<Rightarrow> nat \<Rightarrow> frag_reassembler \<Rightarrow> frag_reassembler" where
  "frag_sweep now ttl r =
     r\<lparr> fr_partials :=
          fmfilter (\<lambda>k. case fmlookup (fr_partials r) k of
                          Some p \<Rightarrow> now - fp_first_seen p \<le> ttl | None \<Rightarrow> False) (fr_partials r) \<rparr>"

section \<open>The invariant\<close>

definition wf_partial :: "frag_partial \<Rightarrow> bool" where
  "wf_partial p \<longleftrightarrow> 2 \<le> length (fp_frags p) \<and> length (fp_frags p) \<le> 255 \<and>
     fp_received p = length (filter (\<lambda>f. f \<noteq> None) (fp_frags p)) \<and>
     fp_received p < length (fp_frags p)"

definition frag_inv :: "frag_reassembler \<Rightarrow> bool" where
  "frag_inv r \<longleftrightarrow> 1 \<le> fr_cap r \<and> fcard (fmdom (fr_partials r)) \<le> fr_cap r \<and>
     (\<forall>k p. fmlookup (fr_partials r) k = Some p \<longrightarrow> wf_partial p)"

lemma evict_if_full_props:
  assumes "frag_inv r"
  shows "frag_inv (evict_if_full r)" "fr_cap (evict_if_full r) = fr_cap r"
    "fcard (fmdom (fr_partials (evict_if_full r))) < fr_cap r"
    "fmlookup (fr_partials r) k = None \<Longrightarrow> fmlookup (fr_partials (evict_if_full r)) k = None"
proof -
  have "frag_inv (evict_if_full r) \<and> fr_cap (evict_if_full r) = fr_cap r \<and>
      fcard (fmdom (fr_partials (evict_if_full r))) < fr_cap r"
  proof (cases "fcard (fmdom (fr_partials r)) < fr_cap r")
    case True
    with assms show ?thesis by (simp add: evict_if_full_def)
  next
    case False
    then have "fmdom (fr_partials r) \<noteq> {||}" using assms by (auto simp: frag_inv_def)
    then obtain v where v: "oldest fp_first_seen (fr_partials r) = Some v"
      using oldest_None by (metis option.exhaust)
    have c: "fcard (fmdom (fmdrop v (fr_partials r))) = fcard (fmdom (fr_partials r)) - 1"
      using oldest_lookup [OF v] by (subst fcard_fmdom_fmdrop) auto
    from False v c assms show ?thesis
      by (auto simp: evict_if_full_def frag_inv_def split: if_splits)
  qed
  then show "frag_inv (evict_if_full r)" "fr_cap (evict_if_full r) = fr_cap r"
    "fcard (fmdom (fr_partials (evict_if_full r))) < fr_cap r" by auto
  show "fmlookup (fr_partials (evict_if_full r)) k = None" if "fmlookup (fr_partials r) k = None"
    using that by (auto simp: evict_if_full_def split: option.split)
qed

lemma filter_update_count:
  "i < length fs \<Longrightarrow> length (filter (\<lambda>f. f \<noteq> None) (fs[i := Some d])) =
     (if fs ! i = None then Suc (length (filter (\<lambda>f. f \<noteq> None) fs)) else length (filter (\<lambda>f. f \<noteq> None) fs))"
proof (induction fs arbitrary: i)
  case (Cons f fs)
  then show ?case by (cases i) auto
qed simp

lemma store_frag_wf:
  assumes "fp_received p = length (filter (\<lambda>f. f \<noteq> None) (fp_frags p))" "i < length (fp_frags p)"
  shows "fp_received (store_frag i d p) = length (filter (\<lambda>f. f \<noteq> None) (fp_frags (store_frag i d p)))"
    "length (fp_frags (store_frag i d p)) = length (fp_frags p)"
  using assms filter_update_count [of i "fp_frags p" d] by (simp_all add: store_frag_def)

text \<open>The table before the fragment is stored: a partial packet of the right size, or room for one.\<close>

definition frag_prepare :: "frag_key \<Rightarrow> nat \<Rightarrow> frag_reassembler \<Rightarrow> frag_reassembler" where
  "frag_prepare key n r =
     (let r1 = (case fmlookup (fr_partials r) key of
                  Some p \<Rightarrow> if length (fp_frags p) \<noteq> n
                            then r\<lparr> fr_partials := fmdrop key (fr_partials r) \<rparr> else r
                | None \<Rightarrow> r)
      in if fmlookup (fr_partials r1) key = None then evict_if_full r1 else r1)"

definition frag_current :: "frag_key \<Rightarrow> nat \<Rightarrow> nat \<Rightarrow> frag_reassembler \<Rightarrow> frag_partial" where
  "frag_current key n now r =
     (case fmlookup (fr_partials r) key of Some p \<Rightarrow> p | None \<Rightarrow> empty_partial n now)"

lemma frag_accept_fragment:
  assumes "pm_frag_total m \<noteq> 1" "pm_frag_id m < pm_frag_total m"
  shows "frag_accept m now r =
    (let r2 = frag_prepare (key_of m) (unat (pm_frag_total m)) r;
         p' = store_frag (unat (pm_frag_id m)) (pm_data m)
                (frag_current (key_of m) (unat (pm_frag_total m)) now r2)
     in if fp_received p' < length (fp_frags p')
        then (None, r2\<lparr> fr_partials := fmupd (key_of m) p' (fr_partials r2) \<rparr>)
        else (Some (join_frags (fp_frags p')),
              r2\<lparr> fr_partials := fmdrop (key_of m) (fr_partials r2) \<rparr>))"
  using assms
  by (auto simp: frag_accept_def frag_prepare_def frag_current_def Let_def not_le [symmetric]
      simp del: not_le)

lemma frag_inv_drop: "frag_inv r \<Longrightarrow> frag_inv (r\<lparr> fr_partials := fmdrop k (fr_partials r) \<rparr>)"
  using fcard_fmdom_fmdrop [of k "fr_partials r"] by (auto simp: frag_inv_def split: if_splits)

lemma frag_prepare_inv:
  assumes "frag_inv r"
  shows "frag_inv (frag_prepare key n r)"
    "fmlookup (fr_partials (frag_prepare key n r)) key = None \<Longrightarrow>
       fcard (fmdom (fr_partials (frag_prepare key n r))) < fr_cap (frag_prepare key n r)"
    "fmlookup (fr_partials (frag_prepare key n r)) key = Some p \<Longrightarrow> length (fp_frags p) = n"
proof -
  let ?r1 = "case fmlookup (fr_partials r) key of
    Some p \<Rightarrow> if length (fp_frags p) \<noteq> n then r\<lparr> fr_partials := fmdrop key (fr_partials r) \<rparr> else r
  | None \<Rightarrow> r"
  have r1: "frag_inv ?r1" using assms frag_inv_drop [OF assms] by (auto split: option.split)
  have len: "fmlookup (fr_partials ?r1) key = Some p \<Longrightarrow> length (fp_frags p) = n" for p
    by (auto split: option.splits if_splits)
  note e = evict_if_full_props [OF r1]
  show "frag_inv (frag_prepare key n r)"
    using r1 e(1) by (auto simp: frag_prepare_def Let_def)
  show "fmlookup (fr_partials (frag_prepare key n r)) key = None \<Longrightarrow>
       fcard (fmdom (fr_partials (frag_prepare key n r))) < fr_cap (frag_prepare key n r)"
    using e(2,3) by (auto simp: frag_prepare_def Let_def split: if_splits)
  show "fmlookup (fr_partials (frag_prepare key n r)) key = Some p \<Longrightarrow> length (fp_frags p) = n"
    using len e(4) [of key] by (auto simp: frag_prepare_def Let_def split: if_splits)
qed

lemma frag_current_wf:
  assumes "frag_inv r" "\<And>p. fmlookup (fr_partials r) key = Some p \<Longrightarrow> length (fp_frags p) = n"
  shows "length (fp_frags (frag_current key n now r)) = n"
    "fp_received (frag_current key n now r) =
       length (filter (\<lambda>f. f \<noteq> None) (fp_frags (frag_current key n now r)))"
  using assms by (auto simp: frag_current_def empty_partial_def frag_inv_def wf_partial_def simp del: split_paired_All split: option.split)

lemma frag_accept_inv:
  assumes "frag_inv r"
  shows "frag_inv (snd (frag_accept m now r))"
proof (cases "pm_frag_total m \<noteq> 1 \<and> pm_frag_id m < pm_frag_total m")
  case True
  let ?n = "unat (pm_frag_total m)" and ?k = "key_of m" and ?i = "unat (pm_frag_id m)"
  let ?r2 = "frag_prepare ?k ?n r"
  let ?p = "frag_current ?k ?n now ?r2"
  let ?p' = "store_frag ?i (pm_data m) ?p"
  note prep = frag_prepare_inv [OF assms, of ?k ?n]
  have cur: "length (fp_frags ?p) = ?n" "fp_received ?p = length (filter (\<lambda>f. f \<noteq> None) (fp_frags ?p))"
    using frag_current_wf [OF prep(1), of ?k ?n now] prep(3) by blast+
  have i: "?i < ?n" using True by (simp add: word_less_nat_alt)
  have "?n \<noteq> 1" using True by (metis unat_1 word_unat_eq_iff)
  then have n: "2 \<le> ?n" "?n \<le> 255"
    using i less_Suc_eq_le [of ?n 255] by simp_all
  have "?i < length (fp_frags ?p)" using i by (simp only: cur(1))
  note st = store_frag_wf [OF cur(2) this, of "pm_data m"]
  show ?thesis
  proof (cases "fp_received ?p' < length (fp_frags ?p')")
    case less: True
    have "fcard (fmdom (fmupd ?k ?p' (fr_partials ?r2))) \<le> fr_cap ?r2"
      using prep(1,2) by (auto simp: fcard_fmdom_fmupd frag_inv_def simp del: fmdom_fmupd)
    moreover have "wf_partial ?p'" using less st n cur(1) by (simp add: wf_partial_def)
    ultimately show ?thesis
      using less prep(1) frag_accept_fragment [of m now r] True
      by (auto simp: Let_def frag_inv_def simp del: fmdom_fmupd split: if_splits)
  next
    case False
    then show ?thesis
      using frag_inv_drop [OF prep(1)] frag_accept_fragment [of m now r] True by (simp add: Let_def)
  qed
next
  case False
  then show ?thesis using assms by (auto simp: frag_accept_def not_less)
qed

lemma frag_sweep_lookup:
  "fmlookup (fr_partials (frag_sweep now ttl r)) k =
     (case fmlookup (fr_partials r) k of
        Some p \<Rightarrow> if now - fp_first_seen p \<le> ttl then Some p else None | None \<Rightarrow> None)"
  by (auto simp: frag_sweep_def split: option.splits)

lemma frag_sweep_inv: "frag_inv r \<Longrightarrow> frag_inv (frag_sweep now ttl r)"
proof -
  assume inv: "frag_inv r"
  have "fmdom (fr_partials (frag_sweep now ttl r)) |\<subseteq>| fmdom (fr_partials r)"
    by (auto simp: frag_sweep_def)
  then have "fcard (fmdom (fr_partials (frag_sweep now ttl r))) \<le> fcard (fmdom (fr_partials r))"
    by (rule fcard_mono)
  moreover have "fr_cap (frag_sweep now ttl r) = fr_cap r" by (simp add: frag_sweep_def)
  ultimately show ?thesis
    using inv by (auto simp: frag_inv_def frag_sweep_lookup split: option.splits if_splits)
qed

section \<open>Reassembly\<close>

text \<open>
  \<open>collected cs seen r k\<close>: the table holds, for key \<open>k\<close>, exactly the chunks of \<open>cs\<close> with a number in
  \<open>seen\<close>.
\<close>

definition collected :: "bytes list \<Rightarrow> nat set \<Rightarrow> frag_reassembler \<Rightarrow> frag_key \<Rightarrow> bool" where
  "collected cs seen r k \<longleftrightarrow>
     (if seen = {} then fmlookup (fr_partials r) k = None
      else \<exists>p. fmlookup (fr_partials r) k = Some p \<and> fp_received p = card seen \<and>
             fp_frags p = map (\<lambda>i. if i \<in> seen then Some (cs ! i) else None) [0..<length cs])"

definition chunk_of :: "bytes list \<Rightarrow> frag_key \<Rightarrow> packet_meta \<Rightarrow> bool" where
  "chunk_of cs k m \<longleftrightarrow> key_of m = k \<and> unat (pm_frag_total m) = length cs \<and>
     unat (pm_frag_id m) < length cs \<and> pm_data m = cs ! unat (pm_frag_id m)"

lemma map_upt_update:
  "i < n \<Longrightarrow> (map (\<lambda>j. if j \<in> s then Some (f j) else None) [0..<n])[i := Some (f i)] =
     map (\<lambda>j. if j \<in> insert i s then Some (f j) else None) [0..<n]"
  by (rule nth_equalityI) (auto simp: nth_list_update)

lemma join_all:
  assumes "s = {..<length cs}"
  shows "join_frags (map (\<lambda>j. if j \<in> s then Some (cs ! j) else None) [0..<length cs]) = concat cs"
proof -
  have "map (\<lambda>f. case f of Some d \<Rightarrow> d | None \<Rightarrow> [])
      (map (\<lambda>j. if j \<in> s then Some (cs ! j) else None) [0..<length cs]) = cs"
    using assms by (intro nth_equalityI) simp_all
  then show ?thesis by (simp add: join_frags_def)
qed

lemma accept_chunk:
  assumes "chunk_of cs k m" "2 \<le> length cs" "collected cs seen r k" "seen \<subseteq> {..<length cs}"
    "unat (pm_frag_id m) \<notin> seen" "seen = {} \<longrightarrow> fcard (fmdom (fr_partials r)) < fr_cap r"
  shows "if seen \<union> {unat (pm_frag_id m)} = {..<length cs}
    then fst (frag_accept m now r) = Some (concat cs)
    else fst (frag_accept m now r) = None \<and>
      collected cs (seen \<union> {unat (pm_frag_id m)}) (snd (frag_accept m now r)) k"
proof -
  let ?i = "unat (pm_frag_id m)" and ?n = "length cs"
  let ?s = "seen \<union> {?i}"
  have fin: "finite seen" using assms(4) finite_subset by blast
  have m: "pm_frag_total m \<noteq> 1" "pm_frag_id m < pm_frag_total m" "key_of m = k"
    "unat (pm_frag_total m) = ?n" "?i < ?n" "pm_data m = cs ! ?i"
    using assms(1,2) by (auto simp: chunk_of_def word_less_nat_alt)
  have prep: "frag_prepare k ?n r = r"
    using assms(3,6) by (auto simp: frag_prepare_def Let_def collected_def evict_if_full_def split: if_splits)
  have cur: "fp_frags (frag_current k ?n now r) = map (\<lambda>i. if i \<in> seen then Some (cs ! i) else None) [0..<?n]"
    "fp_received (frag_current k ?n now r) = card seen"
    using assms(3) by (auto simp: frag_current_def collected_def empty_partial_def split: if_splits
        intro!: nth_equalityI)
  define p' where "p' = store_frag ?i (pm_data m) (frag_current k ?n now r)"
  have p': "fp_frags p' = map (\<lambda>j. if j \<in> insert ?i seen then Some (cs ! j) else None) [0..<?n]"
    "fp_received p' = card (insert ?i seen)"
    using cur m(5,6) assms(5) fin map_upt_update [OF m(5), of seen "(!) cs"]
    by (simp_all add: p'_def store_frag_def)
  have acc: "frag_accept m now r =
      (if fp_received p' < length (fp_frags p')
       then (None, r\<lparr> fr_partials := fmupd k p' (fr_partials r) \<rparr>)
       else (Some (join_frags (fp_frags p')), r\<lparr> fr_partials := fmdrop k (fr_partials r) \<rparr>))"
    using frag_accept_fragment [OF m(1,2), of now r] by (simp add: m(3,4) prep Let_def p'_def)
  have "?s = {..<?n} \<longleftrightarrow> \<not> fp_received p' < length (fp_frags p')"
  proof -
    have sub: "?s \<subseteq> {..<?n}" using assms(4) m(5) by auto
    have "?s = {..<?n} \<longleftrightarrow> \<not> card ?s < ?n"
    proof
      assume "?s = {..<?n}" then show "\<not> card ?s < ?n" by (simp only: card_lessThan)
    next
      assume "\<not> card ?s < ?n"
      then show "?s = {..<?n}" using sub by (intro card_seteq) (simp_all only: card_lessThan not_less finite_lessThan)
    qed
    then show ?thesis using p' by simp
  qed
  then show ?thesis
    using acc p' join_all [of "insert ?i seen" cs] by (auto simp: collected_def)
qed

definition feed :: "(packet_meta \<times> nat) list \<Rightarrow> frag_reassembler \<Rightarrow> frag_reassembler" where
  "feed ms r = fold (\<lambda>(m, now) r. snd (frag_accept m now r)) ms r"

definition chunk_ids :: "frag_key \<Rightarrow> (packet_meta \<times> nat) list \<Rightarrow> nat list" where
  "chunk_ids k ms = map (\<lambda>(m, _). unat (pm_frag_id m)) (filter (\<lambda>(m, _). key_of m = k) ms)"

lemma evict_noop: "fcard (fmdom (fr_partials r)) < fr_cap r \<Longrightarrow> evict_if_full r = r"
  by (simp add: evict_if_full_def)

lemma evict_dom: "fmdom (fr_partials (evict_if_full r)) |\<subseteq>| fmdom (fr_partials r)"
  by (auto simp: evict_if_full_def split: option.split)

lemma frag_prepare_frame:
  assumes "frag_inv r" "key \<noteq> k" "fmlookup (fr_partials r) key = None \<longrightarrow> fcard (fmdom (fr_partials r)) < fr_cap r"
  shows "fmlookup (fr_partials (frag_prepare key n r)) k = fmlookup (fr_partials r) k"
proof (cases "fmlookup (fr_partials r) key")
  case None
  with assms show ?thesis by (simp add: frag_prepare_def evict_noop)
next
  case (Some p)
  have "fcard (fmdom (fmdrop key (fr_partials r))) < fr_cap r"
    using Some assms(1) by (subst fcard_fmdom_fmdrop) (auto simp: frag_inv_def)
  with Some assms(2) show ?thesis
    using evict_noop [of "r\<lparr> fr_partials := fmdrop key (fr_partials r) \<rparr>"]
    by (simp add: frag_prepare_def Let_def)
qed

lemma frag_prepare_dom: "fmdom (fr_partials (frag_prepare key n r)) |\<subseteq>| fmdom (fr_partials r)"
  using evict_dom [of r] evict_dom [of "r\<lparr> fr_partials := fmdrop key (fr_partials r) \<rparr>"]
  by (auto simp: frag_prepare_def Let_def split: option.split)

lemma evict_cap [simp]: "fr_cap (evict_if_full r) = fr_cap r"
  by (auto simp: evict_if_full_def split: option.split)

lemma frag_accept_cap [simp]: "fr_cap (snd (frag_accept m now r)) = fr_cap r"
  by (auto simp: frag_accept_def Let_def split: option.splits)

lemma frag_accept_dom:
  "fmdom (fr_partials (snd (frag_accept m now r))) |\<subseteq>| finsert (key_of m) (fmdom (fr_partials r))"
proof (cases "pm_frag_total m \<noteq> 1 \<and> pm_frag_id m < pm_frag_total m")
  case True
  with frag_prepare_dom [of "key_of m" "unat (pm_frag_total m)" r] show ?thesis
    by (subst frag_accept_fragment) (auto simp: Let_def)
next
  case False
  then show ?thesis by (auto simp: frag_accept_def not_less)
qed

lemma frag_accept_frame:
  assumes "frag_inv r" "key_of m \<noteq> k"
    "fmlookup (fr_partials r) (key_of m) = None \<longrightarrow> fcard (fmdom (fr_partials r)) < fr_cap r"
  shows "fmlookup (fr_partials (snd (frag_accept m now r))) k = fmlookup (fr_partials r) k"
proof (cases "pm_frag_total m \<noteq> 1 \<and> pm_frag_id m < pm_frag_total m")
  case True
  with frag_prepare_frame [OF assms] assms(2) show ?thesis
    by (subst frag_accept_fragment) (auto simp: Let_def)
next
  case False
  then show ?thesis by (auto simp: frag_accept_def not_less)
qed

text \<open>A new key of the set \<open>K\<close> finds room as long as \<open>K\<close> fits.\<close>

lemma room_for_new:
  assumes "fmdom m |\<subseteq>| K" "k |\<in>| K" "fcard K \<le> cap" "fmlookup m k = None"
  shows "fcard (fmdom m) < cap"
proof -
  have "fmdom m |\<subset>| K" using assms(1,2,4) by (auto simp: fmdom_member_iff)
  then have "fcard (fmdom m) < fcard K" by (rule pfsubset_fcard_mono)
  then show ?thesis using assms(3) by simp
qed

lemma feed_collects:
  assumes "frag_inv r" "collected cs seen r k" "2 \<le> length cs"
    "\<forall>(m, t)\<in>set ms. key_of m |\<in>| K \<and> (key_of m = k \<longrightarrow> chunk_of cs k m)"
    "distinct (chunk_ids k ms)" "set (chunk_ids k ms) \<inter> seen = {}"
    "seen \<union> set (chunk_ids k ms) \<subset> {..<length cs}"
    "fmdom (fr_partials r) |\<subseteq>| K" "k |\<in>| K" "fcard K \<le> fr_cap r"
  shows "frag_inv (feed ms r) \<and> collected cs (seen \<union> set (chunk_ids k ms)) (feed ms r) k \<and>
    fmdom (fr_partials (feed ms r)) |\<subseteq>| K \<and> fr_cap (feed ms r) = fr_cap r"
  using assms
proof (induction ms arbitrary: r seen)
  case Nil
  then show ?case by (simp add: feed_def chunk_ids_def)
next
  case (Cons mt ms)
  obtain m t where mt: "mt = (m, t)" by fastforce
  let ?r = "snd (frag_accept m t r)"
  have feed: "feed (mt # ms) r = feed ms ?r" by (simp add: feed_def mt)
  have inv: "frag_inv ?r" by (rule frag_accept_inv [OF Cons.prems(1)])
  have mK: "key_of m |\<in>| K" using Cons.prems(4) mt by simp
  have dom: "fmdom (fr_partials ?r) |\<subseteq>| K"
    using frag_accept_dom [of m t r] Cons.prems(8) mK by blast
  note room = room_for_new [OF Cons.prems(8) _ Cons.prems(10)]
  show ?case
  proof (cases "key_of m = k")
    case True
    let ?i = "unat (pm_frag_id m)"
    have ids: "chunk_ids k (mt # ms) = ?i # chunk_ids k ms" using True by (simp add: chunk_ids_def mt)
    have "chunk_of cs k m" using Cons.prems(4) mt True by simp
    moreover have "seen = {} \<longrightarrow> fcard (fmdom (fr_partials r)) < fr_cap r"
      using room [OF Cons.prems(9)] Cons.prems(2) by (auto simp: collected_def)
    moreover have "seen \<union> {?i} \<noteq> {..<length cs}" using Cons.prems(7) ids by auto
    ultimately have "collected cs (seen \<union> {?i}) ?r k"
      using accept_chunk [of cs k m seen r t] Cons.prems(2,3,6,7) ids by auto
    from Cons.IH [OF inv this] Cons.prems ids dom show ?thesis
      unfolding feed by (simp add: Un_assoc)
  next
    case False
    have ids: "chunk_ids k (mt # ms) = chunk_ids k ms" using False by (simp add: chunk_ids_def mt)
    have "fmlookup (fr_partials ?r) k = fmlookup (fr_partials r) k"
      by (rule frag_accept_frame [OF Cons.prems(1) False]) (auto intro: room [OF mK])
    then have "collected cs seen ?r k" using Cons.prems(2) by (simp add: collected_def)
    from Cons.IH [OF inv this] Cons.prems ids dom show ?thesis unfolding feed by simp
  qed
qed

datatype frag_op = FragAccept packet_meta nat | FragSweep nat nat

fun apply_frag :: "frag_op \<Rightarrow> frag_reassembler \<Rightarrow> frag_reassembler" where
  "apply_frag (FragAccept m now) r = snd (frag_accept m now r)"
| "apply_frag (FragSweep now ttl) r = frag_sweep now ttl r"

lemma frag_with_cap_inv: "frag_inv (frag_with_cap c)"
  by (simp add: frag_inv_def frag_with_cap_def)

lemma fold_apply_frag_inv:
  "frag_inv r \<Longrightarrow> frag_inv (fold apply_frag ops r) \<and> fr_cap (fold apply_frag ops r) = fr_cap r"
proof (induction ops arbitrary: r)
  case (Cons op ops)
  have "frag_inv (apply_frag op r)"
    using Cons.prems by (cases op) (auto intro: frag_accept_inv frag_sweep_inv)
  moreover have "fr_cap (apply_frag op r) = fr_cap r"
    by (cases op) (simp_all add: frag_sweep_def)
  ultimately show ?case using Cons.IH [of "apply_frag op r"] by simp
qed simp

text \<open>
  C32. Memory is bounded: whatever fragments arrive and whenever the sweep runs, the reassembler
  holds at most its cap of incomplete packets (at least one slot even for a cap of zero), each with
  between 2 and 255 slots of which at least one is still empty, and its count of received chunks is
  the number of filled slots.
\<close>

theorem frag_bounded:
  "fcard (fmdom (fr_partials (fold apply_frag ops (frag_with_cap cap)))) \<le> max cap 1 \<and>
   (fmlookup (fr_partials (fold apply_frag ops (frag_with_cap cap))) k = Some p \<longrightarrow>
      2 \<le> length (fp_frags p) \<and> length (fp_frags p) \<le> 255 \<and> None \<in> set (fp_frags p) \<and>
      fp_received p = length (filter (\<lambda>f. f \<noteq> None) (fp_frags p)))"
proof -
  let ?r = "fold apply_frag ops (frag_with_cap cap)"
  have inv: "frag_inv ?r" "fr_cap ?r = max cap 1"
    using fold_apply_frag_inv [OF frag_with_cap_inv] by (auto simp: frag_with_cap_def)
  have "None \<in> set fs" if "length (filter (\<lambda>f. f \<noteq> None) fs) < length fs" for fs :: "bytes option list"
  proof (rule ccontr)
    assume "None \<notin> set fs"
    then have "filter (\<lambda>f. f \<noteq> None) fs = fs" by (intro filter_True ballI) metis
    with that show False by simp
  qed
  moreover have "wf_partial p" if "fmlookup (fr_partials ?r) k = Some p"
    using that inv(1) unfolding frag_inv_def by blast
  moreover have "fcard (fmdom (fr_partials ?r)) \<le> max cap 1" using inv by (simp add: frag_inv_def)
  ultimately show ?thesis unfolding wf_partial_def by (intro conjI impI) simp_all
qed

theorem frag_bounded_witness:
  "fcard (fmdom (fr_partials (fold apply_frag
     [FragAccept \<lparr> pm_assoc_id = 1, pm_pkt_id = 1, pm_frag_total = 2, pm_frag_id = 0, pm_data = [1] \<rparr> 5,
      FragAccept \<lparr> pm_assoc_id = 1, pm_pkt_id = 2, pm_frag_total = 3, pm_frag_id = 0, pm_data = [2] \<rparr> 6]
     (frag_with_cap 1)))) \<le> 1"
  by (rule order_trans [OF conjunct1 [OF frag_bounded]]) simp

text \<open>
  Reassembly is correct in any order: let a packet be cut into two or more chunks that arrive in
  any order, interleaved with arbitrary other fragments and packets. As long as the keys in play fit
  the cap, the fragment that completes the packet returns exactly the concatenation of the chunks in
  their order.
\<close>

lemma reassembly_correct:
  assumes "frag_inv r" "fmlookup (fr_partials r) k = None" "2 \<le> length cs"
    "\<forall>(m, t)\<in>set (ms @ [(m1, t1)]). key_of m |\<in>| K \<and> (key_of m = k \<longrightarrow> chunk_of cs k m)"
    "key_of m1 = k" "distinct (chunk_ids k (ms @ [(m1, t1)]))"
    "set (chunk_ids k (ms @ [(m1, t1)])) = {..<length cs}"
    "fmdom (fr_partials r) |\<subseteq>| K" "fcard K \<le> fr_cap r"
  shows "fst (frag_accept m1 t1 (feed ms r)) = Some (concat cs)"
proof -
  let ?i = "unat (pm_frag_id m1)"
  have ids: "chunk_ids k (ms @ [(m1, t1)]) = chunk_ids k ms @ [?i]"
    using assms(5) by (simp add: chunk_ids_def)
  have i: "?i < length cs" "?i \<notin> set (chunk_ids k ms)"
    and all: "set (chunk_ids k ms) \<union> {?i} = {..<length cs}"
    using assms(6,7) unfolding ids by auto
  have kK: "k |\<in>| K" using assms(4,5) by auto
  have "frag_inv (feed ms r) \<and> collected cs ({} \<union> set (chunk_ids k ms)) (feed ms r) k \<and>
      fmdom (fr_partials (feed ms r)) |\<subseteq>| K \<and> fr_cap (feed ms r) = fr_cap r"
    using assms(1-4,6,8,9) kK i all
    by (intro feed_collects) (auto simp: collected_def ids)
  moreover from this have "set (chunk_ids k ms) = {} \<longrightarrow>
      fcard (fmdom (fr_partials (feed ms r))) < fr_cap (feed ms r)"
    using room_for_new [of "fr_partials (feed ms r)" K k] kK assms(9) by (auto simp: collected_def)
  moreover have "chunk_of cs k m1" using assms(4,5) by simp
  ultimately show ?thesis
    using accept_chunk [of cs k m1 "set (chunk_ids k ms)" "feed ms r" t1] assms(3) i all by auto
qed

end
