(* ===== verification/Assoc.thy ===== *)
theory Assoc
  imports BiIndex Cursor FlowRefs Oldest
begin

text \<open>
  The UDP flow types of \<^verbatim>\<open>src/udp_relay.rs\<close> and the association table of \<^verbatim>\<open>src/tuic.rs\<close>, which gives
  every flow a 16-bit id, evicts the least recently used flow at its cap, and remembers which fake
  address a flow holds so that the main loop can give the reference back.

  \<open>alloc_id\<close> is an unbounded loop in the code. Its cursor has 65535 values, so \<open>alloc_loop\<close> runs with
  that many rounds; \<open>None\<close> means that all of them were taken, in which case the code never returns.
\<close>

section \<open>Definitions\<close>

definition MAX_UDP_FLOWS :: nat where "MAX_UDP_FLOWS = 1024"
definition UDP_FLOW_IDLE_SECS :: nat where "UDP_FLOW_IDLE_SECS = 60"

record four_tuple =
  src_ip :: u32
  src_port :: u16
  dst_ip :: u32
  dst_port :: u16

record flow_entry =
  fe_tuple :: four_tuple
  fe_last_activity :: nat

definition app_endpoint :: "flow_entry \<Rightarrow> u32 \<times> u16" where
  "app_endpoint e = (src_ip (fe_tuple e), src_port (fe_tuple e))"

definition target_src :: "flow_entry \<Rightarrow> u32 \<times> u16" where
  "target_src e = (dst_ip (fe_tuple e), dst_port (fe_tuple e))"

record assoc_table =
  tuple_to_id :: "(four_tuple, u16) fmap"
  id_to_entry :: "(u16, flow_entry) fmap"
  id_to_fake_ip :: "(u16, u32) fmap"
  reclaimed_fake_ips :: "u32 list"
  next_id :: u16
  at_cap :: nat

definition assoc_with_cap :: "nat \<Rightarrow> assoc_table" where
  "assoc_with_cap cap =
     \<lparr> tuple_to_id = fmempty, id_to_entry = fmempty, id_to_fake_ip = fmempty, reclaimed_fake_ips = [],
       next_id = 1, at_cap = min (max cap 1) 65535 \<rparr>"

definition assoc_new :: assoc_table where
  "assoc_new = assoc_with_cap MAX_UDP_FLOWS"

definition set_fake_ip :: "u16 \<Rightarrow> u32 \<Rightarrow> assoc_table \<Rightarrow> assoc_table" where
  "set_fake_ip assoc_id ip t = t\<lparr> id_to_fake_ip := fmupd assoc_id ip (id_to_fake_ip t) \<rparr>"

definition take_reclaimed_fake_ips :: "assoc_table \<Rightarrow> u32 list \<times> assoc_table" where
  "take_reclaimed_fake_ips t = (reclaimed_fake_ips t, t\<lparr> reclaimed_fake_ips := [] \<rparr>)"

definition note_reclaimed :: "u16 \<Rightarrow> assoc_table \<Rightarrow> assoc_table" where
  "note_reclaimed assoc_id t =
     (case fmlookup (id_to_fake_ip t) assoc_id of
        Some ip \<Rightarrow> t\<lparr> id_to_fake_ip := fmdrop assoc_id (id_to_fake_ip t),
                      reclaimed_fake_ips := reclaimed_fake_ips t @ [ip] \<rparr>
      | None \<Rightarrow> t)"

definition evict_lru :: "assoc_table \<Rightarrow> assoc_table" where
  "evict_lru t =
     (case oldest fe_last_activity (id_to_entry t) of
        None \<Rightarrow> t
      | Some i \<Rightarrow>
          (case fmlookup (id_to_entry t) i of
             None \<Rightarrow> t
           | Some e \<Rightarrow>
               note_reclaimed i
                 (t\<lparr> id_to_entry := fmdrop i (id_to_entry t),
                     tuple_to_id := fmdrop (fe_tuple e) (tuple_to_id t) \<rparr>)))"

definition next_assoc :: "u16 \<Rightarrow> u16" where
  "next_assoc i = (let n = i + 1 in if n = 0 then 1 else n)"

fun alloc_loop :: "nat \<Rightarrow> assoc_table \<Rightarrow> (u16 \<times> assoc_table) option" where
  "alloc_loop n t =
     (if n = 0 then None
      else let i = next_id t; t' = t\<lparr> next_id := next_assoc i \<rparr>
           in if fmlookup (id_to_entry t') i = None then Some (i, t') else alloc_loop (n - 1) t')"

declare alloc_loop.simps [simp del]

definition alloc_id :: "assoc_table \<Rightarrow> (u16 \<times> assoc_table) option" where
  "alloc_id t = alloc_loop 65535 t"

definition intern :: "four_tuple \<Rightarrow> assoc_table \<Rightarrow> (u16 \<times> assoc_table) option" where
  "intern tuple t =
     (case fmlookup (tuple_to_id t) tuple of
        Some i \<Rightarrow> Some (i, t)
      | None \<Rightarrow>
          do { let t1 = (if fcard (fmdom (id_to_entry t)) \<ge> at_cap t then evict_lru t else t);
               (i, t2) \<leftarrow> alloc_id t1;
               Some (i, t2\<lparr> id_to_entry := fmupd i \<lparr> fe_tuple = tuple, fe_last_activity = 0 \<rparr> (id_to_entry t2),
                            tuple_to_id := fmupd tuple i (tuple_to_id t2) \<rparr>) })"

definition assoc_resolve :: "u16 \<Rightarrow> assoc_table \<Rightarrow> flow_entry option" where
  "assoc_resolve assoc_id t = fmlookup (id_to_entry t) assoc_id"

definition assoc_contains :: "four_tuple \<Rightarrow> assoc_table \<Rightarrow> bool" where
  "assoc_contains tuple t \<longleftrightarrow> fmlookup (tuple_to_id t) tuple \<noteq> None"

definition touch :: "u16 \<Rightarrow> nat \<Rightarrow> assoc_table \<Rightarrow> assoc_table" where
  "touch assoc_id now t =
     (case fmlookup (id_to_entry t) assoc_id of
        Some e \<Rightarrow> t\<lparr> id_to_entry := fmupd assoc_id (e\<lparr> fe_last_activity := now \<rparr>) (id_to_entry t) \<rparr>
      | None \<Rightarrow> t)"

definition expired_flows :: "nat \<Rightarrow> nat \<Rightarrow> assoc_table \<Rightarrow> (u16 \<times> four_tuple) list" where
  "expired_flows now idle t =
     map (\<lambda>i. (i, fe_tuple (the (fmlookup (id_to_entry t) i))))
       (filter (\<lambda>i. now - fe_last_activity (the (fmlookup (id_to_entry t) i)) > idle)
         (sorted_list_of_fset (fmdom (id_to_entry t))))"

text \<open>The body of the loop over the expired flows; the list collects the fake addresses they held.\<close>

definition reclaim_flow :: "u16 \<times> four_tuple \<Rightarrow> u32 list \<times> assoc_table \<Rightarrow> u32 list \<times> assoc_table" where
  "reclaim_flow it acc =
     (let (i, tuple) = it; (reclaimed, t) = acc;
          t' = t\<lparr> id_to_entry := fmdrop i (id_to_entry t), tuple_to_id := fmdrop tuple (tuple_to_id t) \<rparr>
      in case fmlookup (id_to_fake_ip t') i of
           Some ip \<Rightarrow> (reclaimed @ [ip], t'\<lparr> id_to_fake_ip := fmdrop i (id_to_fake_ip t') \<rparr>)
         | None \<Rightarrow> (reclaimed, t'))"

definition assoc_sweep :: "nat \<Rightarrow> nat \<Rightarrow> assoc_table \<Rightarrow> u32 list \<times> assoc_table" where
  "assoc_sweep now idle t = fold reclaim_flow (expired_flows now idle t) ([], t)"

section \<open>The invariant\<close>

definition assoc_inv :: "assoc_table \<Rightarrow> bool" where
  "assoc_inv t \<longleftrightarrow>
     bi_agree fe_tuple (tuple_to_id t) (id_to_entry t) \<and>
     fmlookup (id_to_entry t) 0 = None \<and> next_id t \<noteq> 0 \<and>
     1 \<le> at_cap t \<and> at_cap t \<le> 65535 \<and> fcard (fmdom (id_to_entry t)) \<le> at_cap t \<and>
     fmdom (id_to_fake_ip t) |\<subseteq>| fmdom (id_to_entry t)"

interpretation assoc_index: two_way_table tuple_to_id id_to_entry fe_tuple assoc_inv
  by unfold_locales (simp add: assoc_inv_def)

lemma assoc_with_cap_inv: "assoc_inv (assoc_with_cap c)"
  by (simp add: assoc_inv_def assoc_with_cap_def)

definition id_pos :: "u16 \<Rightarrow> nat" where
  "id_pos i = unat i - 1"

interpretation id_cursor: cyclic_cursor next_assoc id_pos 65535 "\<lambda>i. i \<noteq> 0"
proof
  fix i :: u16 assume i: "i \<noteq> 0"
  then have pos: "0 < unat i" by (simp add: unat_gt_0)
  show "id_pos i < 65535" using pos unat_u16_less [of i] unfolding id_pos_def by linarith
  show "next_assoc i \<noteq> 0" by (simp add: next_assoc_def Let_def)
  show "id_pos (next_assoc i) = (id_pos i + 1) mod 65535"
  proof (cases "unat i = 65535")
    case True
    then have "i + 1 = 0" by (simp add: word_unat_eq_iff unat_word_ariths)
    then show ?thesis using True by (simp add: next_assoc_def id_pos_def)
  next
    case False
    then have lt: "unat i < 65535" using unat_u16_less [of i] by linarith
    then have u: "unat (i + 1) = unat i + 1" by (subst unat_add_lem [THEN iffD1]) simp_all
    then have "i + 1 \<noteq> 0" by (metis add_is_0 unat_0 zero_neq_one)
    then show ?thesis using u pos lt by (simp add: next_assoc_def id_pos_def Let_def)
  qed
next
  fix i j :: u16 assume "i \<noteq> 0" "j \<noteq> 0" "id_pos i = id_pos j"
  then have "unat i = unat j" by (simp add: id_pos_def unat_gt_0 [symmetric] Suc_pred)
  then show "i = j" by (simp add: word_unat_eq_iff)
qed

section \<open>Allocation of ids\<close>

lemma alloc_loop_Some:
  "alloc_loop n t = Some (i, t') \<Longrightarrow> next_id t \<noteq> 0 \<Longrightarrow>
   i \<noteq> 0 \<and> fmlookup (id_to_entry t) i = None \<and> (\<exists>c. c \<noteq> 0 \<and> t' = t\<lparr> next_id := c \<rparr>)"
proof (induction n t rule: alloc_loop.induct)
  case (1 n t)
  have c: "next_assoc (next_id t) \<noteq> 0" by (simp add: next_assoc_def Let_def)
  show ?case
  proof (cases "fmlookup (id_to_entry t) (next_id t) = None")
    case True
    with "1.prems" c show ?thesis by (auto simp: alloc_loop.simps [of n] Let_def split: if_splits)
  next
    case False
    with "1.prems"(1) have "n \<noteq> 0"
      "alloc_loop (n - 1) (t\<lparr> next_id := next_assoc (next_id t) \<rparr>) = Some (i, t')"
      by (auto simp: alloc_loop.simps [of n] Let_def split: if_splits)
    with "1.IH" False c show ?thesis by auto
  qed
qed

lemma alloc_loop_None:
  "alloc_loop n t = None \<Longrightarrow> j < n \<Longrightarrow> fmlookup (id_to_entry t) ((next_assoc ^^ j) (next_id t)) \<noteq> None"
proof (induction n t arbitrary: j rule: alloc_loop.induct)
  case (1 n t)
  from "1.prems" have taken: "fmlookup (id_to_entry t) (next_id t) \<noteq> None" and n: "n \<noteq> 0"
    and rest: "alloc_loop (n - 1) (t\<lparr> next_id := next_assoc (next_id t) \<rparr>) = None"
    by (auto simp: alloc_loop.simps [of n] Let_def split: if_splits)
  show ?case
  proof (cases j)
    case 0
    with taken show ?thesis by simp
  next
    case (Suc k)
    with "1.IH" [OF n refl refl _ rest, of k] taken "1.prems"(2) show ?thesis
      by (simp add: funpow_swap1)
  qed
qed

text \<open>Below the cap there is a free id, and the loop finds it.\<close>

lemma alloc_id_returns:
  assumes "next_id t \<noteq> 0" "fmlookup (id_to_entry t) 0 = None" "fcard (fmdom (id_to_entry t)) < 65535"
  shows "\<exists>i t'. alloc_id t = Some (i, t')"
proof (rule ccontr)
  assume "\<not> ?thesis"
  then have none: "alloc_loop 65535 t = None" by (cases "alloc_loop 65535 t") (auto simp: alloc_id_def)
  have "fmlookup (id_to_entry t) i \<noteq> None" if i: "i \<noteq> 0" for i
  proof -
    obtain j where "j < 65535" "(next_assoc ^^ j) (next_id t) = i"
      using id_cursor.orbit_onto [OF assms(1) i] by blast
    with alloc_loop_None [OF none] show ?thesis by blast
  qed
  then have "fset (fmdom (id_to_entry t)) = UNIV - {0}"
    using assms(2) by (auto simp: fmdom_member_iff simp del: not_None_eq)
  then have "fcard (fmdom (id_to_entry t)) = CARD(u16) - 1"
    by (simp add: fcard.rep_eq card_Diff_singleton)
  then show False using assms(3) by (simp add: card_word)
qed

section \<open>The operations keep the invariant\<close>

lemma note_reclaimed_fields [simp]:
  "tuple_to_id (note_reclaimed i t) = tuple_to_id t" "id_to_entry (note_reclaimed i t) = id_to_entry t"
  "next_id (note_reclaimed i t) = next_id t" "at_cap (note_reclaimed i t) = at_cap t"
  "id_to_fake_ip (note_reclaimed i t) = fmdrop i (id_to_fake_ip t)"
  by (auto simp: note_reclaimed_def fmdrop_absent split: option.split)

lemma evict_lru_inv:
  assumes "assoc_inv t"
  shows "assoc_inv (evict_lru t)"
    "fmdom (id_to_entry t) \<noteq> {||} \<Longrightarrow> Suc (fcard (fmdom (id_to_entry (evict_lru t)))) = fcard (fmdom (id_to_entry t))"
    "at_cap (evict_lru t) = at_cap t"
    "fmlookup (tuple_to_id t) tp = None \<Longrightarrow> fmlookup (tuple_to_id (evict_lru t)) tp = None"
proof -
  show "at_cap (evict_lru t) = at_cap t"
    "fmlookup (tuple_to_id t) tp = None \<Longrightarrow> fmlookup (tuple_to_id (evict_lru t)) tp = None"
    by (auto simp: evict_lru_def split: option.split)
  have *: "assoc_inv (evict_lru t) \<and> (fmdom (id_to_entry t) \<noteq> {||} \<longrightarrow>
      Suc (fcard (fmdom (id_to_entry (evict_lru t)))) = fcard (fmdom (id_to_entry t)))"
  proof (cases "oldest fe_last_activity (id_to_entry t)")
    case None
    with assms oldest_None show ?thesis by (auto simp: evict_lru_def)
  next
    case (Some i)
    then obtain e where e: "fmlookup (id_to_entry t) i = Some e" using oldest_lookup by fastforce
    have ev: "evict_lru t = note_reclaimed i (t\<lparr> id_to_entry := fmdrop i (id_to_entry t),
        tuple_to_id := fmdrop (fe_tuple e) (tuple_to_id t) \<rparr>)"
      using Some e by (simp add: evict_lru_def)
    have "i \<in> fset (fmdom (id_to_entry t))" using e by (simp add: fmdom_member_iff)
    from card_Suc_Diff1 [OF finite_fset this]
    have c: "Suc (fcard (fmdom (fmdrop i (id_to_entry t)))) = fcard (fmdom (id_to_entry t))"
      by (simp add: fcard.rep_eq)
    show ?thesis
      using assms c bi_agree_remove [OF _ e, of fe_tuple "tuple_to_id t"]
      unfolding ev assoc_inv_def by (auto simp del: fmdom_drop) auto
  qed
  then show "assoc_inv (evict_lru t)"
    "fmdom (id_to_entry t) \<noteq> {||} \<Longrightarrow> Suc (fcard (fmdom (id_to_entry (evict_lru t)))) = fcard (fmdom (id_to_entry t))"
    by auto
qed

text \<open>The table in which \<open>intern\<close> looks for a new id.\<close>

definition make_room :: "assoc_table \<Rightarrow> assoc_table" where
  "make_room t = (if fcard (fmdom (id_to_entry t)) \<ge> at_cap t then evict_lru t else t)"

lemma make_room_inv:
  assumes "assoc_inv t"
  shows "assoc_inv (make_room t)" "fcard (fmdom (id_to_entry (make_room t))) < at_cap t"
    "at_cap (make_room t) = at_cap t"
    "fmlookup (tuple_to_id t) tp = None \<Longrightarrow> fmlookup (tuple_to_id (make_room t)) tp = None"
proof -
  note ev = evict_lru_inv [OF assms]
  have cap: "1 \<le> at_cap t" "fcard (fmdom (id_to_entry t)) \<le> at_cap t" using assms by (auto simp: assoc_inv_def)
  show "assoc_inv (make_room t)" "at_cap (make_room t) = at_cap t"
    using assms ev by (auto simp: make_room_def)
  show "fmlookup (tuple_to_id (make_room t)) tp = None" if "fmlookup (tuple_to_id t) tp = None"
    using that ev(4) by (simp add: make_room_def)
  show "fcard (fmdom (id_to_entry (make_room t))) < at_cap t"
  proof (cases "fcard (fmdom (id_to_entry t)) \<ge> at_cap t")
    case True
    then have "fmdom (id_to_entry t) \<noteq> {||}" using cap(1) by auto
    from ev(2) [OF this] True cap show ?thesis by (simp add: make_room_def)
  next
    case False
    then show ?thesis by (simp add: make_room_def)
  qed
qed

lemma intern_new:
  assumes "assoc_inv t" "fmlookup (tuple_to_id t) tuple = None"
  shows "\<exists>i c. i \<noteq> 0 \<and> c \<noteq> 0 \<and> fmlookup (id_to_entry (make_room t)) i = None \<and>
    intern tuple t = Some (i, (make_room t)\<lparr> next_id := c,
      id_to_entry := fmupd i \<lparr> fe_tuple = tuple, fe_last_activity = 0 \<rparr> (id_to_entry (make_room t)),
      tuple_to_id := fmupd tuple i (tuple_to_id (make_room t)) \<rparr>)"
proof -
  note room = make_room_inv [OF assms(1)]
  have t: "next_id (make_room t) \<noteq> 0" "fmlookup (id_to_entry (make_room t)) 0 = None"
    "fcard (fmdom (id_to_entry (make_room t))) < 65535"
    using room(1,2) assms(1) by (auto simp: assoc_inv_def)
  then obtain i t' where a: "alloc_id (make_room t) = Some (i, t')" using alloc_id_returns by blast
  from alloc_loop_Some [OF a [unfolded alloc_id_def] t(1)]
  obtain c where "i \<noteq> 0" "fmlookup (id_to_entry (make_room t)) i = None" "c \<noteq> 0"
    "t' = (make_room t)\<lparr> next_id := c \<rparr>" by blast
  with a assms(2) show ?thesis
    by (intro exI [of _ i] exI [of _ c]) (simp add: intern_def make_room_def Let_def)
qed

lemma intern_inv:
  assumes "assoc_inv t" "intern tuple t = Some (i, t')"
  shows "assoc_inv t'" "fmlookup (tuple_to_id t') tuple = Some i" "i \<noteq> 0"
proof -
  have "assoc_inv t' \<and> fmlookup (tuple_to_id t') tuple = Some i \<and> i \<noteq> 0"
  proof (cases "fmlookup (tuple_to_id t) tuple")
    case (Some j)
    with assms assoc_index.fwd_bwd [OF assms(1) Some] show ?thesis
      by (auto simp: intern_def assoc_inv_def)
  next
    case None
    from intern_new [OF assms(1) None] assms(2)
    obtain c where c: "i \<noteq> 0" "c \<noteq> 0" "fmlookup (id_to_entry (make_room t)) i = None"
      "t' = (make_room t)\<lparr> next_id := c,
        id_to_entry := fmupd i \<lparr> fe_tuple = tuple, fe_last_activity = 0 \<rparr> (id_to_entry (make_room t)),
        tuple_to_id := fmupd tuple i (tuple_to_id (make_room t)) \<rparr>" by auto
    note room = make_room_inv [OF assms(1)]
    have "fcard (fmdom (fmupd i \<lparr> fe_tuple = tuple, fe_last_activity = 0 \<rparr> (id_to_entry (make_room t)))) \<le> at_cap t"
      unfolding fcard_fmdom_fmupd using room(2) c(3) by simp
    moreover have "bi_agree fe_tuple (fmupd tuple i (tuple_to_id (make_room t)))
        (fmupd i \<lparr> fe_tuple = tuple, fe_last_activity = 0 \<rparr> (id_to_entry (make_room t)))"
      using bi_agree_insert [of fe_tuple "tuple_to_id (make_room t)" "id_to_entry (make_room t)"
          "\<lparr> fe_tuple = tuple, fe_last_activity = 0 \<rparr>" i] room(1) room(4) [OF None] c(3)
      by (simp add: assoc_inv_def)
    ultimately show ?thesis
      using room(1,3) c(1,2) unfolding c(4) assoc_inv_def by (auto simp del: fmdom_fmupd) auto
  qed
  then show "assoc_inv t'" "fmlookup (tuple_to_id t') tuple = Some i" "i \<noteq> 0" by auto
qed

lemma touch_inv: "assoc_inv t \<Longrightarrow> assoc_inv (touch i now t)"
  by (auto simp: touch_def assoc_inv_def fcard_fmdom_fmupd simp del: fmdom_fmupd
      intro!: bi_agree_update split: option.split) auto

lemma set_fake_ip_inv:
  "assoc_inv t \<Longrightarrow> fmlookup (id_to_entry t) i \<noteq> None \<Longrightarrow> assoc_inv (set_fake_ip i ip t)"
  by (auto simp: assoc_inv_def set_fake_ip_def fmdom_member_iff)

lemma reclaim_flow_step:
  assumes "assoc_inv t" "fmlookup (id_to_entry t) i = Some e"
  shows "\<exists>t'. reclaim_flow (i, fe_tuple e) (r, t) =
      (r @ (case fmlookup (id_to_fake_ip t) i of Some ip \<Rightarrow> [ip] | None \<Rightarrow> []), t') \<and>
    assoc_inv t' \<and> id_to_entry t' = fmdrop i (id_to_entry t) \<and>
    id_to_fake_ip t' = fmdrop i (id_to_fake_ip t) \<and> reclaimed_fake_ips t' = reclaimed_fake_ips t \<and>
    tuple_to_id t' = fmdrop (fe_tuple e) (tuple_to_id t) \<and> next_id t' = next_id t \<and> at_cap t' = at_cap t"
proof -
  let ?t = "t\<lparr> id_to_entry := fmdrop i (id_to_entry t), tuple_to_id := fmdrop (fe_tuple e) (tuple_to_id t),
    id_to_fake_ip := fmdrop i (id_to_fake_ip t) \<rparr>"
  have "fcard (fmdom (fmdrop i (id_to_entry t))) \<le> fcard (fmdom (id_to_entry t))"
    unfolding fcard_fmdom_fmdrop by simp
  then have inv: "assoc_inv ?t"
    using assms(1) bi_agree_remove [OF _ assms(2), of fe_tuple "tuple_to_id t"]
    unfolding assoc_inv_def by (auto simp del: fmdom_drop) auto
  show ?thesis
  proof (cases "fmlookup (id_to_fake_ip t) i")
    case None
    then have "?t = t\<lparr> id_to_entry := fmdrop i (id_to_entry t), tuple_to_id := fmdrop (fe_tuple e) (tuple_to_id t) \<rparr>"
      by (simp add: fmdrop_absent)
    with inv None show ?thesis
      by (intro exI [of _ ?t]) (simp add: reclaim_flow_def Let_def fmdrop_absent)
  next
    case (Some ip)
    with inv show ?thesis by (intro exI [of _ ?t]) (simp add: reclaim_flow_def Let_def)
  qed
qed

lemma fold_reclaim:
  assumes "assoc_inv t" "\<forall>(i, tp)\<in>set its. \<exists>e. fmlookup (id_to_entry t) i = Some e \<and> fe_tuple e = tp"
    "distinct (map fst its)"
  shows "\<exists>ips t'. fold reclaim_flow its (r, t) = (r @ ips, t') \<and> assoc_inv t' \<and>
    (\<forall>j. fmlookup (id_to_entry t') j = (if j \<in> fst ` set its then None else fmlookup (id_to_entry t) j)) \<and>
    fm_values (id_to_fake_ip t) = mset ips + fm_values (id_to_fake_ip t') \<and>
    reclaimed_fake_ips t' = reclaimed_fake_ips t \<and> at_cap t' = at_cap t"
  using assms
proof (induction its arbitrary: t r)
  case Nil
  then show ?case by simp
next
  case (Cons it its)
  obtain i tp where it: "it = (i, tp)" by fastforce
  with Cons.prems(2) obtain e where e: "fmlookup (id_to_entry t) i = Some e" "fe_tuple e = tp" by auto
  let ?ip = "case fmlookup (id_to_fake_ip t) i of Some ip \<Rightarrow> [ip] | None \<Rightarrow> []"
  from reclaim_flow_step [OF Cons.prems(1) e(1), of r] obtain t1 where t1:
    "reclaim_flow (i, tp) (r, t) = (r @ ?ip, t1)" "assoc_inv t1"
    "id_to_entry t1 = fmdrop i (id_to_entry t)" "id_to_fake_ip t1 = fmdrop i (id_to_fake_ip t)"
    "reclaimed_fake_ips t1 = reclaimed_fake_ips t" "at_cap t1 = at_cap t" using e(2) by blast
  have "\<forall>(j, tq)\<in>set its. \<exists>e. fmlookup (id_to_entry t1) j = Some e \<and> fe_tuple e = tq"
    using Cons.prems(2,3) it t1(3) by force
  from Cons.IH [OF t1(2) this, of "r @ ?ip"] Cons.prems(3) obtain ips t' where ih:
    "fold reclaim_flow its (r @ ?ip, t1) = ((r @ ?ip) @ ips, t')" "assoc_inv t'"
    "\<forall>j. fmlookup (id_to_entry t') j = (if j \<in> fst ` set its then None else fmlookup (id_to_entry t1) j)"
    "fm_values (id_to_fake_ip t1) = mset ips + fm_values (id_to_fake_ip t')"
    "reclaimed_fake_ips t' = reclaimed_fake_ips t1" "at_cap t' = at_cap t1" by auto
  have "fm_values (id_to_fake_ip t) = mset (?ip @ ips) + fm_values (id_to_fake_ip t')"
    using ih(4) fm_values_remove [of "id_to_fake_ip t" i] unfolding t1(4)
    by (cases "fmlookup (id_to_fake_ip t) i") (simp_all add: fmdrop_absent)
  with ih t1 it show ?case
    by (intro exI [of _ "?ip @ ips"] exI [of _ t']) auto
qed

lemma expired_flows_spec:
  "\<forall>(i, tp)\<in>set (expired_flows now idle t). \<exists>e. fmlookup (id_to_entry t) i = Some e \<and> fe_tuple e = tp"
  "distinct (map fst (expired_flows now idle t))"
  "fst ` set (expired_flows now idle t) =
     {i. \<exists>e. fmlookup (id_to_entry t) i = Some e \<and> idle < now - fe_last_activity e}"
  by (auto simp: expired_flows_def fmdom_member_iff comp_def image_iff)

lemma assoc_sweep_spec:
  assumes "assoc_inv t"
  shows "\<exists>ips t'. assoc_sweep now idle t = (ips, t') \<and> assoc_inv t' \<and>
    (\<forall>j. fmlookup (id_to_entry t') j =
       (case fmlookup (id_to_entry t) j of
          Some e \<Rightarrow> if idle < now - fe_last_activity e then None else Some e | None \<Rightarrow> None)) \<and>
    fm_values (id_to_fake_ip t) = mset ips + fm_values (id_to_fake_ip t') \<and>
    reclaimed_fake_ips t' = reclaimed_fake_ips t \<and> at_cap t' = at_cap t"
proof -
  from fold_reclaim [OF assms expired_flows_spec(1,2), of now idle "[]"]
  obtain ips t' where f: "assoc_sweep now idle t = (ips, t')" "assoc_inv t'"
    "\<forall>j. fmlookup (id_to_entry t') j =
      (if \<exists>e. fmlookup (id_to_entry t) j = Some e \<and> idle < now - fe_last_activity e then None
       else fmlookup (id_to_entry t) j)"
    "fm_values (id_to_fake_ip t) = mset ips + fm_values (id_to_fake_ip t')"
    "reclaimed_fake_ips t' = reclaimed_fake_ips t" "at_cap t' = at_cap t"
    unfolding assoc_sweep_def expired_flows_spec(3) by auto
  moreover have "\<forall>j. fmlookup (id_to_entry t') j =
      (case fmlookup (id_to_entry t) j of
         Some e \<Rightarrow> if idle < now - fe_last_activity e then None else Some e | None \<Rightarrow> None)"
    using f(3) by (auto split: option.split)
  ultimately show ?thesis by blast
qed

section \<open>The fake addresses a table holds\<close>

definition held :: "assoc_table \<Rightarrow> u32 multiset" where
  "held t = fm_values (id_to_fake_ip t) + mset (reclaimed_fake_ips t)"

lemma held_note_reclaimed: "held (note_reclaimed i t) = held t"
  using fm_values_remove [of "id_to_fake_ip t" i]
  by (auto simp: held_def note_reclaimed_def split: option.split)

lemma held_make_room: "held (make_room t) = held t"
  by (auto simp: make_room_def evict_lru_def held_note_reclaimed split: option.split)
    (simp add: held_def)

lemma held_intern:
  assumes "assoc_inv t" "intern tuple t = Some (i, t')"
  shows "held t' = held t"
proof (cases "fmlookup (tuple_to_id t) tuple")
  case None
  from intern_new [OF assms(1) None] assms(2) have "held t' = held (make_room t)"
    by (auto simp: held_def)
  then show ?thesis by (simp add: held_make_room)
qed (use assms in \<open>simp add: intern_def\<close>)

lemma held_touch [simp]: "held (touch i now t) = held t"
  by (auto simp: held_def touch_def split: option.split)

lemma held_set_fake_ip:
  "fmlookup (id_to_fake_ip t) i = None \<Longrightarrow> held (set_fake_ip i ip t) = add_mset ip (held t)"
  by (simp add: held_def set_fake_ip_def fm_values_insert)

lemma intern_fresh:
  assumes "assoc_inv t" "intern tuple t = Some (i, t')" "\<not> assoc_contains tuple t"
  shows "fmlookup (id_to_fake_ip t') i = None" "fmlookup (id_to_entry t') i \<noteq> None"
proof -
  from intern_new [OF assms(1), of tuple] assms(2,3)
  have i: "fmlookup (id_to_entry (make_room t)) i = None" "id_to_fake_ip t' = id_to_fake_ip (make_room t)"
    "fmlookup (id_to_entry t') i \<noteq> None"
    by (auto simp: assoc_contains_def)
  then have "i |\<notin>| fmdom (id_to_fake_ip (make_room t))"
    using make_room_inv(1) [OF assms(1)] by (auto simp: assoc_inv_def fmdom_member_iff)
  then show "fmlookup (id_to_fake_ip t') i = None" "fmlookup (id_to_entry t') i \<noteq> None"
    using i(2,3) by (auto simp: fmdom_member_iff)
qed

section \<open>Properties\<close>

text \<open>The tables the program can reach; a fake address is only attached to a registered flow.\<close>

inductive assoc_reach :: "assoc_table \<Rightarrow> bool" where
  assoc_reach_new: "assoc_reach (assoc_with_cap cap)"
| assoc_reach_intern: "assoc_reach t \<Longrightarrow> intern tp t = Some (i, t') \<Longrightarrow> assoc_reach t'"
| assoc_reach_touch: "assoc_reach t \<Longrightarrow> assoc_reach (touch i now t)"
| assoc_reach_fake: "assoc_reach t \<Longrightarrow> assoc_resolve i t \<noteq> None \<Longrightarrow> assoc_reach (set_fake_ip i ip t)"
| assoc_reach_sweep: "assoc_reach t \<Longrightarrow> assoc_reach (snd (assoc_sweep now idle t))"
| assoc_reach_take: "assoc_reach t \<Longrightarrow> assoc_reach (snd (take_reclaimed_fake_ips t))"

lemma assoc_reach_inv: "assoc_reach t \<Longrightarrow> assoc_inv t"
proof (induction rule: assoc_reach.induct)
  case (assoc_reach_sweep t now idle)
  with assoc_sweep_spec show ?case by (metis snd_conv)
qed (auto simp: assoc_with_cap_inv touch_inv assoc_resolve_def take_reclaimed_fake_ips_def
    intro: intern_inv(1) set_fake_ip_inv, simp add: assoc_inv_def)

text \<open>
  C31. The association table is a bijection at every reachable moment: asking for the id of a flow
  always returns, although the loop in the code has no bound of its own; the id is not zero, resolves
  to exactly this flow, and is returned again for it; and no two ids belong to the same flow.
\<close>

theorem intern_total:
  assumes "assoc_reach t"
  shows "(\<exists>i t'. intern tuple t = Some (i, t') \<and> i \<noteq> 0 \<and>
      map_option fe_tuple (assoc_resolve i t') = Some tuple \<and> intern tuple t' = Some (i, t') \<and>
      fcard (fmdom (id_to_entry t')) \<le> at_cap t') \<and>
    (assoc_resolve i t = Some e \<and> assoc_resolve j t = Some f \<and> fe_tuple e = fe_tuple f \<longrightarrow> i = j)"
proof -
  note inv = assoc_reach_inv [OF assms]
  obtain i t' where it: "intern tuple t = Some (i, t')"
  proof (cases "fmlookup (tuple_to_id t) tuple")
    case None
    with intern_new [OF inv, of tuple] that show ?thesis by blast
  qed (use that in \<open>simp add: intern_def\<close>)
  note r = intern_inv [OF inv it]
  from assoc_index.fwd_bwd [OF r(1,2)]
  have "map_option fe_tuple (assoc_resolve i t') = Some tuple" by (auto simp: assoc_resolve_def)
  moreover have "intern tuple t' = Some (i, t')" using r(2) by (simp add: intern_def)
  moreover have "fcard (fmdom (id_to_entry t')) \<le> at_cap t'" using r(1) by (simp add: assoc_inv_def)
  moreover have "assoc_resolve i t = Some e \<and> assoc_resolve j t = Some f \<and> fe_tuple e = fe_tuple f \<longrightarrow> i = j" for i j
    using assoc_index.bwd_inj [OF inv] by (auto simp: assoc_resolve_def)
  ultimately show ?thesis using it r(3) by blast
qed

theorem intern_total_witness:
  "\<exists>i t'. intern \<lparr> src_ip = 1, src_port = 2, dst_ip = 3, dst_port = 4 \<rparr> (assoc_with_cap 0) = Some (i, t') \<and> i \<noteq> 0"
  using intern_total [OF assoc_reach_new [of 0], of "\<lparr> src_ip = 1, src_port = 2, dst_ip = 3, dst_port = 4 \<rparr>"]
  by blast

text \<open>
  A new flow disturbs nobody while there is room; at the cap it costs exactly one flow, and that
  is a least recently used one, whose fake address, if it holds one, is queued to be released. No live
  flow is ever overwritten by the reuse of its id.
\<close>

lemma intern_evicts_lru:
  assumes "assoc_inv t" "\<not> assoc_contains tuple t" "intern tuple t = Some (i, t')"
  shows "if fcard (fmdom (id_to_entry t)) < at_cap t
    then assoc_resolve i t = None \<and>
      (\<forall>j. j \<noteq> i \<longrightarrow> assoc_resolve j t' = assoc_resolve j t) \<and> reclaimed_fake_ips t' = reclaimed_fake_ips t
    else \<exists>v e. assoc_resolve v t = Some e \<and>
      (\<forall>j f. assoc_resolve j t = Some f \<longrightarrow> fe_last_activity e \<le> fe_last_activity f) \<and>
      (\<forall>j. j \<noteq> i \<longrightarrow> assoc_resolve j t' = (if j = v then None else assoc_resolve j t)) \<and>
      (i = v \<or> assoc_resolve i t = None) \<and>
      reclaimed_fake_ips t' = reclaimed_fake_ips t @
        (case fmlookup (id_to_fake_ip t) v of Some ip \<Rightarrow> [ip] | None \<Rightarrow> [])"
proof -
  from intern_new [OF assms(1), of tuple] assms(2,3)
  obtain c where c: "fmlookup (id_to_entry (make_room t)) i = None"
    "t' = (make_room t)\<lparr> next_id := c,
      id_to_entry := fmupd i \<lparr> fe_tuple = tuple, fe_last_activity = 0 \<rparr> (id_to_entry (make_room t)),
      tuple_to_id := fmupd tuple i (tuple_to_id (make_room t)) \<rparr>"
    by (auto simp: assoc_contains_def)
  show ?thesis
  proof (cases "fcard (fmdom (id_to_entry t)) < at_cap t")
    case True
    then have "make_room t = t" by (simp add: make_room_def)
    with True c show ?thesis by (simp add: assoc_resolve_def)
  next
    case False
    then have "fmdom (id_to_entry t) \<noteq> {||}" using assms(1) by (auto simp: assoc_inv_def)
    then obtain v where v: "oldest fe_last_activity (id_to_entry t) = Some v"
      using oldest_None by (metis option.exhaust)
    then obtain e where e: "fmlookup (id_to_entry t) v = Some e" using oldest_lookup by fastforce
    have room: "make_room t = note_reclaimed v (t\<lparr> id_to_entry := fmdrop v (id_to_entry t),
        tuple_to_id := fmdrop (fe_tuple e) (tuple_to_id t) \<rparr>)"
      using False v e by (simp add: make_room_def evict_lru_def)
    have least: "\<forall>j f. assoc_resolve j t = Some f \<longrightarrow> fe_last_activity e \<le> fe_last_activity f"
      using oldest_Some(2) [OF v] e by (fastforce simp: assoc_resolve_def fmdom_member_iff)
    have rec: "reclaimed_fake_ips t' = reclaimed_fake_ips t @
        (case fmlookup (id_to_fake_ip t) v of Some ip \<Rightarrow> [ip] | None \<Rightarrow> [])"
      using c(2) room by (simp add: note_reclaimed_def split: option.split)
    have "(\<forall>j. j \<noteq> i \<longrightarrow> assoc_resolve j t' = (if j = v then None else assoc_resolve j t)) \<and>
        (i = v \<or> assoc_resolve i t = None)"
      using c by (auto simp: assoc_resolve_def room split: if_splits)
    with False e least rec show ?thesis unfolding assoc_resolve_def by (simp only: if_False) blast
  qed
qed

text \<open>A table with room for one flow, which holds a fake address, for the witnesses.\<close>

definition one_flow :: assoc_table where
  "one_flow = \<lparr> tuple_to_id = fmupd \<lparr> src_ip = 1, src_port = 2, dst_ip = 9, dst_port = 4 \<rparr> 1 fmempty,
     id_to_entry = fmupd 1 \<lparr> fe_tuple = \<lparr> src_ip = 1, src_port = 2, dst_ip = 9, dst_port = 4 \<rparr>, fe_last_activity = 5 \<rparr> fmempty,
     id_to_fake_ip = fmupd 1 9 fmempty, reclaimed_fake_ips = [], next_id = 2, at_cap = 1 \<rparr>"

lemma one_flow_inv: "assoc_inv one_flow"
  by (auto simp: assoc_inv_def one_flow_def bi_agree_def fcard.rep_eq)

text \<open>
  A sweep of the table removes exactly the flows that have been idle for longer than the limit,
  keeps the others as they are, and returns exactly the fake addresses the removed flows held, each as
  often as it was held: nothing is released twice and nothing leaks.
\<close>

lemma assoc_sweep_exact:
  assumes "assoc_inv t"
  shows "assoc_resolve j (snd (assoc_sweep now idle t)) =
      (case assoc_resolve j t of
         Some e \<Rightarrow> if idle < now - fe_last_activity e then None else Some e | None \<Rightarrow> None) \<and>
    held t = mset (fst (assoc_sweep now idle t)) + held (snd (assoc_sweep now idle t))"
proof -
  from assoc_sweep_spec [OF assms, of now idle] obtain ips t' where "assoc_sweep now idle t = (ips, t')"
    "\<forall>j. fmlookup (id_to_entry t') j = (case fmlookup (id_to_entry t) j of
       Some e \<Rightarrow> if idle < now - fe_last_activity e then None else Some e | None \<Rightarrow> None)"
    "fm_values (id_to_fake_ip t) = mset ips + fm_values (id_to_fake_ip t')"
    "reclaimed_fake_ips t' = reclaimed_fake_ips t" by blast
  then show ?thesis by (simp add: assoc_resolve_def held_def)
qed

end
