(* ===== verification/Crypto.thy ===== *)
theory Crypto
  imports Shared
begin

text \<open>
  The cryptographic primitives the REALITY code takes from other crates (\<^verbatim>\<open>aes-gcm\<close>, \<^verbatim>\<open>hkdf\<close>, \<^verbatim>\<open>hmac\<close>,
  \<^verbatim>\<open>sha2\<close>, \<^verbatim>\<open>x25519-dalek\<close>), as one record of functions that every definition using them takes as an
  argument, and what the code relies on of them as named conditions.
\<close>

record crypto =
  aes128_seal :: "bytes \<Rightarrow> bytes \<Rightarrow> bytes \<Rightarrow> bytes \<Rightarrow> bytes"
  aes128_open :: "bytes \<Rightarrow> bytes \<Rightarrow> bytes \<Rightarrow> bytes \<Rightarrow> bytes option"
  aes256_seal :: "bytes \<Rightarrow> bytes \<Rightarrow> bytes \<Rightarrow> bytes \<Rightarrow> bytes"
  aes256_open :: "bytes \<Rightarrow> bytes \<Rightarrow> bytes \<Rightarrow> bytes \<Rightarrow> bytes option"
  sha256 :: "bytes \<Rightarrow> bytes"
  hmac_sha256 :: "bytes \<Rightarrow> bytes \<Rightarrow> bytes"
  hmac_sha512 :: "bytes \<Rightarrow> bytes \<Rightarrow> bytes"
  hkdf_extract :: "bytes \<Rightarrow> bytes \<Rightarrow> bytes"
  hkdf_expand :: "bytes \<Rightarrow> bytes \<Rightarrow> nat \<Rightarrow> bytes"
  x25519_dh :: "bytes \<Rightarrow> bytes \<Rightarrow> bytes"

text \<open>The arguments of an AEAD are key, nonce, associated data and text; the tag is 16 bytes.\<close>

definition aead_correct :: "(bytes \<Rightarrow> bytes \<Rightarrow> bytes \<Rightarrow> bytes \<Rightarrow> bytes) \<Rightarrow>
    (bytes \<Rightarrow> bytes \<Rightarrow> bytes \<Rightarrow> bytes \<Rightarrow> bytes option) \<Rightarrow> bool" where
  "aead_correct enc dec \<longleftrightarrow>
     (\<forall>k n a m. dec k n a (enc k n a m) = Some m \<and> length (enc k n a m) = length m + 16)"

lemma aead_correctD:
  assumes "aead_correct enc dec"
  shows "dec k n a (enc k n a m) = Some m" "length (enc k n a m) = length m + 16"
  using assms by (auto simp: aead_correct_def)

text \<open>
  Functions of these types that satisfy the conditions, to evaluate the model on: a checksum-like tag
  that binds key, nonce and associated data, and folds for the hashes.
\<close>

definition mix :: "bytes \<Rightarrow> u8" where
  "mix b = fold (\<lambda>x acc. acc * 31 + x) b 7"

definition demo_tag :: "bytes \<Rightarrow> bytes \<Rightarrow> bytes \<Rightarrow> bytes \<Rightarrow> bytes" where
  "demo_tag k n a m = replicate 15 (mix (k @ n @ a)) @ [mix m]"

definition demo_seal :: "bytes \<Rightarrow> bytes \<Rightarrow> bytes \<Rightarrow> bytes \<Rightarrow> bytes" where
  "demo_seal k n a m = m @ demo_tag k n a m"

definition demo_open :: "bytes \<Rightarrow> bytes \<Rightarrow> bytes \<Rightarrow> bytes \<Rightarrow> bytes option" where
  "demo_open k n a c =
     (let m = take (length c - 16) c
      in if 16 \<le> length c \<and> drop (length c - 16) c = demo_tag k n a m then Some m else None)"

definition demo_hash :: "nat \<Rightarrow> bytes \<Rightarrow> bytes" where
  "demo_hash n b = map (\<lambda>i. mix (b @ [of_nat i])) [0..<n]"

definition demo_crypto :: crypto where
  "demo_crypto = \<lparr>
     aes128_seal = demo_seal, aes128_open = demo_open,
     aes256_seal = demo_seal, aes256_open = demo_open,
     sha256 = demo_hash 32, hmac_sha256 = (\<lambda>k m. demo_hash 32 (k @ m)),
     hmac_sha512 = (\<lambda>k m. demo_hash 64 (k @ m)), hkdf_extract = (\<lambda>s i. demo_hash 32 (s @ i)),
     hkdf_expand = (\<lambda>p i n. demo_hash n (p @ i)), x25519_dh = (\<lambda>s p. map2 (+) s p) \<rparr>"

lemma length_demo_tag [simp]: "length (demo_tag k n a m) = 16"
  by (simp add: demo_tag_def)

lemma demo_aead: "aead_correct demo_seal demo_open"
  by (auto simp: aead_correct_def demo_seal_def demo_open_def Let_def)

lemma demo_crypto_aead:
  "aead_correct (aes128_seal demo_crypto) (aes128_open demo_crypto)"
  "aead_correct (aes256_seal demo_crypto) (aes256_open demo_crypto)"
  using demo_aead by (simp_all add: demo_crypto_def)

end
