(* ===== verification/TlsWire.thy ===== *)
theory TlsWire
  imports Shared
begin

text \<open>
  The pieces of TLS wire format that the REALITY modules share: three-byte lengths (\<^verbatim>\<open>src/reality/cert.rs\<close>),
  length-prefixed vectors and extensions as \<^verbatim>\<open>src/reality/client_hello.rs\<close> writes them, and the walk over an
  extension block of \<^verbatim>\<open>src/reality/server_hello.rs\<close>.
\<close>

text \<open>Rust's \<open>?\<close> on a result, and \<open>ok_or_else\<close>.\<close>

fun and_then :: "'a result \<Rightarrow> ('a \<Rightarrow> 'b result) \<Rightarrow> 'b result" where
  "and_then (Inl e) f = Inl e"
| "and_then (Inr x) f = f x"

fun ok_or :: "'a option \<Rightarrow> string \<Rightarrow> 'a result" where
  "ok_or None m = Inl (Reality m)"
| "ok_or (Some x) m = Inr x"

lemma and_then_Inr: "and_then r f = Inr y \<longleftrightarrow> (\<exists>x. r = Inr x \<and> f x = Inr y)"
  by (cases r) auto

lemma ok_or_Inr: "ok_or x m = Inr y \<longleftrightarrow> x = Some y"
  by (cases x) auto

lemmas result_simps = and_then_Inr ok_or_Inr

section \<open>Three-byte lengths\<close>

definition u24 :: "bytes \<Rightarrow> nat" where
  "u24 b = unat (b ! 0) * 65536 + unat (b ! 1) * 256 + unat (b ! 2)"

definition be24 :: "nat \<Rightarrow> bytes" where
  "be24 len = [of_nat (len div 65536), of_nat (len div 256), of_nat len]"

lemma length_be24 [simp]: "length (be24 n) = 3"
  by (simp add: be24_def)

lemma unat_of_nat_u8: "unat (of_nat n :: u8) = n mod 256"
  by (simp add: unsigned_of_nat take_bit_eq_mod)

lemma u24_be24:
  assumes "n < 16777216"
  shows "u24 (be24 n) = n"
proof -
  have "n div 65536 mod 256 = n div 65536" using assms by simp
  moreover have "n div 256 mod 256 + 256 * (n div 65536) = n div 256"
    using mod_mult_div_eq [of "n div 256" 256] by (simp add: div_mult2_eq [symmetric])
  moreover have "n mod 256 + 256 * (n div 256) = n" by simp
  moreover have "u24 (be24 n) = (n div 65536 mod 256) * 65536 + (n div 256 mod 256) * 256 + n mod 256"
    by (simp add: u24_def be24_def unat_of_nat_u8)
  ultimately show ?thesis by linarith
qed

lemma u24_less: "u24 b < 16777216"
proof -
  have "unat (b ! 0) \<le> 255" "unat (b ! 1) \<le> 255" "unat (b ! 2) \<le> 255"
    using unat_u8_less [of "b ! 0"] unat_u8_less [of "b ! 1"] unat_u8_less [of "b ! 2"] by linarith+
  then show ?thesis by (simp add: u24_def)
qed

lemma be24_u24:
  assumes "length b = 3"
  shows "be24 (u24 b) = b"
proof -
  obtain x y z where b: "b = [x, y, z]" using assms by (auto simp: numeral_3_eq_3 length_Suc_conv)
  have xyz: "unat x < 256" "unat y < 256" "unat z < 256"
    using unat_u8_less [of x] unat_u8_less [of y] unat_u8_less [of z] by linarith+
  define q where "q = unat y + 256 * unat x"
  have u: "u24 b = unat z + 256 * q" by (simp add: b u24_def q_def)
  have "u24 b div 256 = q" "u24 b mod 256 = unat z" using xyz by (simp_all add: u)
  moreover have "q div 256 = unat x" "q mod 256 = unat y" using xyz by (simp_all add: q_def)
  moreover have "u24 b div 65536 = u24 b div 256 div 256" by (simp add: div_mult2_eq [symmetric])
  ultimately show ?thesis using xyz by (simp add: be24_def b word_unat_eq_iff unat_of_nat_u8)
qed

section \<open>Vectors and extensions\<close>

definition ext :: "u16 \<Rightarrow> bytes \<Rightarrow> bytes" where
  "ext typ body = be16 typ @ be16 (of_nat (length body)) @ body"

definition u16_vec :: "bytes \<Rightarrow> bytes" where
  "u16_vec body = be16 (of_nat (length body)) @ body"

definition u16s :: "u16 list \<Rightarrow> bytes" where
  "u16s values = concat (map be16 values)"

text \<open>The loop of \<open>find_ext\<close>, from offset \<open>i\<close>.\<close>

function find_ext_from :: "bytes \<Rightarrow> u16 \<Rightarrow> nat \<Rightarrow> bytes option" where
  "find_ext_from exts want i =
     (if i + 4 \<le> length exts
      then let t = from_be16 (exts ! i) (exts ! (i + 1));
               l = unat (from_be16 (exts ! (i + 2)) (exts ! (i + 3)))
           in case get_range exts (i + 4) (i + 4 + l) of
                None \<Rightarrow> None
              | Some body \<Rightarrow> if t = want then Some body else find_ext_from exts want (i + 4 + l)
      else None)"
  by pat_completeness auto
termination
  by (relation "measure (\<lambda>(exts, _, i). length exts - i)") auto

declare find_ext_from.simps [simp del]

definition find_ext :: "bytes \<Rightarrow> u16 \<Rightarrow> bytes option" where
  "find_ext exts want = find_ext_from exts want 0"

lemma length_u16_vec [simp]: "length (u16_vec b) = length b + 2"
  by (simp add: u16_vec_def)

lemma length_ext [simp]: "length (ext t b) = length b + 4"
  by (simp add: ext_def)

lemma length_u16s [simp]: "length (u16s vs) = 2 * length vs"
  by (induction vs) (simp_all add: u16s_def)

text \<open>An extension block written as a list of extensions is read back as that list.\<close>

definition ext_block :: "(u16 \<times> bytes) list \<Rightarrow> bytes" where
  "ext_block es = concat (map (\<lambda>(t, b). ext t b) es)"

lemma ext_block_simps [simp]:
  "ext_block [] = []" "ext_block ((t, b) # es) = ext t b @ ext_block es"
  by (simp_all add: ext_block_def)

lemma find_ext_from_block:
  assumes "\<forall>(t, b)\<in>set es. length b < 65536"
  shows "find_ext_from (pre @ ext_block es) want (length pre) = map_of es want"
  using assms
proof (induction es arbitrary: pre)
  case Nil
  then show ?case by (simp add: find_ext_from.simps)
next
  case (Cons e es)
  obtain t b where e: "e = (t, b)" by (cases e)
  let ?x = "pre @ ext t b @ ext_block es"
  have l: "unat (of_nat (length b) :: u16) = length b"
    using Cons.prems e by (intro unat_of_nat_small) simp
  have head: "from_be16 (?x ! length pre) (?x ! (length pre + 1)) = t"
    "from_be16 (?x ! (length pre + 2)) (?x ! (length pre + 3)) = of_nat (length b)"
    by (simp_all add: nth_append ext_def be16_def from_be16_be16 [unfolded be16_def])
  have body: "get_range ?x (length pre + 4) (length pre + 4 + length b) = Some b"
    using get_range_append [of "pre @ be16 t @ be16 (of_nat (length b))" b "ext_block es"]
    by (simp add: ext_def add.assoc)
  have guard: "length pre + 4 \<le> length ?x" by simp
  have "find_ext_from ?x want (length pre) =
      (if t = want then Some b else find_ext_from ?x want (length pre + 4 + length b))"
    by (subst find_ext_from.simps) (simp only: guard head l body Let_def if_True option.case)
  moreover have "find_ext_from ?x want (length pre + 4 + length b) = map_of es want"
    using Cons.IH [of "pre @ ext t b"] Cons.prems by (simp add: e add_ac)
  ultimately show ?case by (auto simp: e)
qed

lemma find_ext_block:
  "\<forall>(t, b)\<in>set es. length b < 65536 \<Longrightarrow> find_ext (ext_block es) want = map_of es want"
  using find_ext_from_block [of es "[]" want] by (simp add: find_ext_def)

end
