(* ===== verification/Auth.thy ===== *)
theory Auth
  imports Crypto TlsWire
begin

text \<open>
  REALITY authentication, \<^verbatim>\<open>src/reality/auth.rs\<close>: the authentication key, the plaintext hidden in the
  session id, its sealing, and the check of the server's temporary certificate. The random scalar of
  \<open>generate_ephemeral_keypair\<close> is an argument.
\<close>

definition REALITY_VERSION :: bytes where "REALITY_VERSION = [1, 8, 0, 0]"

definition x25519_shared_secret :: "crypto \<Rightarrow> bytes \<Rightarrow> bytes \<Rightarrow> bytes" where
  "x25519_shared_secret c my_secret peer_public = x25519_dh c my_secret peer_public"

definition generate_ephemeral_keypair :: "crypto \<Rightarrow> bytes \<Rightarrow> bytes \<times> bytes" where
  "generate_ephemeral_keypair c secret = (secret, x25519_dh c secret ((replicate 32 0)[0 := 9]))"

definition derive_auth_key :: "crypto \<Rightarrow> bytes \<Rightarrow> bytes \<Rightarrow> bytes" where
  "derive_auth_key c shared_secret client_random =
     hkdf_expand c (hkdf_extract c (take 20 client_random) shared_secret) (str ''REALITY'') 32"

record session_id_plaintext =
  si_version :: bytes
  si_timestamp :: u32
  si_short_id :: bytes

definition session_id_to_bytes :: "session_id_plaintext \<Rightarrow> bytes" where
  "session_id_to_bytes p = si_version p @ be32 (si_timestamp p) @ si_short_id p"

text \<open>\<open>u8::from_str_radix(s, 16)\<close>: an optional plus sign, then at least one digit, no overflow.\<close>

definition hex_digit :: "u8 \<Rightarrow> nat option" where
  "hex_digit b =
     (if 0x30 \<le> b \<and> b \<le> 0x39 then Some (unat b - 0x30)
      else if 0x61 \<le> b \<and> b \<le> 0x66 then Some (unat b - 0x57)
      else if 0x41 \<le> b \<and> b \<le> 0x46 then Some (unat b - 0x37)
      else None)"

fun hex_value :: "bytes \<Rightarrow> nat \<Rightarrow> nat option" where
  "hex_value [] acc = Some acc"
| "hex_value (b # bs) acc =
     (case hex_digit b of
        None \<Rightarrow> None
      | Some d \<Rightarrow> if acc * 16 + d > 255 then None else hex_value bs (acc * 16 + d))"

definition u8_from_str_radix16 :: "bytes \<Rightarrow> u8 option" where
  "u8_from_str_radix16 s =
     (if s = [] \<or> s = str ''+'' then None
      else map_option of_nat (hex_value (if hd s = 0x2b then tl s else s) 0))"

text \<open>\<open>chunks(2)\<close>.\<close>

fun chunks2 :: "bytes \<Rightarrow> bytes list" where
  "chunks2 [] = []"
| "chunks2 [a] = [[a]]"
| "chunks2 (a # b # r) = [a, b] # chunks2 r"

fun short_id_loop :: "bytes list \<Rightarrow> nat \<Rightarrow> bytes \<Rightarrow> bytes result" where
  "short_id_loop [] i out = Inr out"
| "short_id_loop (pair # rest) i out =
     (if \<not> valid_utf8 pair then Inl (Reality ''short_id byte'')
      else case u8_from_str_radix16 pair of
             None \<Rightarrow> Inl (Reality ''short_id not hex'')
           | Some b \<Rightarrow> short_id_loop rest (Suc i) (out[i := b]))"

definition parse_short_id :: "bytes \<Rightarrow> bytes result" where
  "parse_short_id hex =
     (if odd (length hex) then Inl (Reality ''short_id odd'')
      else if 16 < length hex then Inl (Reality ''short_id too long'')
      else short_id_loop (chunks2 hex) 0 (replicate 8 0))"

definition seal_session_id :: "crypto \<Rightarrow> bytes \<Rightarrow> bytes \<Rightarrow> bytes \<Rightarrow> bytes \<Rightarrow> bytes" where
  "seal_session_id c auth_key plaintext nonce aad = aes256_seal c auth_key nonce aad plaintext"

definition open_session_id :: "crypto \<Rightarrow> bytes \<Rightarrow> bytes \<Rightarrow> bytes \<Rightarrow> bytes \<Rightarrow> bytes option" where
  "open_session_id c auth_key sealed nonce aad =
     (case aes256_open c auth_key nonce aad sealed of
        None \<Rightarrow> None
      | Some pt \<Rightarrow> if length pt = 16 then Some pt else None)"

text \<open>\<open>verify_slice\<close> compares the whole tag, its length included.\<close>

definition verify_server_cert :: "crypto \<Rightarrow> bytes \<Rightarrow> bytes \<Rightarrow> bytes \<Rightarrow> bool" where
  "verify_server_cert c auth_key ed25519_pubkey signature =
     (hmac_sha512 c auth_key ed25519_pubkey = signature)"

section \<open>Properties\<close>

lemma length_session_id_to_bytes:
  "length (si_version p) = 4 \<Longrightarrow> length (si_short_id p) = 8 \<Longrightarrow> length (session_id_to_bytes p) = 16"
  by (simp add: session_id_to_bytes_def)

lemma session_id_fields:
  assumes "length (si_version p) = 4" "length (si_version q) = 4"
    "session_id_to_bytes p = session_id_to_bytes q"
  shows "si_version p = si_version q \<and> si_timestamp p = si_timestamp q \<and> si_short_id p = si_short_id q"
  using assms by (simp add: session_id_to_bytes_def be32_inj)

lemma open_seal_session_id:
  assumes "aead_correct (aes256_seal c) (aes256_open c)" "length pt = 16"
  shows "open_session_id c k (seal_session_id c k pt n a) n a = Some pt"
  using aead_correctD(1) [OF assms(1)] assms(2) by (simp add: open_session_id_def seal_session_id_def)

text \<open>A short id comes out as eight bytes, and lower-case hexadecimal is read back.\<close>

definition hex_char :: "nat \<Rightarrow> u8" where
  "hex_char d = (if d < 10 then of_nat (0x30 + d) else of_nat (0x57 + d))"

definition hex_of :: "bytes \<Rightarrow> bytes" where
  "hex_of b = concat (map (\<lambda>x. [hex_char (unat x div 16), hex_char (unat x mod 16)]) b)"

lemma unat_hex_char: "d < 16 \<Longrightarrow> unat (hex_char d) = (if d < 10 then 0x30 + d else 0x57 + d)"
  using unat_of_nat_u8 [of "0x30 + d"] unat_of_nat_u8 [of "0x57 + d"] by (simp add: hex_char_def)

lemma hex_char_cases:
  "d < 16 \<Longrightarrow> hex_digit (hex_char d) = Some d \<and> hex_char d < 0x80 \<and> hex_char d \<noteq> 0x2b"
  using unat_hex_char [of d]
  by (auto simp: hex_digit_def word_le_nat_alt word_less_nat_alt word_unat_eq_iff split: if_splits)

lemma nibbles_less: "unat (x :: u8) div 16 < 16" "unat (x :: u8) mod 16 < 16"
proof -
  have "unat x < 16 * 16" using unat_u8_less [of x] by linarith
  then show "unat x div 16 < 16" by (simp add: less_mult_imp_div_less)
qed simp

lemma from_str_radix16_pair:
  "u8_from_str_radix16 [hex_char (unat x div 16), hex_char (unat x mod 16)] = Some x"
proof -
  note d = nibbles_less [of x]
  have "unat x div 16 * 16 + unat x mod 16 = unat x" by simp
  moreover have "unat x \<le> 255" using unat_u8_less [of x] by linarith
  ultimately have "hex_value [hex_char (unat x div 16), hex_char (unat x mod 16)] 0 = Some (unat x)"
    using hex_char_cases [OF d(1)] hex_char_cases [OF d(2)] by simp
  with hex_char_cases [OF d(1)] show ?thesis by (simp add: u8_from_str_radix16_def str_def)
qed

lemma short_id_loop_hex:
  "i + length b \<le> length out \<Longrightarrow>
   short_id_loop (chunks2 (hex_of b)) i out = Inr (take i out @ b @ drop (i + length b) out)"
proof (induction b arbitrary: i out)
  case Nil
  then show ?case by (simp add: hex_of_def)
next
  case (Cons x b)
  let ?p = "[hex_char (unat x div 16), hex_char (unat x mod 16)]"
  have "valid_utf8 ?p"
    using hex_char_cases [OF nibbles_less(1)] hex_char_cases [OF nibbles_less(2)] by (simp add: valid_utf8_ascii)
  moreover have "chunks2 (hex_of (x # b)) = ?p # chunks2 (hex_of b)" by (simp add: hex_of_def)
  ultimately show ?case
    using Cons.IH [of "Suc i" "out[i := x]"] Cons.prems
    by (simp add: from_str_radix16_pair take_Suc_conv_app_nth)
qed

lemma parse_short_id_hex:
  assumes "length b \<le> 8"
  shows "parse_short_id (hex_of b) = Inr (b @ replicate (8 - length b) 0)"
proof -
  have "length (hex_of b) = 2 * length b" by (induction b) (simp_all add: hex_of_def)
  with assms short_id_loop_hex [of 0 b "replicate 8 0"] show ?thesis by (simp add: parse_short_id_def)
qed

text \<open>Not everything that is accepted is hexadecimal: a digit with a plus sign in front is, too.\<close>

lemma parse_short_id_plus: "parse_short_id (str ''+f'') = Inr (15 # replicate 7 0)"
  by code_simp

end
