(* ===== verification/KeySchedule.thy ===== *)
theory KeySchedule
  imports Crypto
begin

text \<open>
  The TLS 1.3 key schedule for SHA-256 and AES-128-GCM, \<^verbatim>\<open>src/reality/key_schedule.rs\<close>. Labels are
  strings without their \<^verbatim>\<open>tls13\<close> prefix, as at the call sites of the source.
\<close>

record hs_keys =
  handshake_secret :: bytes
  c_hs_secret :: bytes
  s_hs_secret :: bytes
  hs_client_key :: bytes
  hs_server_key :: bytes
  hs_client_iv :: bytes
  hs_server_iv :: bytes

record app_keys =
  c_ap_secret :: bytes
  s_ap_secret :: bytes
  ap_client_key :: bytes
  ap_server_key :: bytes
  ap_client_iv :: bytes
  ap_server_iv :: bytes

definition hkdf_label :: "u16 \<Rightarrow> string \<Rightarrow> bytes \<Rightarrow> bytes" where
  "hkdf_label len label ctx =
     (let full_label = str ''tls13 '' @ str label
      in be16 len @ [of_nat (length full_label)] @ full_label @ [of_nat (length ctx)] @ ctx)"

definition expand_label :: "crypto \<Rightarrow> bytes \<Rightarrow> string \<Rightarrow> bytes \<Rightarrow> nat \<Rightarrow> bytes" where
  "expand_label c secret label ctx len = hkdf_expand c secret (hkdf_label (of_nat len) label ctx) len"

definition derive_secret :: "crypto \<Rightarrow> bytes \<Rightarrow> string \<Rightarrow> bytes \<Rightarrow> bytes" where
  "derive_secret c secret label th = expand_label c secret label th 32"

definition extract_prk :: "crypto \<Rightarrow> bytes \<Rightarrow> bytes \<Rightarrow> bytes" where
  "extract_prk c salt ikm = hkdf_extract c salt ikm"

definition transcript_hash :: "crypto \<Rightarrow> bytes list \<Rightarrow> bytes" where
  "transcript_hash c msgs = sha256 c (concat msgs)"

definition compute_finished_verify_data :: "crypto \<Rightarrow> bytes \<Rightarrow> bytes \<Rightarrow> bytes" where
  "compute_finished_verify_data c base_secret th =
     (let finished_key = expand_label c base_secret ''finished'' [] 32
      in hmac_sha256 c finished_key th)"

definition derive_handshake_keys :: "crypto \<Rightarrow> bytes \<Rightarrow> bytes \<Rightarrow> bytes \<Rightarrow> hs_keys result" where
  "derive_handshake_keys c ecdhe client_hello server_hello =
     (if ecdhe = replicate 32 0 then Inl (Reality ''ECDHE all zero'')
      else
        let early = extract_prk c (replicate 32 0) (replicate 32 0);
            derived1 = derive_secret c early ''derived'' (transcript_hash c []);
            handshake = extract_prk c derived1 ecdhe;
            th = transcript_hash c [client_hello, server_hello];
            c_hs = derive_secret c handshake ''c hs traffic'' th;
            s_hs = derive_secret c handshake ''s hs traffic'' th
        in Inr \<lparr>
          handshake_secret = handshake,
          c_hs_secret = c_hs,
          s_hs_secret = s_hs,
          hs_client_key = expand_label c c_hs ''key'' [] 16,
          hs_server_key = expand_label c s_hs ''key'' [] 16,
          hs_client_iv = expand_label c c_hs ''iv'' [] 12,
          hs_server_iv = expand_label c s_hs ''iv'' [] 12 \<rparr>)"

definition derive_application_keys :: "crypto \<Rightarrow> bytes \<Rightarrow> bytes \<Rightarrow> app_keys" where
  "derive_application_keys c hs_secret transcript_ch_sfin =
     (let derived2 = derive_secret c hs_secret ''derived'' (transcript_hash c []);
          master = extract_prk c derived2 (replicate 32 0);
          c_ap = derive_secret c master ''c ap traffic'' transcript_ch_sfin;
          s_ap = derive_secret c master ''s ap traffic'' transcript_ch_sfin
      in \<lparr>
        c_ap_secret = c_ap,
        s_ap_secret = s_ap,
        ap_client_key = expand_label c c_ap ''key'' [] 16,
        ap_server_key = expand_label c s_ap ''key'' [] 16,
        ap_client_iv = expand_label c c_ap ''iv'' [] 12,
        ap_server_iv = expand_label c s_ap ''iv'' [] 12 \<rparr>)"

definition next_application_traffic_secret :: "crypto \<Rightarrow> bytes \<Rightarrow> bytes" where
  "next_application_traffic_secret c secret = expand_label c secret ''traffic upd'' [] 32"

section \<open>Properties\<close>

text \<open>What HKDF-Expand promises about the length of its output.\<close>

definition hkdf_sized :: "crypto \<Rightarrow> bool" where
  "hkdf_sized c \<longleftrightarrow> (\<forall>p i n. length (hkdf_expand c p i n) = n)"

lemma demo_hkdf_sized: "hkdf_sized demo_crypto"
  by (simp add: hkdf_sized_def demo_crypto_def demo_hash_def)

lemma key_lengths:
  assumes "hkdf_sized c" "derive_handshake_keys c e ch sh = Inr k"
  shows "length (hs_client_key k) = 16" "length (hs_server_key k) = 16"
    "length (hs_client_iv k) = 12" "length (hs_server_iv k) = 12"
  using assms by (auto simp: derive_handshake_keys_def expand_label_def hkdf_sized_def Let_def split: if_splits)

lemma app_key_lengths:
  assumes "hkdf_sized c"
  shows "length (ap_client_key (derive_application_keys c s t)) = 16"
    "length (ap_server_key (derive_application_keys c s t)) = 16"
    "length (ap_client_iv (derive_application_keys c s t)) = 12"
    "length (ap_server_iv (derive_application_keys c s t)) = 12"
  using assms by (simp_all add: derive_application_keys_def expand_label_def hkdf_sized_def Let_def)

lemma derive_handshake_keys_total:
  "(\<exists>k. derive_handshake_keys c e ch sh = Inr k) \<longleftrightarrow> e \<noteq> replicate 32 0"
  by (simp add: derive_handshake_keys_def Let_def)

text \<open>
  The info string of HKDF is an injective encoding of what it is derived for, as long as label and
  context fit their one-byte lengths: no two derivations from one secret share their info.
\<close>

lemma hkdf_label_inj:
  assumes "length l \<le> 249" "length l' \<le> 249" "length x \<le> 255" "length x' \<le> 255"
    "hkdf_label n l x = hkdf_label n' l' x'"
  shows "n = n' \<and> str l = str l' \<and> x = x'"
proof -
  have len: "unat (of_nat (6 + length k) :: u8) = 6 + length k" if "length k \<le> 249" for k :: string
    using that by (intro unat_of_nat_small) simp
  from assms(5) have n: "be16 n = be16 n'"
      and rest: "(of_nat (6 + length l) :: u8) = of_nat (6 + length l')"
        "str l @ [of_nat (length x)] @ x = str l' @ [of_nat (length x')] @ x'"
    by (auto simp: hkdf_label_def Let_def str_def)
  have "length l = length l'"
    using rest(1) len [OF assms(1)] len [OF assms(2)] by simp
  with rest(2) have "str l = str l' \<and> x = x'" by (simp add: str_def)
  with n show ?thesis by (simp add: be16_inj)
qed

end
