(* ===== verification/RecordLayer.thy ===== *)
theory RecordLayer
  imports Crypto
begin

text \<open>
  The TLS 1.3 record layer, \<^verbatim>\<open>src/reality/record.rs\<close>: one direction's keys with their sequence number,
  sealing and opening of a record. A sequence number that would wrap is a panic, the value
  \<^const>\<open>None\<close>.
\<close>

definition MAX_TLS_PLAINTEXT :: nat where "MAX_TLS_PLAINTEXT = 16384"
definition MAX_TLS_RECORD :: nat where "MAX_TLS_RECORD = 16640"

definition per_record_nonce :: "bytes \<Rightarrow> 64 word \<Rightarrow> bytes" where
  "per_record_nonce iv seq = take 4 iv @ map2 (\<lambda>n s. xor n s) (drop 4 iv) (octets 8 seq)"

definition record_header :: "u16 \<Rightarrow> bytes" where
  "record_header enc_len = [0x17, 0x03, 0x03] @ be16 enc_len"

record record_keys =
  rk_cipher :: bytes
  rk_iv :: bytes
  rk_seq :: "64 word"

definition record_keys_new :: "bytes \<Rightarrow> bytes \<Rightarrow> record_keys" where
  "record_keys_new key iv = \<lparr> rk_cipher = key, rk_iv = iv, rk_seq = 0 \<rparr>"

text \<open>\<open>seq.checked_add(1).expect(..)\<close>.\<close>

definition next_seq :: "record_keys \<Rightarrow> record_keys option" where
  "next_seq k = (if rk_seq k = -1 then None else Some (k\<lparr> rk_seq := rk_seq k + 1 \<rparr>))"

definition seal :: "crypto \<Rightarrow> u8 \<Rightarrow> bytes \<Rightarrow> record_keys \<Rightarrow> (bytes \<times> record_keys) option" where
  "seal c content_type content k =
     (let inner = content @ [content_type];
          enc_len = of_nat (length inner + 16) :: u16;
          header = record_header enc_len;
          nonce = per_record_nonce (rk_iv k) (rk_seq k);
          ct = aes128_seal c (rk_cipher k) nonce header inner
      in case next_seq k of None \<Rightarrow> None | Some k' \<Rightarrow> Some (header @ ct, k'))"

text \<open>The \<open>while inner.last() == Some(&0)\<close> loop followed by the final \<open>pop\<close>.\<close>

definition strip_padding :: "bytes \<Rightarrow> bytes" where
  "strip_padding inner = rev (dropWhile (\<lambda>b. b = 0) (rev inner))"

definition open_record :: "crypto \<Rightarrow> bytes \<Rightarrow> bytes \<Rightarrow> record_keys \<Rightarrow>
    ((u8 \<times> bytes) result \<times> record_keys) option" where
  "open_record c header encrypted_record k =
     (case aes128_open c (rk_cipher k) (per_record_nonce (rk_iv k) (rk_seq k)) header encrypted_record of
        None \<Rightarrow> Some (Inl (Reality ''record decrypt/auth failed''), k)
      | Some inner \<Rightarrow>
          (case next_seq k of
             None \<Rightarrow> None
           | Some k' \<Rightarrow>
               let inner = strip_padding inner
               in if inner = [] then Some (Inl (Reality ''record plaintext all zero''), k')
                  else Some (Inr (last inner, butlast inner), k')))"

section \<open>Properties\<close>

lemma length_record_header [simp]: "length (record_header n) = 5"
  by (simp add: record_header_def)

lemma length_per_record_nonce: "length iv = 12 \<Longrightarrow> length (per_record_nonce iv seq) = 12"
  by (simp add: per_record_nonce_def)

lemma xor_cancel: "xor y p = xor y q \<longleftrightarrow> p = (q :: u8)"
proof
  assume "xor y p = xor y q"
  then have "xor y (xor y p) = xor y (xor y q)" by simp
  then show "p = q" by (simp flip: xor.assoc)
qed simp

lemma map2_xor_inj:
  "length a = length x \<Longrightarrow> length b = length x \<Longrightarrow>
   map2 (\<lambda>n s. xor n s) x a = map2 (\<lambda>n s. xor n s) x b \<Longrightarrow> a = (b :: u8 list)"
proof (induction x arbitrary: a b)
  case (Cons y x)
  obtain p a' where a: "a = p # a'" using Cons.prems(1) by (cases a) auto
  obtain q b' where b: "b = q # b'" using Cons.prems(2) by (cases b) auto
  from Cons.prems Cons.IH [of a' b'] show ?case unfolding a b by (simp add: xor_cancel)
qed simp

lemma per_record_nonce_inj:
  assumes "length iv = 12" "per_record_nonce iv s = per_record_nonce iv t"
  shows "s = t"
proof -
  have "map2 (\<lambda>n s. xor n s) (drop 4 iv) (octets 8 s) = map2 (\<lambda>n s. xor n s) (drop 4 iv) (octets 8 t)"
    using assms(2) by (simp add: per_record_nonce_def)
  from map2_xor_inj [OF _ _ this] assms(1) have "octets 8 s = octets 8 t" by simp
  then show ?thesis by (subst (asm) octets_inj) simp_all
qed

lemma next_seq_Some:
  "next_seq k = Some k' \<longleftrightarrow> rk_seq k \<noteq> -1 \<and> k' = k\<lparr> rk_seq := rk_seq k + 1 \<rparr>"
  by (auto simp: next_seq_def)

lemma unat_next_seq:
  assumes "(s :: 64 word) \<noteq> -1"
  shows "unat (s + 1) = Suc (unat s)"
proof -
  have "1 + s \<noteq> 0" using assms eq_neg_iff_add_eq_0 [of s 1] by (simp add: add.commute)
  from unatSuc [OF this] show ?thesis by (simp add: add.commute)
qed

text \<open>Sealing and opening a sequence of records.\<close>

fun seal_all :: "crypto \<Rightarrow> (u8 \<times> bytes) list \<Rightarrow> record_keys \<Rightarrow> (bytes list \<times> record_keys) option" where
  "seal_all c [] k = Some ([], k)"
| "seal_all c ((ty, m) # ms) k =
     (case seal c ty m k of
        None \<Rightarrow> None
      | Some (r, k') \<Rightarrow> map_option (apfst ((#) r)) (seal_all c ms k'))"

fun open_all :: "crypto \<Rightarrow> bytes list \<Rightarrow> record_keys \<Rightarrow>
    ((u8 \<times> bytes) list result \<times> record_keys) option" where
  "open_all c [] k = Some (Inr [], k)"
| "open_all c (r # rs) k =
     (case open_record c (take 5 r) (drop 5 r) k of
        None \<Rightarrow> None
      | Some (Inl e, k') \<Rightarrow> Some (Inl e, k')
      | Some (Inr m, k') \<Rightarrow>
          (case open_all c rs k' of
             None \<Rightarrow> None
           | Some (Inl e, k2) \<Rightarrow> Some (Inl e, k2)
           | Some (Inr ms, k2) \<Rightarrow> Some (Inr (m # ms), k2)))"

lemma strip_padding_typed: "ty \<noteq> 0 \<Longrightarrow> strip_padding (m @ [ty] @ replicate n 0) = m @ [ty]"
  by (simp add: strip_padding_def dropWhile_append)

lemma open_seal:
  assumes "aead_correct (aes128_seal c) (aes128_open c)" "ty \<noteq> 0" "seal c ty m k = Some (r, k')"
  shows "open_record c (take 5 r) (drop 5 r) k = Some (Inr (ty, m), k')"
  using assms(3) aead_correctD(1) [OF assms(1)] strip_padding_typed [OF assms(2), of m 0]
  by (auto simp: seal_def open_record_def Let_def split: option.splits)

text \<open>
  Two ends that start from the same key, initialisation vector and sequence number stay in step:
  every sequence of records one of them seals, none with content type 0, the other opens in order,
  back to the same contents and types, and both end in the same state. The condition on the cipher is
  that it decrypts what it encrypted.
\<close>

lemma record_stream_roundtrip:
  assumes "aead_correct (aes128_seal c) (aes128_open c)" "\<forall>p\<in>set ms. fst p \<noteq> 0"
    "seal_all c ms k = Some (rs, k')"
  shows "open_all c rs k = Some (Inr ms, k')"
  using assms(2,3)
proof (induction ms arbitrary: k rs)
  case (Cons p ms)
  obtain ty m where p: "p = (ty, m)" by (cases p)
  from Cons.prems(2) obtain r k1 rs1 where s: "seal c ty m k = Some (r, k1)"
      and rest: "seal_all c ms k1 = Some (rs1, k')" and rs: "rs = r # rs1"
    unfolding p by (auto split: option.splits)
  have "open_record c (take 5 r) (drop 5 r) k = Some (Inr (ty, m), k1)"
    using open_seal [OF assms(1) _ s] Cons.prems(1) p by simp
  with Cons.IH [OF _ rest] Cons.prems(1) show ?case by (simp add: rs p)
qed simp

text \<open>The nonces a sequence of \<open>n\<close> seals starting from \<open>k\<close> uses.\<close>

definition nonces :: "record_keys \<Rightarrow> nat \<Rightarrow> bytes list" where
  "nonces k n = map (\<lambda>i. per_record_nonce (rk_iv k) (rk_seq k + of_nat i)) [0..<n]"

lemma seal_all_bound:
  "seal_all c ms k = Some (rs, k') \<Longrightarrow>
   unat (rk_seq k) + length ms < 2 ^ 64 \<and> length rs = length ms"
proof (induction ms arbitrary: k rs)
  case Nil
  then show ?case using unsigned_less [where w = "rk_seq k"] by simp
next
  case (Cons p ms)
  obtain ty m where p: "p = (ty, m)" by (cases p)
  from Cons.prems obtain r k1 rs1 where s: "seal c ty m k = Some (r, k1)"
      and rest: "seal_all c ms k1 = Some (rs1, k')" and rs: "rs = r # rs1"
    unfolding p by (auto split: option.splits)
  from s have "rk_seq k \<noteq> -1" "rk_seq k1 = rk_seq k + 1"
    by (auto simp: seal_def Let_def next_seq_Some split: option.splits)
  with Cons.IH [OF rest] show ?case by (simp add: rs unat_next_seq)
qed

lemma seal_all_nth:
  "seal_all c ms k = Some (rs, k') \<Longrightarrow> i < length ms \<Longrightarrow>
   drop 5 (rs ! i) = aes128_seal c (rk_cipher k) (nonces k (length ms) ! i) (take 5 (rs ! i))
     (snd (ms ! i) @ [fst (ms ! i)])"
proof (induction ms arbitrary: k rs i)
  case (Cons p ms)
  obtain ty m where p: "p = (ty, m)" by (cases p)
  from Cons.prems(1) obtain r k1 rs1 where s: "seal c ty m k = Some (r, k1)"
      and rest: "seal_all c ms k1 = Some (rs1, k')" and rs: "rs = r # rs1"
    unfolding p by (auto split: option.splits)
  from s have k1: "rk_cipher k1 = rk_cipher k" "rk_iv k1 = rk_iv k" "rk_seq k1 = rk_seq k + 1"
      and r: "drop 5 r = aes128_seal c (rk_cipher k) (per_record_nonce (rk_iv k) (rk_seq k)) (take 5 r) (m @ [ty])"
    by (auto simp: seal_def Let_def next_seq_Some split: option.splits)
  show ?case
  proof (cases i)
    case 0
    then show ?thesis by (simp add: rs p r nonces_def del: upt_Suc)
  next
    case (Suc j)
    then show ?thesis
      using Cons.IH [OF rest, of j] Cons.prems(2) k1
      by (simp add: rs nonces_def add.assoc del: upt_Suc)
  qed
qed simp

lemma distinct_nonces:
  assumes "length (rk_iv k) = 12" "unat (rk_seq k) + n < 2 ^ 64"
  shows "distinct (nonces k n)"
proof -
  have "inj_on (\<lambda>i. per_record_nonce (rk_iv k) (rk_seq k + of_nat i)) {0..<n}"
  proof (rule inj_onI)
    fix i j assume ij: "i \<in> {0..<n}" "j \<in> {0..<n}"
      and eq: "per_record_nonce (rk_iv k) (rk_seq k + of_nat i) = per_record_nonce (rk_iv k) (rk_seq k + of_nat j)"
    from per_record_nonce_inj [OF assms(1) eq] have "(of_nat i :: 64 word) = of_nat j" by simp
    then have "unat (of_nat i :: 64 word) = unat (of_nat j :: 64 word)" by simp
    moreover have "unat (of_nat i :: 64 word) = i" "unat (of_nat j :: 64 word) = j"
      using ij assms(2) by (auto intro!: unat_of_nat_small)
    ultimately show "i = j" by simp
  qed
  then show ?thesis by (simp add: nonces_def distinct_map)
qed

text \<open>
  C13. No nonce is used twice under one key: whatever is sealed after whatever, each record is encrypted
  under its own nonce, with its own header as the associated data; where the sequence number would wrap
  around to a nonce used before, sealing does not return at all.
\<close>

theorem nonce_never_reused:
  assumes "length (rk_iv k) = 12" "seal_all c ms k = Some (rs, k')"
  shows "distinct (nonces k (length ms)) \<and>
    (\<forall>i<length ms. drop 5 (rs ! i) = aes128_seal c (rk_cipher k) (nonces k (length ms) ! i)
       (take 5 (rs ! i)) (snd (ms ! i) @ [fst (ms ! i)]))"
  using distinct_nonces [OF assms(1)] seal_all_bound [OF assms(2)] seal_all_nth [OF assms(2)] by blast

theorem nonce_never_reused_witness:
  "distinct (nonces (record_keys_new (replicate 16 1) (replicate 12 2)) 2)"
proof -
  let ?k = "record_keys_new (replicate 16 1) (replicate 12 2)"
  let ?ms = "[(0x17, str ''ping''), (0x16, str ''ok'')]"
  obtain rs k' where s: "seal_all demo_crypto ?ms ?k = Some (rs, k')"
    by (simp add: seal_def Let_def record_keys_new_def next_seq_def)
  have "length (rk_iv ?k) = 12" by (simp add: record_keys_new_def)
  from nonce_never_reused [OF this s] show ?thesis by (simp add: numeral_2_eq_2)
qed

end
