(* ===== verification/ServerHello.thy ===== *)
theory ServerHello
  imports TlsWire
begin

text \<open>
  The ServerHello parser, \<^verbatim>\<open>src/reality/server_hello.rs\<close>, check by check in the order of the source, and
  the set of messages it accepts.
\<close>

definition HRR_RANDOM :: bytes where
  "HRR_RANDOM = [
    0xcf, 0x21, 0xad, 0x74, 0xe5, 0x9a, 0x61, 0x11, 0xbe, 0x1d, 0x8c, 0x02, 0x1e, 0x65, 0xb8, 0x91,
    0xc2, 0xa2, 0x11, 0x67, 0x7a, 0xbb, 0x8c, 0x5e, 0x07, 0x9e, 0x09, 0xe2, 0xc8, 0xa8, 0x33, 0x9c]"

record parsed_server_hello =
  ps_cipher_suite :: u16
  ps_server_key_share :: bytes

text \<open>A failed check.\<close>

definition require :: "bool \<Rightarrow> string \<Rightarrow> unit result" where
  "require b m = (if b then Inr () else Inl (Reality m))"

lemma require_Inr: "require b m = Inr u \<longleftrightarrow> b"
  by (simp add: require_def)

definition extract_selected_version :: "bytes \<Rightarrow> u16 result" where
  "extract_selected_version exts =
     and_then (ok_or (find_ext exts 0x002b) ''no supported_versions'') (\<lambda>b.
     and_then (require (length b = 2) ''supported_versions length'') (\<lambda>_.
     Inr (from_be16 (b ! 0) (b ! 1))))"

definition extract_key_share_x25519 :: "bytes \<Rightarrow> bytes result" where
  "extract_key_share_x25519 exts =
     and_then (ok_or (find_ext exts 0x0033) ''no key_share'') (\<lambda>b.
     and_then (require (4 \<le> length b) ''key_share truncated'') (\<lambda>_.
     and_then (require (from_be16 (b ! 0) (b ! 1) = 0x001d) ''key_share group'') (\<lambda>_.
     and_then (require (from_be16 (b ! 2) (b ! 3) = 32) ''key_share length'') (\<lambda>_.
     ok_or (get_range b 4 36) ''key_share truncated''))))"

definition downgrade_sentinel :: "bytes \<Rightarrow> bool" where
  "downgrade_sentinel random \<longleftrightarrow>
     take 8 (drop 24 random) = str ''DOWNGRD'' @ [1] \<or> take 8 (drop 24 random) = str ''DOWNGRD'' @ [0]"

definition parse_server_hello :: "bytes \<Rightarrow> bytes \<Rightarrow> parsed_server_hello result" where
  "parse_server_hello bytes expected_session_id =
     and_then (require (get_at bytes 0 = Some 0x02) ''not a ServerHello'') (\<lambda>_.
     and_then (ok_or (get_range bytes 1 4) ''header truncated'') (\<lambda>len_field.
     and_then (ok_or (get_range bytes 4 (length bytes)) ''header truncated'') (\<lambda>body.
     and_then (require (u24 len_field = length body) ''length field'') (\<lambda>_.
     let p = 0 in
     and_then (require (get_range body p (p + 2) = Some [0x03, 0x03]) ''legacy_version'') (\<lambda>_.
     let p = p + 2 in
     and_then (ok_or (get_range body p (p + 32)) ''random truncated'') (\<lambda>random.
     let p = p + 32 in
     and_then (require (random \<noteq> HRR_RANDOM) ''HelloRetryRequest'') (\<lambda>_.
     and_then (require (\<not> downgrade_sentinel random) ''downgrade sentinel'') (\<lambda>_.
     and_then (ok_or (get_at body p) ''session_id length truncated'') (\<lambda>sid_byte.
     let sid_len = unat sid_byte; p = p + 1 in
     and_then (ok_or (get_range body p (p + sid_len)) ''session_id truncated'') (\<lambda>sid.
     let p = p + sid_len in
     and_then (require (sid = expected_session_id) ''session_id echo'') (\<lambda>_.
     and_then (ok_or (get_range body p (p + 2)) ''cipher_suite truncated'') (\<lambda>cs.
     let cipher_suite = from_be16 (cs ! 0) (cs ! 1); p = p + 2 in
     and_then (require (cipher_suite = 0x1301) ''cipher_suite'') (\<lambda>_.
     and_then (ok_or (get_at body p) ''compression truncated'') (\<lambda>comp.
     and_then (require (comp = 0) ''legacy_compression'') (\<lambda>_.
     let p = p + 1 in
     and_then (ok_or (get_range body p (p + 2)) ''extensions length truncated'') (\<lambda>el.
     let ext_len = unat (from_be16 (el ! 0) (el ! 1)); p = p + 2 in
     and_then (ok_or (get_range body p (p + ext_len)) ''extensions truncated'') (\<lambda>exts.
     and_then (extract_selected_version exts) (\<lambda>v.
     and_then (require (v = 0x0304) ''selected_version'') (\<lambda>_.
     and_then (extract_key_share_x25519 exts) (\<lambda>server_key_share.
     Inr \<lparr> ps_cipher_suite = cipher_suite, ps_server_key_share = server_key_share \<rparr>
     ))))))))))))))))))))"

section \<open>The accepted messages\<close>

text \<open>A ServerHello from its parts; \<open>rest\<close> is whatever follows the extension block.\<close>

definition server_hello_body :: "bytes \<Rightarrow> bytes \<Rightarrow> bytes \<Rightarrow> bytes \<Rightarrow> bytes" where
  "server_hello_body random sid exts rest =
     [0x03, 0x03] @ random @ [of_nat (length sid)] @ sid @ [0x13, 0x01] @ [0] @ u16_vec exts @ rest"

definition server_hello_msg :: "bytes \<Rightarrow> bytes \<Rightarrow> bytes \<Rightarrow> bytes \<Rightarrow> bytes" where
  "server_hello_msg random sid exts rest =
     (let body = server_hello_body random sid exts rest in [0x02] @ be24 (length body) @ body)"

definition acceptable_random :: "bytes \<Rightarrow> bool" where
  "acceptable_random r \<longleftrightarrow> length r = 32 \<and> r \<noteq> HRR_RANDOM \<and> \<not> downgrade_sentinel r"

definition acceptable_exts :: "bytes \<Rightarrow> bytes \<Rightarrow> bool" where
  "acceptable_exts exts key \<longleftrightarrow> length exts < 65536 \<and> find_ext exts 0x002b = Some [0x03, 0x04] \<and> length key = 32 \<and>
     (\<exists>more. find_ext exts 0x0033 = Some ([0x00, 0x1d, 0, 32] @ key @ more))"

text \<open>Slices of a list that is given by its pieces, and pieces of a list that is given by its slices.\<close>

lemma get_range_drop: "get_range b i j = Some s \<Longrightarrow> drop i b = s @ drop j b \<and> length s = j - i"
  by (auto simp: get_range_Some_iff) (metis append_take_drop_id drop_drop le_add_diff_inverse2)

lemma get_at_drop: "get_at b i = Some x \<Longrightarrow> drop i b = x # drop (Suc i) b"
  by (auto simp: get_at_Some_iff Cons_nth_drop_Suc)

lemma two_bytes: "length b = 2 \<Longrightarrow> b = [b ! 0, b ! 1]"
  by (auto simp: length_Suc_conv numeral_2_eq_2)

lemma be16_of_pair: "length b = 2 \<Longrightarrow> from_be16 (b ! 0) (b ! 1) = w \<Longrightarrow> b = be16 w"
  using two_bytes [of b] be16_from_be16 [of "b ! 0" "b ! 1"] by simp

lemma selected_version_iff:
  "extract_selected_version exts = Inr 0x0304 \<longleftrightarrow> find_ext exts 0x002b = Some [0x03, 0x04]"
proof
  assume "extract_selected_version exts = Inr 0x0304"
  then obtain b where b: "find_ext exts 0x002b = Some b" "length b = 2" "from_be16 (b ! 0) (b ! 1) = 0x0304"
    by (auto simp: extract_selected_version_def result_simps require_Inr)
  from be16_of_pair [OF b(2,3)] b(1) show "find_ext exts 0x002b = Some [0x03, 0x04]" by (simp add: be16_def)
next
  assume "find_ext exts 0x002b = Some [0x03, 0x04]"
  then show "extract_selected_version exts = Inr 0x0304"
    by (simp add: extract_selected_version_def require_def from_be16_def)
qed

lemma key_share_iff:
  "extract_key_share_x25519 exts = Inr key \<longleftrightarrow>
   length key = 32 \<and> (\<exists>more. find_ext exts 0x0033 = Some ([0x00, 0x1d, 0, 32] @ key @ more))"
proof
  assume "extract_key_share_x25519 exts = Inr key"
  then obtain b where b: "find_ext exts 0x0033 = Some b" "4 \<le> length b" "from_be16 (b ! 0) (b ! 1) = 0x001d"
      "from_be16 (b ! 2) (b ! 3) = 32" "get_range b 4 36 = Some key"
    by (auto simp: extract_key_share_x25519_def result_simps require_Inr)
  have key: "drop 4 b = key @ drop 36 b" "length key = 32" using get_range_drop [OF b(5)] by auto
  obtain w x y z where w: "b = w # x # y # z # drop 4 b"
    using b(2) by (cases b rule: list.exhaust; auto simp: numeral_eq_Suc Suc_le_length_iff)
  with b(3,4) have "from_be16 w x = 0x001d" "from_be16 y z = 32"
    by (metis nth_Cons_0 nth_Cons_Suc One_nat_def numeral_2_eq_2 numeral_3_eq_3)+
  then have "[w, x] = be16 0x001d" "[y, z] = be16 32"
    using be16_from_be16 [of w x] be16_from_be16 [of y z] by simp_all
  then have "b = [0x00, 0x1d, 0, 32] @ key @ drop 36 b" using w key by (simp add: be16_def)
  with b(1) key(2) show "length key = 32 \<and> (\<exists>more. find_ext exts 0x0033 = Some ([0x00, 0x1d, 0, 32] @ key @ more))"
    by metis
next
  assume "length key = 32 \<and> (\<exists>more. find_ext exts 0x0033 = Some ([0x00, 0x1d, 0, 32] @ key @ more))"
  then obtain more where "length key = 32" "find_ext exts 0x0033 = Some ([0x00, 0x1d, 0, 32] @ key @ more)" by blast
  then show "extract_key_share_x25519 exts = Inr key"
    by (simp add: extract_key_share_x25519_def require_def from_be16_def get_range_def)
qed

lemma get_range_at: "length pre = i \<Longrightarrow> j = i + length s \<Longrightarrow> get_range (pre @ s @ post) i j = Some s"
  by (simp add: get_range_def)

lemma get_at_at: "length pre = i \<Longrightarrow> get_at (pre @ x # post) i = Some x"
  by (auto simp: get_at_def)

lemma body_slices:
  fixes random sid exts rest
  defines "body \<equiv> server_hello_body random sid exts rest"
  assumes "length random = 32" "length exts < 65536" "length sid < 256"
  shows "get_range body 0 2 = Some [0x03, 0x03]" "get_range body 2 34 = Some random"
    "get_at body 34 = Some (of_nat (length sid))" "get_range body 35 (35 + length sid) = Some sid"
    "get_range body (35 + length sid) (37 + length sid) = Some [0x13, 0x01]"
    "get_at body (37 + length sid) = Some 0"
    "get_range body (38 + length sid) (40 + length sid) = Some (be16 (of_nat (length exts)))"
    "get_range body (40 + length sid) (40 + length sid + length exts) = Some exts"
  using assms(2)
    get_range_at [of "[]" 0 2 "[0x03, 0x03]"]
    get_range_at [of "[0x03, 0x03]" 2 34 random]
    get_at_at [of "[0x03, 0x03] @ random" 34]
    get_range_at [of "[0x03, 0x03] @ random @ [of_nat (length sid)]" 35 "35 + length sid" sid]
    get_range_at [of "[0x03, 0x03] @ random @ [of_nat (length sid)] @ sid" "35 + length sid" "37 + length sid" "[0x13, 0x01]"]
    get_at_at [of "[0x03, 0x03] @ random @ [of_nat (length sid)] @ sid @ [0x13, 0x01]" "37 + length sid" 0]
    get_range_at [of "[0x03, 0x03] @ random @ [of_nat (length sid)] @ sid @ [0x13, 0x01, 0]" "38 + length sid" "40 + length sid"
      "be16 (of_nat (length exts))"]
    get_range_at [of "[0x03, 0x03] @ random @ [of_nat (length sid)] @ sid @ [0x13, 0x01, 0] @ be16 (of_nat (length exts))"
      "40 + length sid" "40 + length sid + length exts" exts]
  by (simp_all add: body_def server_hello_body_def u16_vec_def)

lemma parse_server_hello_complete:
  assumes "acceptable_random random" "acceptable_exts exts key" "length sid < 256"
    "length (server_hello_body random sid exts rest) < 16777216"
  shows "parse_server_hello (server_hello_msg random sid exts rest) sid =
    Inr \<lparr> ps_cipher_suite = 0x1301, ps_server_key_share = key \<rparr>"
proof -
  let ?body = "server_hello_body random sid exts rest"
  have len: "length random = 32" "length exts < 65536"
    using assms(1,2) by (auto simp: acceptable_random_def acceptable_exts_def)
  have head: "get_at (server_hello_msg random sid exts rest) 0 = Some 0x02"
    "get_range (server_hello_msg random sid exts rest) 1 4 = Some (be24 (length ?body))"
    "get_range (server_hello_msg random sid exts rest) 4 (length (server_hello_msg random sid exts rest)) = Some ?body"
    by (simp_all add: server_hello_msg_def Let_def get_range_def be24_def)
  have words: "unat (of_nat (length sid) :: u8) = length sid"
    "unat (of_nat (length exts) :: u16) = length exts"
    using assms(3) len(2) by (auto intro!: unat_of_nat_small)
  have ext: "extract_selected_version exts = Inr 0x0304" "extract_key_share_x25519 exts = Inr key"
    using assms(2) by (auto simp: acceptable_exts_def selected_version_iff key_share_iff)
  have "from_be16 0x13 0x01 = 0x1301" by (simp add: from_be16_def)
  with body_slices [OF len assms(3), of rest] words ext head assms(1) u24_be24 [OF assms(4)]
  show ?thesis
    by (simp add: parse_server_hello_def Let_def require_def acceptable_random_def be16_inverse from_be16_be16 add_ac
        del: add_2_eq_Suc add_2_eq_Suc')
qed

lemma parse_server_hello_sound:
  assumes "parse_server_hello b sid = Inr p"
  shows "\<exists>random exts rest. b = server_hello_msg random sid exts rest \<and> acceptable_random random \<and>
    acceptable_exts exts (ps_server_key_share p) \<and> length sid < 256 \<and>
    length (server_hello_body random sid exts rest) < 16777216 \<and> ps_cipher_suite p = 0x1301"
proof -
  from assms obtain lf body random sb cs el exts key where
    h: "get_at b 0 = Some 0x02" "get_range b 1 4 = Some lf" "get_range b 4 (length b) = Some body" "u24 lf = length body"
    and s: "get_range body 0 2 = Some [0x03, 0x03]" "get_range body 2 34 = Some random"
      "get_at body 34 = Some sb" "get_range body 35 (35 + unat sb) = Some sid"
      "get_range body (35 + unat sb) (37 + unat sb) = Some cs" "get_at body (37 + unat sb) = Some 0"
      "get_range body (38 + unat sb) (40 + unat sb) = Some el"
      "get_range body (40 + unat sb) (40 + unat sb + unat (from_be16 (el ! 0) (el ! 1))) = Some exts"
    and c: "random \<noteq> HRR_RANDOM" "\<not> downgrade_sentinel random" "from_be16 (cs ! 0) (cs ! 1) = 0x1301"
      "extract_selected_version exts = Inr 0x0304" "extract_key_share_x25519 exts = Inr key"
    and p: "p = \<lparr> ps_cipher_suite = 0x1301, ps_server_key_share = key \<rparr>"
    by (auto simp: parse_server_hello_def result_simps require_Inr Let_def add_ac
        simp del: add_2_eq_Suc add_2_eq_Suc')
  note d = get_range_drop [OF s(1)] get_range_drop [OF s(2)] get_at_drop [OF s(3)] get_range_drop [OF s(4)]
    get_range_drop [OF s(5)] get_at_drop [OF s(6)] get_range_drop [OF s(7)] get_range_drop [OF s(8)]
  have len: "length random = 32" "length sid = unat sb" "length cs = 2" "length el = 2"
    "length exts = unat (from_be16 (el ! 0) (el ! 1))"
    using d by auto
  have cs: "cs = [0x13, 0x01]" using be16_of_pair [OF len(3) c(3)] by (simp add: be16_def)
  have el: "el = be16 (of_nat (length exts))" using be16_of_pair [OF len(4) refl] len(5) by simp
  have sb: "sb = of_nat (length sid)" using len(2) by simp
  obtain rest where "body = [0x03, 0x03] @ random @ [sb] @ sid @ cs @ [0] @ el @ exts @ rest"
    using d by (simp add: eval_nat_numeral)
  then have body: "body = server_hello_body random sid exts rest"
    unfolding server_hello_body_def u16_vec_def using cs el sb by (simp only: append_assoc append_Cons append_Nil)
  have hd: "drop 0 b = 0x02 # drop 1 b" "drop 1 b = lf @ drop 4 b" "length lf = 3" "drop 4 b = body"
    using get_at_drop [OF h(1)] get_range_drop [OF h(2)] get_range_drop [OF h(3)] by auto
  then have "b = [0x02] @ lf @ body" by simp
  moreover have "lf = be24 (length body)" using be24_u24 [OF hd(3)] h(4) by simp
  ultimately have "b = server_hello_msg random sid exts rest" by (simp add: server_hello_msg_def Let_def body)
  moreover have "length body < 16777216" using u24_less [of lf] h(4) by simp
  moreover have "length sid < 256" using unat_u8_less [of sb] len(2) by linarith
  moreover have "length exts < 65536" using unat_u16_less [of "from_be16 (el ! 0) (el ! 1)"] len(5) by linarith
  ultimately show ?thesis
    using c len(1) by (auto simp: body p acceptable_random_def acceptable_exts_def selected_version_iff key_share_iff)
qed

text \<open>
  C35. The ServerHellos that are accepted are exactly these: a message whose length field is right, with
  a random that is neither the retry sentinel nor a downgrade sentinel, an echo of the session id that was
  sent, the one cipher suite that is implemented, no compression, an extension block that selects TLS
  1.3 and carries a 32-byte X25519 share. What is returned is that share.
\<close>

theorem parse_server_hello_iff:
  "parse_server_hello b sid = Inr p \<longleftrightarrow>
   (\<exists>random exts rest. b = server_hello_msg random sid exts rest \<and> acceptable_random random \<and>
     acceptable_exts exts (ps_server_key_share p) \<and> length sid < 256 \<and>
     length (server_hello_body random sid exts rest) < 16777216 \<and> ps_cipher_suite p = 0x1301)"
  using parse_server_hello_complete parse_server_hello_sound [of b sid p] by auto

theorem parse_server_hello_iff_witness:
  "parse_server_hello (server_hello_msg (replicate 32 7) [1, 2]
      (ext_block [(0x002b, [3, 4]), (0x0033, [0, 0x1d, 0, 32] @ replicate 32 9)]) []) [1, 2] =
   Inr \<lparr> ps_cipher_suite = 0x1301, ps_server_key_share = replicate 32 9 \<rparr>"
proof -
  let ?es = "[(0x002b, [3, 4]), (0x0033, [0, 0x1d, 0, 32] @ replicate 32 9)] :: (u16 \<times> bytes) list"
  have f: "find_ext (ext_block ?es) w = map_of ?es w" for w by (rule find_ext_block) simp
  have "acceptable_exts (ext_block ?es) (replicate 32 9)"
    unfolding acceptable_exts_def f by simp
  moreover have "acceptable_random (replicate 32 7)"
    by code_simp
  ultimately show ?thesis
    by (subst parse_server_hello_iff, intro exI [of _ "replicate 32 7"] exI [of _ "ext_block ?es"] exI [of _ "[]"])
       (simp add: server_hello_body_def)
qed

end
