(* ===== verification/Cert.thy ===== *)
theory Cert
  imports ServerHello
begin

text \<open>
  The server's temporary certificate, \<^verbatim>\<open>src/reality/cert.rs\<close>: the leaf is found by the length fields
  of the Certificate message, the Ed25519 key by a scan for its marker, and the signature is the last
  64 bytes of the leaf.
\<close>

definition REALITY_SIG_LEN :: nat where "REALITY_SIG_LEN = 64"
definition ED25519_PUBKEY_LEN :: nat where "ED25519_PUBKEY_LEN = 32"
definition ED25519_SPKI_MARKER :: bytes where
  "ED25519_SPKI_MARKER = [0x06, 0x03, 0x2b, 0x65, 0x70, 0x03, 0x21, 0x00]"

text \<open>\<open>der.windows(8).position(|w| w == marker)\<close>.\<close>

definition window_position :: "bytes \<Rightarrow> bytes \<Rightarrow> nat option" where
  "window_position der marker =
     find (\<lambda>i. take (length marker) (drop i der) = marker) [0..<length der + 1 - length marker]"

definition extract_ed25519_pubkey_and_sig :: "bytes \<Rightarrow> (bytes \<times> bytes) result" where
  "extract_ed25519_pubkey_and_sig cert_msg =
     and_then (require (get_at cert_msg 0 = Some 0x0b) ''not a Certificate'') (\<lambda>_.
     and_then (ok_or (get_range cert_msg 1 4) ''header truncated'') (\<lambda>hs.
     let hs_len = u24 hs in
     and_then (ok_or (get_range cert_msg 4 (length cert_msg)) ''body truncated'') (\<lambda>body.
     and_then (require (hs_len = length body) ''length field'') (\<lambda>_.
     and_then (ok_or (get_at body 0) ''ctx_len truncated'') (\<lambda>ctx_byte.
     let p = 1 + unat ctx_byte in
     and_then (ok_or (get_range body p (p + 3)) ''list_len truncated'') (\<lambda>ll.
     let list_len = u24 ll; p = p + 3 in
     and_then (ok_or (get_range body p (p + list_len)) ''certificate_list truncated'') (\<lambda>lst.
     and_then (ok_or (get_range lst 0 3) ''cert_data_len truncated'') (\<lambda>cl.
     let cert_len = u24 cl in
     and_then (ok_or (get_range lst 3 (3 + cert_len)) ''leaf truncated'') (\<lambda>der.
     and_then (ok_or (window_position der ED25519_SPKI_MARKER) ''no ed25519 SPKI'') (\<lambda>pos.
     let key_start = pos + length ED25519_SPKI_MARKER in
     and_then (ok_or (get_range der key_start (key_start + ED25519_PUBKEY_LEN)) ''public key truncated'') (\<lambda>pubkey.
     and_then (require (REALITY_SIG_LEN \<le> length der) ''leaf too short'') (\<lambda>_.
     Inr (pubkey, drop (length der - REALITY_SIG_LEN) der)))))))))))))"

section \<open>Properties\<close>

lemma window_position_Some:
  assumes "window_position der m = Some i"
  shows "take (length m) (drop i der) = m \<and> i + length m \<le> length der \<and>
    (\<forall>j<i. take (length m) (drop j der) \<noteq> m)"
proof -
  let ?n = "length der + 1 - length m"
  from assms have "\<exists>k<length [0..<?n]. take (length m) (drop ([0..<?n] ! k) der) = m \<and> i = [0..<?n] ! k \<and>
      (\<forall>j<k. \<not> take (length m) (drop ([0..<?n] ! j) der) = m)"
    unfolding window_position_def find_Some_iff .
  then obtain k where k: "k < ?n" "take (length m) (drop k der) = m" "i = k"
      "\<forall>j<k. take (length m) (drop j der) \<noteq> m"
    by (auto simp del: upt_Suc)
  then show ?thesis by auto
qed

text \<open>A returned pair has the sizes the verification needs, and both parts stand in the message.\<close>

lemma extract_sizes:
  assumes "extract_ed25519_pubkey_and_sig msg = Inr (pk, sig)"
  shows "length pk = 32 \<and> length sig = 64"
  using assms
  by (auto simp: extract_ed25519_pubkey_and_sig_def result_simps require_Inr Let_def REALITY_SIG_LEN_def
      ED25519_PUBKEY_LEN_def dest: get_range_length)

text \<open>The certificate message a server sends: one leaf, empty context, empty extensions.\<close>

definition certificate_msg :: "bytes \<Rightarrow> bytes" where
  "certificate_msg der =
     [0x0b] @ be24 (length der + 9) @ [0] @ be24 (length der + 5) @ be24 (length der) @ der @ [0, 0]"

lemma extract_leaf:
  assumes "length der < 65536"
  shows "extract_ed25519_pubkey_and_sig (certificate_msg der) =
    and_then (ok_or (window_position der ED25519_SPKI_MARKER) ''no ed25519 SPKI'') (\<lambda>pos.
    and_then (ok_or (get_range der (pos + 8) (pos + 40)) ''public key truncated'') (\<lambda>pubkey.
    and_then (require (64 \<le> length der) ''leaf too short'') (\<lambda>_.
    Inr (pubkey, drop (length der - 64) der))))"
proof -
  let ?body = "[0] @ be24 (length der + 5) @ be24 (length der) @ der @ [0, 0]"
  let ?list = "be24 (length der) @ der @ [0, 0]"
  have lens: "u24 (be24 (length der + 9)) = length der + 9" "u24 (be24 (length der + 5)) = length der + 5"
    "u24 (be24 (length der)) = length der"
    using assms by (simp_all add: u24_be24)
  have msg: "certificate_msg der = [0x0b] @ be24 (length der + 9) @ ?body" by (simp add: certificate_msg_def)
  have sl: "get_at (certificate_msg der) 0 = Some 0x0b"
    "get_range (certificate_msg der) 1 4 = Some (be24 (length der + 9))"
    "get_range (certificate_msg der) 4 (length (certificate_msg der)) = Some ?body"
    "get_at ?body 0 = Some 0" "get_range ?body 1 (1 + 3) = Some (be24 (length der + 5))"
    "get_range ?body (1 + 3) (1 + 3 + (length der + 5)) = Some ?list"
    "get_range ?list 0 3 = Some (be24 (length der))" "get_range ?list 3 (3 + length der) = Some der"
    unfolding msg by (simp_all add: get_range_def be24_def)
  have m: "length ED25519_SPKI_MARKER = 8" by (simp add: ED25519_SPKI_MARKER_def)
  have "length ?body = length der + 9" by simp
  then show ?thesis
    unfolding extract_ed25519_pubkey_and_sig_def Let_def
    by (simp only: sl lens and_then.simps ok_or.simps require_def simp_thms if_True unat_0 add_0_right
        REALITY_SIG_LEN_def ED25519_PUBKEY_LEN_def m) (simp add: add.assoc)
qed

end
