(* ===== verification/ClientHello.thy ===== *)
theory ClientHello
  imports Auth
begin

text \<open>
  The ClientHello encoder, \<^verbatim>\<open>src/reality/client_hello.rs\<close>: the Chrome-like message, and the version of it
  whose session id carries the REALITY authentication, sealed over the message itself with the session
  id zeroed.
\<close>

definition GREASE :: u16 where "GREASE = 0x0a0a"
definition GREASE_EXT2 :: u16 where "GREASE_EXT2 = 0x1a1a"
definition SESSION_ID_OFFSET :: nat where "SESSION_ID_OFFSET = 39"
definition SESSION_ID_LEN :: nat where "SESSION_ID_LEN = 32"

definition authed_session_id :: "bytes \<Rightarrow> bytes" where
  "authed_session_id client_hello = take SESSION_ID_LEN (drop SESSION_ID_OFFSET client_hello)"

definition CIPHERS :: "u16 list" where
  "CIPHERS = [GREASE, 0x1301, 0xc02b, 0xc02f, 0xc02c, 0xc030, 0xcca9, 0xcca8, 0xc013, 0xc014, 0x009c, 0x009d,
     0x002f, 0x0035]"

record client_hello_params =
  ch_server_name :: bytes
  ch_key_share :: bytes
  ch_random :: bytes
  ch_session_id :: bytes

definition build_extensions :: "client_hello_params \<Rightarrow> bytes" where
  "build_extensions p =
     ext GREASE [] @
     (let host = ch_server_name p; entry = [0] @ u16_vec host in ext 0x0000 (u16_vec entry)) @
     ext 0x0017 [] @
     ext 0xff01 [0] @
     ext 0x000a (u16_vec (u16s [GREASE, 0x001d, 0x0017, 0x0018])) @
     ext 0x000b [1, 0] @
     (let alpn = concat (map (\<lambda>proto. [of_nat (length proto)] @ proto) [str ''h2'', str ''http/1.1''])
      in ext 0x0010 (u16_vec alpn)) @
     ext 0x000d (u16_vec (u16s [0x0403, 0x0804, 0x0401, 0x0503, 0x0805, 0x0501, 0x0806, 0x0601])) @
     (let entry = be16 0x001d @ u16_vec (ch_key_share p) in ext 0x0033 (u16_vec entry)) @
     ext 0x002d [1, 1] @
     (let vers = u16s [GREASE, 0x0304]; b = [of_nat (length vers)] @ vers in ext 0x002b b) @
     ext GREASE_EXT2 []"

definition build_client_hello :: "client_hello_params \<Rightarrow> bytes" where
  "build_client_hello p =
     (let body = [0x03, 0x03] @ ch_random p @ [32] @ ch_session_id p @ u16_vec (u16s CIPHERS) @ [1, 0] @
            u16_vec (build_extensions p)
      in [0x01] @ be24 (length body) @ body)"

record authed_client_hello_params =
  ah_server_name :: bytes
  ah_key_share :: bytes
  ah_random :: bytes
  ah_auth_key :: bytes
  ah_short_id :: bytes
  ah_timestamp :: u32

definition build_authed_client_hello :: "crypto \<Rightarrow> authed_client_hello_params \<Rightarrow> bytes" where
  "build_authed_client_hello c p =
     (let msg = build_client_hello \<lparr> ch_server_name = ah_server_name p, ch_key_share = ah_key_share p,
            ch_random = ah_random p, ch_session_id = replicate 32 0 \<rparr>;
          pt = session_id_to_bytes \<lparr> si_version = REALITY_VERSION, si_timestamp = ah_timestamp p,
            si_short_id = ah_short_id p \<rparr>;
          nonce = take 12 (drop 20 (ah_random p));
          sealed = seal_session_id c (ah_auth_key p) pt nonce msg
      in take SESSION_ID_OFFSET msg @ sealed @ drop (SESSION_ID_OFFSET + SESSION_ID_LEN) msg)"

section \<open>Properties\<close>

text \<open>The layout: everything before the session id, the session id, everything behind it.\<close>

definition hello_prefix :: "client_hello_params \<Rightarrow> bytes" where
  "hello_prefix p = [0x01] @ be24 (length (build_extensions p) + 101) @ [0x03, 0x03] @ ch_random p @ [32]"

definition hello_suffix :: "client_hello_params \<Rightarrow> bytes" where
  "hello_suffix p = u16_vec (u16s CIPHERS) @ [1, 0] @ u16_vec (build_extensions p)"

lemma build_client_hello_layout:
  "length (ch_random p) = 32 \<Longrightarrow> length (ch_session_id p) = 32 \<Longrightarrow>
   build_client_hello p = hello_prefix p @ ch_session_id p @ hello_suffix p"
  by (simp add: build_client_hello_def hello_prefix_def hello_suffix_def Let_def CIPHERS_def add.commute)

lemma length_hello_prefix: "length (ch_random p) = 32 \<Longrightarrow> length (hello_prefix p) = 39"
  by (simp add: hello_prefix_def)

lemma hello_prefix_random: "length (ch_random p) = 32 \<Longrightarrow> take 12 (drop 26 (hello_prefix p @ r)) = take 12 (drop 20 (ch_random p))"
  by (simp add: hello_prefix_def be24_def)

text \<open>The parameters of the message that is built first, with the session id zeroed, and what replaces it.\<close>

definition zeroed_params :: "authed_client_hello_params \<Rightarrow> client_hello_params" where
  "zeroed_params p = \<lparr> ch_server_name = ah_server_name p, ch_key_share = ah_key_share p,
     ch_random = ah_random p, ch_session_id = replicate 32 0 \<rparr>"

definition sealed_session_id :: "crypto \<Rightarrow> authed_client_hello_params \<Rightarrow> bytes" where
  "sealed_session_id c p =
     seal_session_id c (ah_auth_key p) (session_id_to_bytes \<lparr> si_version = [1, 8, 0, 0], si_timestamp = ah_timestamp p,
         si_short_id = ah_short_id p \<rparr>) (take 12 (drop 20 (ah_random p))) (build_client_hello (zeroed_params p))"

lemma length_sealed_session_id:
  assumes "aead_correct (aes256_seal c) (aes256_open c)" "length (ah_short_id p) = 8"
  shows "length (sealed_session_id c p) = 32"
  using aead_correctD(2) [OF assms(1)] assms(2)
  by (simp add: sealed_session_id_def seal_session_id_def length_session_id_to_bytes)

lemma authed_hello_layout:
  assumes "length (ah_random p) = 32"
  shows "build_authed_client_hello c p = hello_prefix (zeroed_params p) @ sealed_session_id c p @ hello_suffix (zeroed_params p)"
proof -
  have "length (hello_prefix (zeroed_params p)) = 39"
    using assms by (simp add: length_hello_prefix zeroed_params_def)
  moreover have "build_client_hello (zeroed_params p) =
      hello_prefix (zeroed_params p) @ replicate 32 0 @ hello_suffix (zeroed_params p)"
    using assms by (simp add: build_client_hello_layout zeroed_params_def)
  moreover have "build_authed_client_hello c p = take 39 (build_client_hello (zeroed_params p)) @ sealed_session_id c p @
      drop 71 (build_client_hello (zeroed_params p))"
    by (simp add: build_authed_client_hello_def sealed_session_id_def zeroed_params_def REALITY_VERSION_def
        SESSION_ID_OFFSET_def SESSION_ID_LEN_def Let_def)
  ultimately show ?thesis by simp
qed

lemma authed_hello_parts:
  assumes "aead_correct (aes256_seal c) (aes256_open c)" "length (ah_random p) = 32" "length (ah_short_id p) = 8"
  shows "authed_session_id (build_authed_client_hello c p) = sealed_session_id c p"
    "take 32 (drop 6 (build_authed_client_hello c p)) = ah_random p"
  using authed_hello_layout [OF assms(2), of c] length_sealed_session_id [OF assms(1,3)] assms(2)
    length_hello_prefix [of "zeroed_params p"]
  by (simp_all add: authed_session_id_def SESSION_ID_OFFSET_def SESSION_ID_LEN_def hello_prefix_def zeroed_params_def be24_def)

text \<open>
  The server can authenticate the client from the message alone: the sealed session id, opened
  under the shared key with the nonce from the message's random and the message with the session id
  zeroed as associated data, gives back protocol version, timestamp and short id.
\<close>

lemma authed_hello_opens:
  assumes "aead_correct (aes256_seal c) (aes256_open c)"
    "length (ah_random p) = 32" "length (ah_short_id p) = 8"
  shows "let msg = build_authed_client_hello c p;
             zeroed = take 39 msg @ replicate 32 0 @ drop 71 msg
         in open_session_id c (ah_auth_key p) (authed_session_id msg) (take 12 (drop 26 msg)) zeroed =
              Some (session_id_to_bytes \<lparr> si_version = [1, 8, 0, 0], si_timestamp = ah_timestamp p,
                si_short_id = ah_short_id p \<rparr>)"
proof -
  let ?h = "zeroed_params p" and ?s = "sealed_session_id c p"
  have len: "length ?s = 32" "length (hello_prefix ?h) = 39"
    using length_sealed_session_id [OF assms(1,3)] assms(2) by (simp_all add: length_hello_prefix zeroed_params_def)
  have z: "take 39 (build_authed_client_hello c p) @ replicate 32 0 @ drop 71 (build_authed_client_hello c p) =
      build_client_hello ?h"
    using assms(2) len by (simp add: authed_hello_layout build_client_hello_layout zeroed_params_def)
  have n: "take 12 (drop 26 (build_authed_client_hello c p)) = take 12 (drop 20 (ah_random p))"
    unfolding authed_hello_layout [OF assms(2)]
    using hello_prefix_random [of ?h "?s @ hello_suffix ?h"] assms(2) by (simp add: zeroed_params_def)
  show ?thesis
    unfolding Let_def z n authed_hello_parts(1) [OF assms]
    unfolding sealed_session_id_def using assms(1,3) by (intro open_seal_session_id) (simp_all add: length_session_id_to_bytes)
qed

text \<open>The extensions as a list of types and bodies.\<close>

definition extension_list :: "client_hello_params \<Rightarrow> (u16 \<times> bytes) list" where
  "extension_list p =
     [(GREASE, []),
      (0x0000, u16_vec ([0] @ u16_vec (ch_server_name p))),
      (0x0017, []),
      (0xff01, [0]),
      (0x000a, u16_vec (u16s [GREASE, 0x001d, 0x0017, 0x0018])),
      (0x000b, [1, 0]),
      (0x0010, u16_vec ([2] @ str ''h2'' @ [8] @ str ''http/1.1'')),
      (0x000d, u16_vec (u16s [0x0403, 0x0804, 0x0401, 0x0503, 0x0805, 0x0501, 0x0806, 0x0601])),
      (0x0033, u16_vec (be16 0x001d @ u16_vec (ch_key_share p))),
      (0x002d, [1, 1]),
      (0x002b, [4, 0x0a, 0x0a, 0x03, 0x04]),
      (GREASE_EXT2, [])]"

lemma be16_literals:
  "be16 0x0304 = [0x03, 0x04]" "be16 0x0a0a = [0x0a, 0x0a]" "be16 0x001d = [0, 0x1d]" "be16 32 = [0, 32]" "be16 36 = [0, 36]"
  by (simp_all add: be16_def)

lemma build_extensions_block: "build_extensions p = ext_block (extension_list p)"
  by (simp add: build_extensions_def extension_list_def Let_def u16s_def GREASE_def be16_literals str_def)

lemma length_build_extensions:
  "length (ch_key_share p) = 32 \<Longrightarrow> length (build_extensions p) = length (ch_server_name p) + 143"
  by (simp add: build_extensions_def Let_def str_def)

text \<open>
  C36. The ClientHello is well formed for every server name of up to 65000 bytes: its length field is
  the length of what follows, the extension block's length field is the length of the block, the block is
  a sequence of extensions with pairwise different types, and a reader of the block finds the server
  name, the one X25519 key share and the version list that offers nothing but TLS 1.3.
\<close>

theorem client_hello_wellformed:
  assumes "length (ch_random p) = 32" "length (ch_session_id p) = 32" "length (ch_key_share p) = 32"
    "length (ch_server_name p) \<le> 65000"
  shows "let msg = build_client_hello p; block = build_extensions p
    in u24 (take 3 (drop 1 msg)) = length msg - 4 \<and>
       drop 101 msg = [1, 0] @ be16 (of_nat (length block)) @ block \<and>
       unat (of_nat (length block) :: u16) = length block \<and>
       block = ext_block (extension_list p) \<and> distinct (map fst (extension_list p)) \<and>
       find_ext block 0x0000 = Some (u16_vec ([0] @ u16_vec (ch_server_name p))) \<and>
       find_ext block 0x0033 = Some ([0, 36, 0, 0x1d, 0, 32] @ ch_key_share p) \<and>
       find_ext block 0x002b = Some [4, 0x0a, 0x0a, 0x03, 0x04]"
proof -
  have len: "length (build_extensions p) = length (ch_server_name p) + 143"
    using assms(3) by (rule length_build_extensions)
  have small: "\<forall>(t, b)\<in>set (extension_list p). length b < 65536"
    using assms(3,4) by (simp add: extension_list_def str_def)
  have "u24 (take 3 (drop 1 (build_client_hello p))) = length (build_client_hello p) - 4"
    using u24_be24 [of "length (ch_server_name p) + 244"] assms len
    by (simp add: build_client_hello_layout hello_prefix_def hello_suffix_def CIPHERS_def add.commute)
  moreover have "drop 101 (build_client_hello p) =
      [1, 0] @ be16 (of_nat (length (build_extensions p))) @ build_extensions p"
    using assms by (simp add: build_client_hello_layout length_hello_prefix hello_suffix_def CIPHERS_def
        u16_vec_def [of "build_extensions p"])
  moreover have "unat (of_nat (length (build_extensions p)) :: u16) = length (build_extensions p)"
    using len assms(4) by (intro unat_of_nat_small) simp
  moreover have "distinct (map fst (extension_list p))"
    by (simp add: extension_list_def GREASE_def GREASE_EXT2_def)
  moreover have "find_ext (build_extensions p) 0x0000 = Some (u16_vec ([0] @ u16_vec (ch_server_name p)))"
    "find_ext (build_extensions p) 0x0033 = Some ([0, 36, 0, 0x1d, 0, 32] @ ch_key_share p)"
    "find_ext (build_extensions p) 0x002b = Some [4, 0x0a, 0x0a, 0x03, 0x04]"
    using find_ext_block [OF small] assms(3)
    by (simp_all add: build_extensions_block extension_list_def GREASE_def u16_vec_def be16_literals)
  ultimately show ?thesis by (simp add: Let_def build_extensions_block)
qed

theorem client_hello_wellformed_witness:
  "find_ext (build_extensions \<lparr> ch_server_name = str ''a.b'', ch_key_share = replicate 32 1,
      ch_random = replicate 32 2, ch_session_id = replicate 32 0 \<rparr>) 0x0033 =
     Some ([0, 36, 0, 0x1d, 0, 32] @ replicate 32 1)"
proof -
  let ?p = "\<lparr> ch_server_name = str ''a.b'', ch_key_share = replicate 32 1,
      ch_random = replicate 32 2, ch_session_id = replicate 32 0 \<rparr>"
  have "length (ch_random ?p) = 32" "length (ch_session_id ?p) = 32" "length (ch_key_share ?p) = 32"
    "length (ch_server_name ?p) \<le> 65000" by (simp_all add: str_def)
  from client_hello_wellformed [OF this] show ?thesis
    unfolding Let_def client_hello_params.select_convs by blast
qed

lemma length_authed_hello:
  assumes "aead_correct (aes256_seal c) (aes256_open c)" "length (ah_random p) = 32" "length (ah_short_id p) = 8"
    "length (ah_key_share p) = 32"
  shows "length (build_authed_client_hello c p) = length (ah_server_name p) + 248"
  using authed_hello_layout [OF assms(2), of c] length_sealed_session_id [OF assms(1,3)] assms(2,4)
    length_hello_prefix [of "zeroed_params p"] length_build_extensions [of "zeroed_params p"]
  by (simp add: hello_suffix_def zeroed_params_def CIPHERS_def)

end
