(* ===== verification/Handshake.thy ===== *)
theory Handshake
  imports Auth KeySchedule RecordLayer Cert ClientHello "HOL-Library.Sublist"
begin

text \<open>
  The TLS 1.3 handshake driver, \<^verbatim>\<open>src/reality/handshake.rs\<close>: the reassembler of handshake messages, the
  record reader, and \<open>drive\<close>.

  The TCP stream is a script: the results the reads will give, in order (an empty chunk is the end of the
  stream, and so is the end of the script), for each write or flush whether it fails and after how many
  bytes (none fails after the end of the script), and everything written so far. A panic in the record layer makes the driver
  \<^const>\<open>None\<close>. Diagnostics are not modelled.
\<close>

section \<open>Reassembling handshake messages\<close>

text \<open>The loop of \<open>push\<close>: the messages cut off, and what stays in the buffer.\<close>

function cut_messages :: "bytes \<Rightarrow> bytes list \<times> bytes" where
  "cut_messages buf =
     (if length buf < 4 then ([], buf)
      else let total = 4 + u24 (take 3 (drop 1 buf))
           in if length buf < total then ([], buf)
              else apfst ((#) (take total buf)) (cut_messages (drop total buf)))"
  by pat_completeness auto
termination
  by (relation "measure length") auto

declare cut_messages.simps [simp del]

record handshake_reassembler = hr_buf :: bytes

definition reassembler_new :: handshake_reassembler where
  "reassembler_new = \<lparr> hr_buf = [] \<rparr>"

definition reassembler_push :: "bytes \<Rightarrow> handshake_reassembler \<Rightarrow> bytes list \<times> handshake_reassembler" where
  "reassembler_push data r =
     (let (out, buf) = cut_messages (hr_buf r @ data) in (out, r\<lparr> hr_buf := buf \<rparr>))"

definition reassembler_is_empty :: "handshake_reassembler \<Rightarrow> bool" where
  "reassembler_is_empty r = (hr_buf r = [])"

section \<open>The stream and the record reader\<close>

record net =
  net_in :: "bytes result list"
  net_wr :: "nat option list"
  net_out :: bytes

text \<open>\<open>read_buf\<close> in a loop until the buffer holds \<open>n\<close> bytes.\<close>

fun fill :: "nat \<Rightarrow> bytes \<Rightarrow> bytes result list \<Rightarrow> (bytes \<times> bytes result list) result" where
  "fill n buf [] = (if n \<le> length buf then Inr (buf, []) else Inl (Reality ''EOF''))"
| "fill n buf (r # rs) =
     (if n \<le> length buf then Inr (buf, r # rs)
      else case r of
             Inl e \<Rightarrow> Inl (Reality ''read'')
           | Inr d \<Rightarrow> if d = [] then Inl (Reality ''EOF'') else fill n (buf @ d) rs)"

text \<open>\<open>RecordReader::next\<close>: the record, the reader's buffer and the stream behind it.\<close>

definition reader_next :: "bytes \<Rightarrow> bytes result list \<Rightarrow>
    ((u8 \<times> bytes \<times> bytes) \<times> bytes \<times> bytes result list) result" where
  "reader_next buf ins =
     and_then (fill 5 buf ins) (\<lambda>(buf, ins).
     let header = take 5 buf; len = unat (from_be16 (header ! 3) (header ! 4)) in
     and_then (require (len \<le> MAX_TLS_RECORD) ''record length'') (\<lambda>_.
     and_then (fill (5 + len) buf ins) (\<lambda>(buf, ins).
     Inr ((header ! 0, header, take len (drop 5 buf)), drop (5 + len) buf, ins))))"

text \<open>One \<open>write_all\<close> or \<open>flush\<close>.\<close>

definition net_write :: "bytes \<Rightarrow> net \<Rightarrow> unit result \<times> net" where
  "net_write b n =
     (case net_wr n of
        Some k # ws \<Rightarrow> (Inl (Reality ''write''), n\<lparr> net_wr := ws, net_out := net_out n @ take k b \<rparr>)
      | None # ws \<Rightarrow> (Inr (), n\<lparr> net_wr := ws, net_out := net_out n @ b \<rparr>)
      | [] \<Rightarrow> (Inr (), n\<lparr> net_out := net_out n @ b \<rparr>))"

text \<open>Several of them, stopping at the first that fails.\<close>

fun net_writes :: "bytes list \<Rightarrow> net \<Rightarrow> unit result \<times> net" where
  "net_writes [] n = (Inr (), n)"
| "net_writes (b # bs) n =
     (case net_write b n of (Inl e, n') \<Rightarrow> (Inl e, n') | (Inr _, n') \<Rightarrow> net_writes bs n')"

definition plain_record :: "u8 \<Rightarrow> u16 \<Rightarrow> bytes \<Rightarrow> bytes" where
  "plain_record content_type version body =
     [content_type] @ be16 version @ be16 (of_nat (length body)) @ body"

definition write_record :: "u8 \<Rightarrow> u16 \<Rightarrow> bytes \<Rightarrow> net \<Rightarrow> unit result \<times> net" where
  "write_record content_type version body n =
     (if MAX_TLS_PLAINTEXT < length body then (Inl (Reality ''plaintext record too long''), n)
      else net_write (plain_record content_type version body) n)"

section \<open>The driver\<close>

record handshake_input =
  hi_client_hello :: bytes
  hi_client_eph_secret :: bytes
  hi_expected_session_id :: bytes

record handshake_output =
  ho_recv_keys :: record_keys
  ho_send_keys :: record_keys
  ho_leftover :: bytes
  ho_s_ap_secret :: bytes
  ho_c_ap_secret :: bytes

text \<open>
  The loop over the messages cut from one record: whether the server's Finished was reached, the
  transcript, and whether a certificate has been verified.
\<close>

fun flight_messages :: "crypto \<Rightarrow> (bytes \<Rightarrow> unit result) \<Rightarrow> hs_keys \<Rightarrow> bytes list \<Rightarrow> bytes \<Rightarrow> bool \<Rightarrow>
    (bool \<times> bytes \<times> bool) result" where
  "flight_messages c verify_cert hs [] transcript cert_verified = Inr (False, transcript, cert_verified)"
| "flight_messages c verify_cert hs (msg # msgs) transcript cert_verified =
     (if msg ! 0 = 0x08 then flight_messages c verify_cert hs msgs (transcript @ msg) cert_verified
      else if msg ! 0 = 0x0b then
        and_then (verify_cert msg) (\<lambda>_. flight_messages c verify_cert hs msgs (transcript @ msg) True)
      else if msg ! 0 = 0x0f then flight_messages c verify_cert hs msgs (transcript @ msg) cert_verified
      else if msg ! 0 = 0x14 then
        and_then (require cert_verified ''no verified Certificate'') (\<lambda>_.
        let th = transcript_hash c [transcript];
            expected = compute_finished_verify_data c (s_hs_secret hs) th in
        and_then (ok_or (get_range msg 4 (length msg)) ''Finished truncated'') (\<lambda>got.
        and_then (require (got = expected) ''Finished MAC'') (\<lambda>_.
        Inr (True, transcript @ msg, cert_verified))))
      else Inl (Reality ''unexpected handshake type''))"

text \<open>How many bytes are still to come: every record takes at least its header.\<close>

definition pending_bytes :: "bytes \<Rightarrow> bytes result list \<Rightarrow> nat" where
  "pending_bytes buf ins = length buf + sum_list (map (case_sum (\<lambda>_. 0) length) ins)"

lemma fill_pending: "fill n buf ins = Inr (buf', ins') \<Longrightarrow> pending_bytes buf' ins' = pending_bytes buf ins"
  by (induction n buf ins rule: fill.induct) (auto simp: pending_bytes_def split: if_splits sum.splits)

lemma fill_length: "fill n buf ins = Inr (buf', ins') \<Longrightarrow> n \<le> length buf'"
  by (induction n buf ins rule: fill.induct) (auto split: if_splits sum.splits)

lemma reader_next_pending:
  assumes "reader_next buf ins = Inr (r, buf', ins')"
  shows "pending_bytes buf' ins' + 5 \<le> pending_bytes buf ins"
proof -
  from assms obtain b1 i1 b2 i2 len where f: "fill 5 buf ins = Inr (b1, i1)" "fill (5 + len) b1 i1 = Inr (b2, i2)"
      and b: "buf' = drop (5 + len) b2" "ins' = i2"
    by (auto simp: reader_next_def and_then_Inr Let_def)
  from fill_pending [OF f(1)] fill_pending [OF f(2)] fill_length [OF f(2)] show ?thesis
    by (simp add: b pending_bytes_def)
qed

text \<open>The loop over the records of the server's flight.\<close>

function flight :: "crypto \<Rightarrow> (bytes \<Rightarrow> unit result) \<Rightarrow> hs_keys \<Rightarrow> bytes \<Rightarrow> bytes result list \<Rightarrow> record_keys \<Rightarrow>
    handshake_reassembler \<Rightarrow> bytes \<Rightarrow> bool \<Rightarrow> (bytes \<times> bytes \<times> bytes result list) result option" where
  "flight c verify_cert hs buf ins recv reasm transcript cert_verified =
     (case reader_next buf ins of
        Inl e \<Rightarrow> Some (Inl e)
      | Inr ((ct, hdr, payload), buf', ins') \<Rightarrow>
          if ct = 0x14 then flight c verify_cert hs buf' ins' recv reasm transcript cert_verified
          else if ct = 0x17 then
            (case open_record c hdr payload recv of
               None \<Rightarrow> None
             | Some (Inl e, recv') \<Rightarrow> Some (Inl e)
             | Some (Inr (inner_type, content), recv') \<Rightarrow>
                 if inner_type \<noteq> 0x16 then Some (Inl (Reality ''inner type not handshake''))
                 else let (msgs, reasm') = reassembler_push content reasm in
                   (case flight_messages c verify_cert hs msgs transcript cert_verified of
                      Inl e \<Rightarrow> Some (Inl e)
                    | Inr (finished, transcript', cert_verified') \<Rightarrow>
                        if finished then Some (Inr (transcript', buf', ins'))
                        else flight c verify_cert hs buf' ins' recv' reasm' transcript' cert_verified'))
          else Some (Inl (Reality ''unexpected record type'')))"
  by pat_completeness auto
termination
  by (relation "measure (\<lambda>(c, v, hs, buf, ins, r). pending_bytes buf ins)") (auto dest: reader_next_pending)

declare flight.simps [simp del]

definition CLIENT_CCS :: bytes where
  "CLIENT_CCS = [0x14, 0x03, 0x03, 0x00, 0x01, 0x01]"

text \<open>Steps 5 and 6: the client's Finished, and the application keys.\<close>

definition finish_handshake :: "crypto \<Rightarrow> hs_keys \<Rightarrow> bytes \<Rightarrow> bytes \<Rightarrow> net \<Rightarrow> (handshake_output result \<times> net) option" where
  "finish_handshake c hs transcript leftover n =
     (let send_hs = record_keys_new (hs_client_key hs) (hs_client_iv hs);
          th_sfin = transcript_hash c [transcript];
          cfin = compute_finished_verify_data c (c_hs_secret hs) th_sfin;
          fin_msg = [0x14, 0x00, 0x00, 0x20] @ cfin
      in case seal c 0x16 fin_msg send_hs of
           None \<Rightarrow> None
         | Some (fin_record, _) \<Rightarrow>
             (case net_writes [fin_record, []] n of
                (Inl e, n') \<Rightarrow> Some (Inl e, n')
              | (Inr _, n') \<Rightarrow>
                  let app = derive_application_keys c (handshake_secret hs) th_sfin
                  in Some (Inr \<lparr>
                       ho_recv_keys = record_keys_new (ap_server_key app) (ap_server_iv app),
                       ho_send_keys = record_keys_new (ap_client_key app) (ap_client_iv app),
                       ho_leftover = leftover,
                       ho_s_ap_secret = s_ap_secret app,
                       ho_c_ap_secret = c_ap_secret app \<rparr>, n')))"

text \<open>Steps 2 to 6, after the ClientHello has been sent.\<close>

definition drive_from_server_hello :: "crypto \<Rightarrow> (bytes \<Rightarrow> unit result) \<Rightarrow> handshake_input \<Rightarrow> net \<Rightarrow>
    (handshake_output result \<times> net) option" where
  "drive_from_server_hello c verify_cert input n =
     (case reader_next [] (net_in n) of
        Inl e \<Rightarrow> Some (Inl e, n)
      | Inr ((ct, _, sh_msg), buf, ins) \<Rightarrow>
          if ct \<noteq> 0x16 then Some (Inl (Reality ''first record not handshake''), n)
          else
            (case parse_server_hello sh_msg (hi_expected_session_id input) of
               Inl e \<Rightarrow> Some (Inl e, n)
             | Inr sh \<Rightarrow>
                 let transcript = hi_client_hello input @ sh_msg;
                     ecdhe = x25519_shared_secret c (hi_client_eph_secret input) (ps_server_key_share sh)
                 in (case derive_handshake_keys c ecdhe (hi_client_hello input) sh_msg of
                       Inl e \<Rightarrow> Some (Inl e, n)
                     | Inr hs \<Rightarrow>
                         (case flight c verify_cert hs buf ins (record_keys_new (hs_server_key hs) (hs_server_iv hs))
                                 reassembler_new transcript False of
                            None \<Rightarrow> None
                          | Some (Inl e) \<Rightarrow> Some (Inl e, n)
                          | Some (Inr (transcript', leftover, ins')) \<Rightarrow>
                              finish_handshake c hs transcript' leftover (n\<lparr> net_in := ins' \<rparr>)))))"

definition drive :: "crypto \<Rightarrow> (bytes \<Rightarrow> unit result) \<Rightarrow> handshake_input \<Rightarrow> net \<Rightarrow>
    (handshake_output result \<times> net) option" where
  "drive c verify_cert input n =
     (case write_record 0x16 0x0301 (hi_client_hello input) n of
        (Inl e, n1) \<Rightarrow> Some (Inl e, n1)
      | (Inr _, n1) \<Rightarrow>
          (case net_writes [CLIENT_CCS, []] n1 of
             (Inl e, n2) \<Rightarrow> Some (Inl e, n2)
           | (Inr _, n2) \<Rightarrow> drive_from_server_hello c verify_cert input n2))"

section \<open>Reassembly\<close>

text \<open>A whole message, and a beginning of one.\<close>

definition framed :: "bytes \<Rightarrow> bool" where
  "framed m \<longleftrightarrow> 4 \<le> length m \<and> 4 + u24 (take 3 (drop 1 m)) = length m"

definition incomplete :: "bytes \<Rightarrow> bool" where
  "incomplete b \<longleftrightarrow> length b < 4 \<or> length b < 4 + u24 (take 3 (drop 1 b))"

lemma cut_messages_incomplete: "incomplete b \<Longrightarrow> cut_messages b = ([], b)"
  by (subst cut_messages.simps) (auto simp: incomplete_def Let_def)

lemma cut_messages_framed:
  assumes "framed m"
  shows "cut_messages (m @ b) = apfst ((#) m) (cut_messages b)"
proof -
  have m: "4 \<le> length m" "4 + u24 (take 3 (drop 1 m)) = length m" using assms unfolding framed_def by simp_all
  have "take 3 (drop 1 (m @ b)) = take 3 (drop 1 m)" using m(1) by simp
  then have t: "4 + u24 (take 3 (drop 1 (m @ b))) = length m" using m(2) by (simp only:)
  from m(1) show ?thesis by (subst cut_messages.simps) (simp only: t Let_def, simp)
qed

lemma cut_messages_concat:
  "list_all framed ms \<Longrightarrow> cut_messages (concat ms @ b) = apfst ((@) ms) (cut_messages b)"
proof (induction ms)
  case (Cons m ms)
  then show ?case by (cases "cut_messages b") (simp add: cut_messages_framed)
qed (simp add: apfst_def map_prod_def)

lemma cut_messages_parts:
  "cut_messages b = (ms, r) \<Longrightarrow> b = concat ms @ r \<and> list_all framed ms \<and> incomplete r"
proof (induction b arbitrary: ms r rule: cut_messages.induct)
  case (1 b)
  let ?t = "4 + u24 (take 3 (drop 1 b))"
  show ?case
  proof (cases "incomplete b")
    case True
    with 1(2) show ?thesis by (simp add: cut_messages_incomplete)
  next
    case False
    obtain ms' where c: "cut_messages (drop ?t b) = (ms', r)" and ms: "ms = take ?t b # ms'"
      using 1(2) False cut_messages.simps [of b] by (cases "cut_messages (drop ?t b)") (auto simp: incomplete_def Let_def)
    from False have "framed (take ?t b)" by (auto simp: framed_def incomplete_def take_drop min_def)
    with 1(1) [OF _ refl _ c] False show ?thesis
      by (simp add: ms incomplete_def) (metis append_take_drop_id)
  qed
qed

text \<open>Feeding a list of pieces.\<close>

fun push_all :: "bytes list \<Rightarrow> handshake_reassembler \<Rightarrow> bytes list \<times> handshake_reassembler" where
  "push_all [] r = ([], r)"
| "push_all (d # ds) r =
     (let (out, r') = reassembler_push d r; (out', r'') = push_all ds r' in (out @ out', r''))"

lemma push_all_cut:
  "incomplete (hr_buf r) \<Longrightarrow> push_all ds r =
     (fst (cut_messages (hr_buf r @ concat ds)), r\<lparr> hr_buf := snd (cut_messages (hr_buf r @ concat ds)) \<rparr>)"
proof (induction ds arbitrary: r)
  case Nil
  then show ?case by (simp add: cut_messages_incomplete)
next
  case (Cons d ds)
  obtain ms b where c: "cut_messages (hr_buf r @ d) = (ms, b)" by (cases "cut_messages (hr_buf r @ d)")
  from cut_messages_parts [OF c] have p: "hr_buf r @ d = concat ms @ b" "list_all framed ms" "incomplete b" by auto
  have "hr_buf r @ concat (d # ds) = concat ms @ (b @ concat ds)" using p(1) by simp
  then have "cut_messages (hr_buf r @ concat (d # ds)) = apfst ((@) ms) (cut_messages (b @ concat ds))"
    using cut_messages_concat [OF p(2)] by metis
  with Cons.IH [of "r\<lparr> hr_buf := b \<rparr>"] p(3) show ?case
    by (simp add: reassembler_push_def c Let_def split: prod.splits)
qed

text \<open>
  Handshake messages are recovered whatever the records look like: if the contents of the records, put
  together, are some whole messages followed by a beginning of one, then exactly those messages come out,
  in order and each once, and the beginning stays in the buffer.
\<close>

lemma reassembly_any_records:
  assumes "concat ds = concat ms @ b" "list_all framed ms" "incomplete b"
  shows "push_all ds reassembler_new = (ms, \<lparr> hr_buf = b \<rparr>)"
proof -
  have "incomplete []" by (simp add: incomplete_def)
  with push_all_cut [of reassembler_new ds] cut_messages_concat [OF assms(2), of b] assms(1)
  show ?thesis by (simp add: reassembler_new_def cut_messages_incomplete [OF assms(3)])
qed

section \<open>Authentication\<close>

text \<open>Messages that may come before the Finished; the certificates among them have been verified.\<close>

definition flight_ok :: "(bytes \<Rightarrow> unit result) \<Rightarrow> bytes list \<Rightarrow> bool" where
  "flight_ok verify_cert msgs \<longleftrightarrow>
     list_all (\<lambda>m. m ! 0 = 0x08 \<or> m ! 0 = 0x0f \<or> m ! 0 = 0x0b \<and> verify_cert m = Inr ()) msgs"

definition has_cert :: "bytes list \<Rightarrow> bool" where
  "has_cert msgs \<longleftrightarrow> (\<exists>m\<in>set msgs. m ! 0 = 0x0b)"

text \<open>A complete flight: accepted messages with a certificate, and a Finished with the right MAC.\<close>

definition flight_done :: "crypto \<Rightarrow> (bytes \<Rightarrow> unit result) \<Rightarrow> hs_keys \<Rightarrow> bytes \<Rightarrow> bool \<Rightarrow> bytes list \<Rightarrow> bytes \<Rightarrow> bool" where
  "flight_done c verify_cert hs transcript cert_verified msgs fin \<longleftrightarrow>
     flight_ok verify_cert msgs \<and> (cert_verified \<or> has_cert msgs) \<and> fin ! 0 = 0x14 \<and>
     drop 4 fin = compute_finished_verify_data c (s_hs_secret hs) (transcript_hash c [transcript @ concat msgs])"

lemma flight_messages_spec:
  assumes "flight_messages c v hs ms t cv = Inr (fin, t', cv')"
  shows "if fin then \<exists>msgs f. flight_done c v hs t cv msgs f \<and> t' = t @ concat msgs @ f
         else flight_ok v ms \<and> t' = t @ concat ms \<and> cv' = (cv \<or> has_cert ms)"
  using assms
proof (induction ms arbitrary: t cv)
  case Nil
  then show ?case by (simp add: flight_ok_def has_cert_def)
next
  case (Cons m ms)
  note step = flight_messages.simps(2) [of c v hs m ms t cv]
  have keep: ?case if m: "m ! 0 = 0x08 \<or> m ! 0 = 0x0f \<or> m ! 0 = 0x0b \<and> v m = Inr ()"
      and rest: "flight_messages c v hs ms (t @ m) (cv \<or> m ! 0 = 0x0b) = Inr (fin, t', cv')"
  proof -
    have "flight_done c v hs t cv (m # msgs) f" if "flight_done c v hs (t @ m) (cv \<or> m ! 0 = 0x0b) msgs f" for msgs f
      using that m by (auto simp: flight_done_def flight_ok_def has_cert_def)
    then have "\<exists>msgs f. flight_done c v hs t cv msgs f \<and> t' = t @ concat msgs @ f"
      if "\<exists>msgs f. flight_done c v hs (t @ m) (cv \<or> m ! 0 = 0x0b) msgs f \<and> t' = (t @ m) @ concat msgs @ f"
      using that by (metis append_assoc concat.simps(2))
    with Cons.IH [OF rest] m show ?thesis by (auto simp: flight_ok_def has_cert_def)
  qed
  consider "m ! 0 = 0x08" | "m ! 0 = 0x0b" | "m ! 0 = 0x0f" | "m ! 0 = 0x14"
    using Cons.prems step by (auto split: if_splits)
  then show ?case
  proof cases
    case 2
    then show ?thesis using Cons.prems step keep by (auto simp: and_then_Inr)
  next
    case 4
    then have "flight_done c v hs t cv [] m" "fin" "t' = t @ m"
      using Cons.prems step
      by (auto simp: result_simps require_Inr Let_def flight_done_def flight_ok_def get_range_def split: if_splits)
    then show ?thesis by (auto intro!: exI [of _ "[]"] exI [of _ m])
  qed (use Cons.prems step keep in auto)
qed

lemma flight_spec:
  "flight c v hs buf ins recv reasm t cv = Some (Inr (t', buf', ins')) \<Longrightarrow>
   \<exists>msgs f. flight_done c v hs t cv msgs f \<and> t' = t @ concat msgs @ f"
proof (induction c v hs buf ins recv reasm t cv rule: flight.induct)
  case (1 c v hs buf ins recv reasm t cv)
  note simps = flight.simps [of c v hs buf ins recv reasm t cv]
  obtain ct hdr payload b i where r: "reader_next buf ins = Inr ((ct, hdr, payload), b, i)"
    using "1.prems" simps by (auto split: sum.splits)
  show ?case
  proof (cases "ct = 0x14")
    case True
    with 1(1) [OF r refl refl refl refl True] "1.prems" simps r show ?thesis by simp
  next
    case False
    with "1.prems" simps r obtain content recv' msgs reasm' fin t1 cv1 where
      o: "ct = 0x17" "open_record c hdr payload recv = Some (Inr (0x16, content), recv')"
        "reassembler_push content reasm = (msgs, reasm')"
        "flight_messages c v hs msgs t cv = Inr (fin, t1, cv1)"
      and rest: "if fin then t' = t1 else flight c v hs b i recv' reasm' t1 cv1 = Some (Inr (t', buf', ins'))"
      by (auto split: if_splits option.splits sum.splits prod.splits)
    show ?thesis
    proof (cases fin)
      case True
      with flight_messages_spec [OF o(4)] rest show ?thesis by simp
    next
      case False
      have m: "flight_ok v msgs" "t1 = t @ concat msgs" "cv1 = (cv \<or> has_cert msgs)"
        using flight_messages_spec [OF o(4)] False by auto
      have "\<exists>ms f. flight_done c v hs t1 cv1 ms f \<and> t' = t1 @ concat ms @ f"
        using 1(2) [OF r refl refl refl refl \<open>ct \<noteq> 0x14\<close> o(1) o(2) refl refl refl _ refl o(3) [symmetric] o(4) refl refl False]
          False rest by simp
      then obtain ms f where "flight_done c v hs t1 cv1 ms f" "t' = t1 @ concat ms @ f" by blast
      with m have "flight_done c v hs t cv (msgs @ ms) f \<and> t' = t @ concat (msgs @ ms) @ f"
        by (auto simp: flight_done_def flight_ok_def has_cert_def)
      then show ?thesis by blast
    qed
  qed
qed

text \<open>What a server that is let through has sent: an acceptable ServerHello and a complete flight.\<close>

definition authenticated :: "crypto \<Rightarrow> (bytes \<Rightarrow> unit result) \<Rightarrow> handshake_input \<Rightarrow> bytes \<Rightarrow> hs_keys \<Rightarrow> bytes list \<Rightarrow> bytes \<Rightarrow> bool" where
  "authenticated c verify_cert input sh hs msgs fin \<longleftrightarrow>
     (\<exists>p. parse_server_hello sh (hi_expected_session_id input) = Inr p \<and>
        derive_handshake_keys c (x25519_shared_secret c (hi_client_eph_secret input) (ps_server_key_share p))
          (hi_client_hello input) sh = Inr hs) \<and>
     flight_ok verify_cert msgs \<and> (\<exists>m\<in>set msgs. m ! 0 = 0x0b \<and> verify_cert m = Inr ()) \<and> fin ! 0 = 0x14 \<and>
     drop 4 fin = compute_finished_verify_data c (s_hs_secret hs)
       (transcript_hash c [hi_client_hello input @ sh @ concat msgs])"

text \<open>The application keys of a transcript.\<close>

definition keys_of_transcript :: "crypto \<Rightarrow> hs_keys \<Rightarrow> bytes \<Rightarrow> handshake_output \<Rightarrow> bool" where
  "keys_of_transcript c hs t out \<longleftrightarrow>
     (let app = derive_application_keys c (handshake_secret hs) (transcript_hash c [t])
      in ho_recv_keys out = record_keys_new (ap_server_key app) (ap_server_iv app) \<and>
         ho_send_keys out = record_keys_new (ap_client_key app) (ap_client_iv app) \<and>
         ho_s_ap_secret out = s_ap_secret app \<and> ho_c_ap_secret out = c_ap_secret app)"

text \<open>What writes leave on the wire: all of it, or a beginning if one of them fails.\<close>

lemma net_write_out:
  "net_write b n = (r, n') \<Longrightarrow> \<exists>w. net_out n' = net_out n @ w \<and> prefix w b \<and> (r = Inr () \<longrightarrow> w = b)"
  by (auto simp: net_write_def take_is_prefix split: list.splits option.splits)

lemma net_writes_out:
  "net_writes bs n = (r, n') \<Longrightarrow> \<exists>w. net_out n' = net_out n @ w \<and> prefix w (concat bs) \<and> (r = Inr () \<longrightarrow> w = concat bs)"
proof (induction bs arbitrary: n)
  case (Cons b bs)
  obtain r1 n1 where w1: "net_write b n = (r1, n1)" by (cases "net_write b n")
  from net_write_out [OF w1] obtain w where w: "net_out n1 = net_out n @ w" "prefix w b" "r1 = Inr () \<longrightarrow> w = b" by blast
  show ?case
  proof (cases r1)
    case (Inl e)
    with Cons.prems w1 w show ?thesis by (auto intro: prefix_order.trans [OF w(2)])
  next
    case (Inr u)
    with Cons.prems w1 Cons.IH [of n1] w show ?thesis by auto
  qed
qed simp

lemma write_record_out:
  assumes "write_record ty v body n = (r, n')"
  shows "\<exists>w. net_out n' = net_out n @ w \<and> prefix w (plain_record ty v body) \<and> (r = Inr () \<longrightarrow> w = plain_record ty v body)"
  using assms net_write_out [of "plain_record ty v body" n r n'] by (auto simp: write_record_def split: if_splits)

lemma finish_handshake_out:
  assumes "finish_handshake c hs t l n = Some (r, n')"
  shows "\<exists>w fin_record. net_out n' = net_out n @ w \<and> prefix w fin_record \<and>
    (\<forall>out. r = Inr out \<longrightarrow> w = fin_record \<and> keys_of_transcript c hs t out)"
proof -
  let ?fin = "[0x14, 0x00, 0x00, 0x20] @ compute_finished_verify_data c (c_hs_secret hs) (transcript_hash c [t])"
  obtain rec k where s: "seal c 0x16 ?fin (record_keys_new (hs_client_key hs) (hs_client_iv hs)) = Some (rec, k)"
    using assms by (auto simp: finish_handshake_def Let_def split: option.splits)
  obtain x n1 where w: "net_writes [rec, []] n = (x, n1)" by (cases "net_writes [rec, []] n")
  have e: "n' = n1" "\<And>out. r = Inr out \<Longrightarrow> x = Inr () \<and> keys_of_transcript c hs t out"
    using assms s w
    by (auto simp: finish_handshake_def keys_of_transcript_def Let_def simp del: net_writes.simps split: sum.splits)
  from net_writes_out [OF w] obtain wr where "net_out n1 = net_out n @ wr" "prefix wr rec" "x = Inr () \<longrightarrow> wr = rec" by auto
  with e show ?thesis by blast
qed

text \<open>
  The whole driver: it fails having written no more than the ClientHello and the ChangeCipherSpec, or the
  server is authenticated.
\<close>

lemma drive_from_server_hello_spec:
  assumes "drive_from_server_hello c verify_cert input n = Some (r, n')"
  shows "(\<exists>e. r = Inl e) \<and> net_out n' = net_out n \<or>
    (\<exists>sh hs msgs fin w fin_record. authenticated c verify_cert input sh hs msgs fin \<and>
       net_out n' = net_out n @ w \<and> prefix w fin_record \<and>
       (\<forall>out. r = Inr out \<longrightarrow> w = fin_record \<and>
          keys_of_transcript c hs (hi_client_hello input @ sh @ concat msgs @ fin) out))"
proof (cases "(\<exists>e. r = Inl e) \<and> net_out n' = net_out n")
  case False
  with assms obtain hdr sh buf ins p hs t l i where
    p: "parse_server_hello sh (hi_expected_session_id input) = Inr p"
    and hs: "derive_handshake_keys c (x25519_shared_secret c (hi_client_eph_secret input) (ps_server_key_share p))
      (hi_client_hello input) sh = Inr hs"
    and f: "flight c verify_cert hs buf ins (record_keys_new (hs_server_key hs) (hs_server_iv hs)) reassembler_new
      (hi_client_hello input @ sh) False = Some (Inr (t, l, i))"
    and fin: "finish_handshake c hs t l (n\<lparr> net_in := i \<rparr>) = Some (r, n')"
    by (auto simp: drive_from_server_hello_def Let_def split: sum.splits option.splits prod.splits if_splits)
  from flight_spec [OF f] obtain msgs fm where
    fd: "flight_done c verify_cert hs (hi_client_hello input @ sh) False msgs fm"
    and t: "t = hi_client_hello input @ sh @ concat msgs @ fm" by auto
  from fd have "\<exists>m\<in>set msgs. m ! 0 = 0x0b \<and> verify_cert m = Inr ()"
    by (auto simp: flight_done_def has_cert_def flight_ok_def list_all_iff)
  with p hs fd have "authenticated c verify_cert input sh hs msgs fm"
    unfolding authenticated_def flight_done_def append_assoc by blast
  moreover from finish_handshake_out [OF fin] obtain w rec where "net_out n' = net_out n @ w" "prefix w rec"
      "\<forall>out. r = Inr out \<longrightarrow> w = rec \<and> keys_of_transcript c hs t out" by auto
  ultimately show ?thesis unfolding t by blast
qed simp

lemma drive_spec:
  assumes "drive c verify_cert input n = Some (r, n')"
  defines "opening \<equiv> plain_record 0x16 0x0301 (hi_client_hello input) @ CLIENT_CCS"
  shows "(\<exists>e. r = Inl e) \<and> (\<exists>w. net_out n' = net_out n @ w \<and> prefix w opening) \<or>
    (\<exists>sh hs msgs fin w fin_record. authenticated c verify_cert input sh hs msgs fin \<and>
       net_out n' = net_out n @ opening @ w \<and> prefix w fin_record \<and>
       (\<forall>out. r = Inr out \<longrightarrow> w = fin_record \<and>
          keys_of_transcript c hs (hi_client_hello input @ sh @ concat msgs @ fin) out))"
proof -
  obtain r1 n1 where w1: "write_record 0x16 0x0301 (hi_client_hello input) n = (r1, n1)"
    by (cases "write_record 0x16 0x0301 (hi_client_hello input) n")
  obtain r2 n2 where w2: "net_writes [CLIENT_CCS, []] n1 = (r2, n2)" by (cases "net_writes [CLIENT_CCS, []] n1")
  from write_record_out [OF w1] obtain u where u: "net_out n1 = net_out n @ u"
      "prefix u (plain_record 0x16 0x0301 (hi_client_hello input))"
      "r1 = Inr () \<longrightarrow> u = plain_record 0x16 0x0301 (hi_client_hello input)" by blast
  from net_writes_out [OF w2] obtain v where v: "net_out n2 = net_out n1 @ v" "prefix v CLIENT_CCS"
      "r2 = Inr () \<longrightarrow> v = CLIENT_CCS" by auto
  show ?thesis
  proof (cases "r1 = Inr () \<and> r2 = Inr ()")
    case False
    with assms(1) w1 w2 u v show ?thesis
      by (cases r1; cases r2) (auto simp: drive_def opening_def simp del: net_writes.simps)
  next
    case True
    then have d: "drive_from_server_hello c verify_cert input n2 = Some (r, n')"
      using assms(1) w1 w2 by (auto simp: drive_def simp del: net_writes.simps)
    have o: "net_out n2 = net_out n @ opening" using True u v by (simp add: opening_def)
    from drive_from_server_hello_spec [OF d] show ?thesis unfolding o append_assoc by blast
  qed
qed

text \<open>Primitives to evaluate handshakes on: constant hashes and a tag of zeros.\<close>

definition flat_crypto :: crypto where
  "flat_crypto = \<lparr>
     aes128_seal = (\<lambda>k n a m. m @ replicate 16 0), aes128_open = (\<lambda>k n a c. Some (take (length c - 16) c)),
     aes256_seal = (\<lambda>k n a m. m @ replicate 16 0), aes256_open = (\<lambda>k n a c. Some (take (length c - 16) c)),
     sha256 = (\<lambda>_. replicate 32 1), hmac_sha256 = (\<lambda>_ _. replicate 32 1), hmac_sha512 = (\<lambda>_ _. replicate 64 1),
     hkdf_extract = (\<lambda>_ _. replicate 32 1), hkdf_expand = (\<lambda>_ _ n. replicate n 1), x25519_dh = (\<lambda>_ p. p) \<rparr>"

end
