(* ===== verification/Segmentation.thy ===== *)
theory Segmentation
  imports Handshake
begin

text \<open>
  The handshake driver of \<^verbatim>\<open>src/reality/handshake.rs\<close> over a stream of bytes rather than of chunks: the
  record reader, the flight and the whole driver behave the same for every way the same bytes are cut
  into reads.
\<close>

text \<open>A read script without errors whose chunks are not empty, and the bytes it delivers.\<close>

definition clean :: "bytes result list \<Rightarrow> bool" where
  "clean ins \<longleftrightarrow> list_all (\<lambda>r. \<exists>d. r = Inr d \<and> d \<noteq> []) ins"

definition bytes_of :: "bytes result list \<Rightarrow> bytes" where
  "bytes_of ins = concat (map (case_sum (\<lambda>_. []) id) ins)"

lemma bytes_of_simps [simp]: "bytes_of [] = []" "bytes_of (Inr d # ins) = d @ bytes_of ins"
  by (simp_all add: bytes_of_def)

lemma clean_simps [simp]: "clean []" "clean (Inr d # ins) \<longleftrightarrow> d \<noteq> [] \<and> clean ins" "\<not> clean (Inl e # ins)"
  by (simp_all add: clean_def)

text \<open>The stream as a reader sees it: what is buffered and what is to come.\<close>

definition same_stream :: "bytes \<times> bytes result list \<Rightarrow> bytes \<times> bytes result list \<Rightarrow> bool" where
  "same_stream a b \<longleftrightarrow> clean (snd a) \<and> clean (snd b) \<and>
     fst a @ bytes_of (snd a) = fst b @ bytes_of (snd b)"

lemma fill_clean:
  "clean ins \<Longrightarrow>
   (if n \<le> length (buf @ bytes_of ins)
    then \<exists>buf' ins'. fill n buf ins = Inr (buf', ins') \<and> clean ins' \<and>
      buf' @ bytes_of ins' = buf @ bytes_of ins \<and> n \<le> length buf'
    else fill n buf ins = Inl (Reality ''EOF''))"
proof (induction n buf ins rule: fill.induct)
  case (2 n buf r rs)
  then obtain d where r: "r = Inr d" "d \<noteq> []" by (cases r) auto
  with 2 show ?case by (cases "n \<le> length buf") auto
qed auto

lemma fill_same:
  assumes "same_stream (b, i) (b', i')"
  shows "rel_sum (=) (\<lambda>x y. same_stream x y \<and> n \<le> length (fst x) \<and> n \<le> length (fst y)) (fill n b i) (fill n b' i')"
proof -
  have e: "clean i" "clean i'" "b @ bytes_of i = b' @ bytes_of i'" using assms by (auto simp: same_stream_def)
  show ?thesis
  proof (cases "n \<le> length (b' @ bytes_of i')")
    case True
    with fill_clean [OF e(1), of n b] fill_clean [OF e(2), of n b'] e(3)
    show ?thesis by (auto simp del: length_append simp: same_stream_def)
  next
    case False
    with fill_clean [OF e(1), of n b] fill_clean [OF e(2), of n b'] e(3)
    show ?thesis by (simp del: length_append)
  qed
qed

lemma same_stream_take:
  assumes "same_stream (b, i) (b', i')" "k \<le> length b" "k \<le> length b'"
  shows "take k b = take k b'"
proof -
  have "take k (b @ bytes_of i) = take k (b' @ bytes_of i')" using assms(1) by (simp add: same_stream_def)
  then show ?thesis using assms(2,3) by simp
qed

lemma same_stream_drop:
  assumes "same_stream (b, i) (b', i')" "k \<le> length b" "k \<le> length b'"
  shows "same_stream (drop k b, i) (drop k b', i')"
proof -
  have "drop k (b @ bytes_of i) = drop k (b' @ bytes_of i')" using assms(1) by (simp add: same_stream_def)
  then show ?thesis using assms by (simp add: same_stream_def)
qed

lemma reader_next_same:
  assumes "same_stream (b, i) (b', i')"
  shows "rel_sum (=) (\<lambda>x y. fst x = fst y \<and> same_stream (snd x) (snd y)) (reader_next b i) (reader_next b' i')"
proof (cases "fill 5 b i")
  case (Inl e)
  with fill_same [OF assms, of 5] show ?thesis by (cases "fill 5 b' i'") (auto simp: reader_next_def)
next
  case (Inr x)
  obtain b1 i1 where x: "x = (b1, i1)" by (cases x)
  from fill_same [OF assms, of 5] Inr x obtain b2 i2 where f: "fill 5 b' i' = Inr (b2, i2)"
      and s: "same_stream (b1, i1) (b2, i2)" "5 \<le> length b1" "5 \<le> length b2"
    by (cases "fill 5 b' i'") auto
  have hd: "take 5 b1 = take 5 b2" using s by (rule same_stream_take)
  define len where "len = unat (from_be16 (take 5 b2 ! 3) (take 5 b2 ! 4))"
  have eq: "reader_next b i = and_then (require (len \<le> MAX_TLS_RECORD) ''record length'') (\<lambda>_.
        and_then (fill (5 + len) b1 i1) (\<lambda>(buf, ins).
        Inr ((take 5 b2 ! 0, take 5 b2, take len (drop 5 buf)), drop (5 + len) buf, ins)))"
      "reader_next b' i' = and_then (require (len \<le> MAX_TLS_RECORD) ''record length'') (\<lambda>_.
        and_then (fill (5 + len) b2 i2) (\<lambda>(buf, ins).
        Inr ((take 5 b2 ! 0, take 5 b2, take len (drop 5 buf)), drop (5 + len) buf, ins)))"
    unfolding reader_next_def Inr x f and_then.simps prod.case Let_def hd len_def by (rule refl)+
  have tk: "take len (drop 5 y) = drop 5 (take (5 + len) y)" for y :: bytes by (simp add: drop_take)
  have tk2: "drop 5 (take (5 + len) p) = drop 5 (take (5 + len) q)"
    if "same_stream (p, j) (q, k)" "5 + len \<le> length p" "5 + len \<le> length q" for p q j k
    using same_stream_take [OF that] by simp
  from fill_same [OF s(1), of "5 + len"] show ?thesis
    unfolding eq tk
    by (cases "fill (5 + len) b1 i1"; cases "fill (5 + len) b2 i2")
       (auto simp: require_def same_stream_drop intro: tk2)
qed

text \<open>What of a result does not depend on where the stream was cut.\<close>

definition joined_flight :: "(bytes \<times> bytes \<times> bytes result list) result option \<Rightarrow> (bytes \<times> bytes) result option" where
  "joined_flight = map_option (map_sum id (\<lambda>(t, b, i). (t, b @ bytes_of i)))"

lemma flight_same:
  "same_stream (b, i) (b', i') \<Longrightarrow>
   joined_flight (flight c v hs b i recv reasm t cv) = joined_flight (flight c v hs b' i' recv reasm t cv)"
proof (induction c v hs b i recv reasm t cv arbitrary: b' i' rule: flight.induct)
  case (1 c v hs b i recv reasm t cv)
  note simps = flight.simps [of c v hs b i recv reasm t cv] flight.simps [of c v hs b' i' recv reasm t cv]
  note rel = reader_next_same [OF 1(3)]
  show ?case
  proof (cases "reader_next b i")
    case (Inl e)
    with rel show ?thesis by (cases "reader_next b' i'") (auto simp: simps)
  next
    case (Inr x)
    obtain ct hdr payload b1 i1 where x: "x = ((ct, hdr, payload), b1, i1)" by (cases x) auto
    from rel Inr x obtain b2 i2 where y: "reader_next b' i' = Inr ((ct, hdr, payload), b2, i2)"
        and s: "same_stream (b1, i1) (b2, i2)"
      by (cases "reader_next b' i'") auto
    note r = Inr [unfolded x]
    have loop: "joined_flight (flight c v hs b1 i1 recv1 reasm1 t1 cv1) = joined_flight (flight c v hs b2 i2 recv1 reasm1 t1 cv1)"
      if "ct = 0x17" "open_record c hdr payload recv = Some (Inr (0x16, content), recv1)"
        "reassembler_push content reasm = (msgs, reasm1)" "flight_messages c v hs msgs t cv = Inr (False, t1, cv1)"
      for content recv1 msgs reasm1 t1 cv1
      by (rule 1(2) [OF r refl refl refl refl _ that(1) that(2) refl refl refl _ refl that(3) [symmetric] that(4) refl refl _ s])
         (use that in simp_all)
    have fin: "joined_flight (Some (Inr (t1, b1, i1))) = joined_flight (Some (Inr (t1, b2, i2)))" for t1
      using s by (simp add: joined_flight_def same_stream_def)
    show ?thesis
    proof (cases "ct = 0x14")
      case True
      with 1(1) [OF r refl refl refl refl True s] r y show ?thesis by (simp add: simps)
    next
      case False
      with loop fin r y show ?thesis
        by (auto simp: simps split: option.splits sum.splits prod.splits)
    qed
  qed
qed

definition joined_drive :: "(handshake_output result \<times> net) option \<Rightarrow> (handshake_output result \<times> bytes) option" where
  "joined_drive = map_option (\<lambda>(r, n).
     (map_sum id (\<lambda>out. out\<lparr> ho_leftover := ho_leftover out @ bytes_of (net_in n) \<rparr>) r, net_out n))"

lemma net_write_in: "net_write b (n\<lparr> net_in := i \<rparr>) = apsnd (\<lambda>n. n\<lparr> net_in := i \<rparr>) (net_write b n)"
  by (simp add: net_write_def split: list.splits option.splits)

lemma net_writes_in: "net_writes bs (n\<lparr> net_in := i \<rparr>) = apsnd (\<lambda>n. n\<lparr> net_in := i \<rparr>) (net_writes bs n)"
proof (induction bs arbitrary: n)
  case (Cons b bs)
  then show ?case by (cases "net_write b n"; cases "fst (net_write b n)") (simp_all add: net_write_in)
qed simp

lemma write_record_in:
  "write_record t v b (n\<lparr> net_in := i \<rparr>) = apsnd (\<lambda>n. n\<lparr> net_in := i \<rparr>) (write_record t v b n)"
  by (simp add: write_record_def net_write_in)

lemma finish_handshake_joined:
  assumes "l @ bytes_of i = l' @ bytes_of i'"
  shows "joined_drive (finish_handshake c hs t l (n\<lparr> net_in := i \<rparr>)) =
         joined_drive (finish_handshake c hs t l' (n\<lparr> net_in := i' \<rparr>))"
proof -
  let ?s = "seal c 0x16 ([0x14, 0x00, 0x00, 0x20] @ compute_finished_verify_data c (c_hs_secret hs)
      (transcript_hash c [t])) (record_keys_new (hs_client_key hs) (hs_client_iv hs))"
  show ?thesis
  proof (cases ?s)
    case None
    then show ?thesis unfolding finish_handshake_def Let_def by (simp only: option.case)
  next
    case (Some x)
    obtain rec k where x: "x = (rec, k)" by (cases x)
    obtain r m where w: "net_writes [rec, []] n = (r, m)" by (cases "net_writes [rec, []] n")
    have "finish_handshake c hs t l (n\<lparr> net_in := i \<rparr>) =
        (case r of Inl e \<Rightarrow> Some (Inl e, m\<lparr> net_in := i \<rparr>)
         | Inr _ \<Rightarrow> let app = derive_application_keys c (handshake_secret hs) (transcript_hash c [t])
             in Some (Inr \<lparr> ho_recv_keys = record_keys_new (ap_server_key app) (ap_server_iv app),
               ho_send_keys = record_keys_new (ap_client_key app) (ap_client_iv app), ho_leftover = l,
               ho_s_ap_secret = s_ap_secret app, ho_c_ap_secret = c_ap_secret app \<rparr>, m\<lparr> net_in := i \<rparr>))" for l i
      using Some x w unfolding finish_handshake_def Let_def net_writes_in by simp
    then show ?thesis using assms by (simp add: joined_drive_def Let_def split: sum.splits)
  qed
qed

lemma joined_flight_None: "joined_flight None = joined_flight b \<Longrightarrow> b = None"
  by (cases b) (simp_all add: joined_flight_def)

lemma joined_flight_Inl: "joined_flight (Some (Inl e)) = joined_flight b \<Longrightarrow> b = Some (Inl e)"
  by (cases b; cases "the b") (simp_all add: joined_flight_def)

lemma joined_flight_Inr:
  "joined_flight (Some (Inr (t, l, i))) = joined_flight b \<Longrightarrow>
   \<exists>l' i'. b = Some (Inr (t, l', i')) \<and> l @ bytes_of i = l' @ bytes_of i'"
  by (cases b; cases "the b") (auto simp: joined_flight_def)

text \<open>What \<open>drive\<close> does with the outcome of the flight.\<close>

definition after_flight :: "crypto \<Rightarrow> hs_keys \<Rightarrow> (bytes \<times> bytes \<times> bytes result list) result option \<Rightarrow> net \<Rightarrow>
    (handshake_output result \<times> net) option" where
  "after_flight c hs r n =
     (case r of None \<Rightarrow> None
      | Some (Inl e) \<Rightarrow> Some (Inl e, n)
      | Some (Inr (t, l, i)) \<Rightarrow> finish_handshake c hs t l (n\<lparr> net_in := i \<rparr>))"

lemma after_flight_joined:
  assumes "joined_flight a = joined_flight b"
  shows "joined_drive (after_flight c hs a (n\<lparr> net_in := i \<rparr>)) = joined_drive (after_flight c hs b (n\<lparr> net_in := i' \<rparr>))"
proof (cases a)
  case None
  with assms joined_flight_None [of b] show ?thesis by (simp add: after_flight_def joined_drive_def)
next
  case (Some r)
  show ?thesis
  proof (cases r)
    case (Inl e)
    with assms Some joined_flight_Inl [of e b] show ?thesis by (simp add: after_flight_def joined_drive_def)
  next
    case (Inr x)
    obtain t l j where x: "x = (t, l, j)" by (cases x)
    from joined_flight_Inr [of t l j b] assms Some Inr x obtain l' j' where
      b: "b = Some (Inr (t, l', j'))" "l @ bytes_of j = l' @ bytes_of j'" by auto
    from finish_handshake_joined [OF b(2), of c hs t n] show ?thesis
      by (simp add: after_flight_def Some Inr x b(1))
  qed
qed

lemma drive_from_server_hello_joined:
  assumes "clean i" "clean i'" "bytes_of i = bytes_of i'"
  shows "joined_drive (drive_from_server_hello c v input (n\<lparr> net_in := i \<rparr>)) =
         joined_drive (drive_from_server_hello c v input (n\<lparr> net_in := i' \<rparr>))"
proof -
  have "same_stream ([], i) ([], i')" using assms by (simp add: same_stream_def)
  note rel = reader_next_same [OF this]
  show ?thesis
  proof (cases "reader_next [] i")
    case (Inl e)
    with rel show ?thesis
      by (cases "reader_next [] i'") (auto simp: drive_from_server_hello_def joined_drive_def)
  next
    case (Inr x)
    obtain ct hdr sh b1 i1 where x: "x = ((ct, hdr, sh), b1, i1)" by (cases x) auto
    from rel Inr x obtain b2 i2 where y: "reader_next [] i' = Inr ((ct, hdr, sh), b2, i2)"
        and s: "same_stream (b1, i1) (b2, i2)"
      by (cases "reader_next [] i'") auto
    have eq: "drive_from_server_hello c v input (n\<lparr> net_in := k \<rparr>) =
        (if ct \<noteq> 0x16 then Some (Inl (Reality ''first record not handshake''), n\<lparr> net_in := k \<rparr>)
         else case parse_server_hello sh (hi_expected_session_id input) of
           Inl e \<Rightarrow> Some (Inl e, n\<lparr> net_in := k \<rparr>)
         | Inr p \<Rightarrow> (case derive_handshake_keys c (x25519_shared_secret c (hi_client_eph_secret input)
               (ps_server_key_share p)) (hi_client_hello input) sh of
             Inl e \<Rightarrow> Some (Inl e, n\<lparr> net_in := k \<rparr>)
           | Inr hs \<Rightarrow> after_flight c hs (flight c v hs b j (record_keys_new (hs_server_key hs) (hs_server_iv hs))
               reassembler_new (hi_client_hello input @ sh) False) (n\<lparr> net_in := k \<rparr>)))"
      if "reader_next [] k = Inr ((ct, hdr, sh), b, j)" for k b j
      using that by (simp add: drive_from_server_hello_def after_flight_def Let_def split: sum.split)
    have fl: "joined_drive (after_flight c hs (flight c v hs b1 i1 k r t False) (n\<lparr> net_in := i \<rparr>)) =
        joined_drive (after_flight c hs (flight c v hs b2 i2 k r t False) (n\<lparr> net_in := i' \<rparr>))" for hs k r t
      by (rule after_flight_joined) (rule flight_same [OF s])
    show ?thesis
      unfolding eq [OF Inr [unfolded x]] eq [OF y]
      by (simp add: fl split: sum.split) (simp add: joined_drive_def)
  qed
qed

text \<open>
  C11. The handshake does not depend on how TCP cuts the stream: for two ways of delivering the same
  bytes, the driver panics or not, succeeds or fails with the same error, writes the same bytes, and
  returns the same keys and secrets; and what it leaves unread, buffered or not, is the same.
\<close>

theorem drive_any_segmentation:
  assumes "clean i" "clean i'" "bytes_of i = bytes_of i'"
  shows "joined_drive (drive c verify_cert input (n\<lparr> net_in := i \<rparr>)) =
         joined_drive (drive c verify_cert input (n\<lparr> net_in := i' \<rparr>))"
proof -
  obtain r m where w: "write_record 0x16 0x0301 (hi_client_hello input) n = (r, m)" by fastforce
  obtain r' m' where w': "net_writes [CLIENT_CCS, []] m = (r', m')" by fastforce
  have "drive c verify_cert input (n\<lparr> net_in := j \<rparr>) =
      (case r of Inl e \<Rightarrow> Some (Inl e, m\<lparr> net_in := j \<rparr>)
       | Inr _ \<Rightarrow> (case r' of Inl e \<Rightarrow> Some (Inl e, m'\<lparr> net_in := j \<rparr>)
           | Inr _ \<Rightarrow> drive_from_server_hello c verify_cert input (m'\<lparr> net_in := j \<rparr>)))" for j
    unfolding drive_def write_record_in w apsnd_conv prod.case net_writes_in w' by (rule refl)
  then show ?thesis
    using drive_from_server_hello_joined [OF assms] by (simp add: joined_drive_def split: sum.splits)
qed

theorem drive_any_segmentation_witness:
  "joined_drive (drive demo_crypto (\<lambda>_. Inr ()) \<lparr> hi_client_hello = [1], hi_client_eph_secret = replicate 32 1,
       hi_expected_session_id = [] \<rparr> (\<lparr> net_in = [], net_wr = [], net_out = [] \<rparr>\<lparr> net_in := [Inr [0x16, 3], Inr [3]] \<rparr>)) =
   joined_drive (drive demo_crypto (\<lambda>_. Inr ()) \<lparr> hi_client_hello = [1], hi_client_eph_secret = replicate 32 1,
       hi_expected_session_id = [] \<rparr> (\<lparr> net_in = [], net_wr = [], net_out = [] \<rparr>\<lparr> net_in := [Inr [0x16], Inr [3, 3]] \<rparr>))"
  by (rule drive_any_segmentation) simp_all

end
