(* ===== verification/Vless.thy ===== *)
theory Vless
  imports Address
begin

text \<open>
  VLESS framing, \<^verbatim>\<open>src/reality/vless.rs\<close>: the request header (port before address, address types
  different from TUIC's) and the stripper of the response header, whose length is only known once its
  second byte has arrived.
\<close>

definition VLESS_VERSION :: u8 where "VLESS_VERSION = 0x00"
definition VLESS_CMD_TCP :: u8 where "VLESS_CMD_TCP = 0x01"
definition VLESS_ATYP_IPV4 :: u8 where "VLESS_ATYP_IPV4 = 0x01"
definition VLESS_ATYP_DOMAIN :: u8 where "VLESS_ATYP_DOMAIN = 0x02"
definition VLESS_ATYP_IPV6 :: u8 where "VLESS_ATYP_IPV6 = 0x03"

lemmas vless_consts = VLESS_VERSION_def VLESS_CMD_TCP_def VLESS_ATYP_IPV4_def VLESS_ATYP_DOMAIN_def
  VLESS_ATYP_IPV6_def

fun vless_address :: "target_addr \<Rightarrow> bytes" where
  "vless_address (IpPort (V4 ip) port) = be16 port @ [VLESS_ATYP_IPV4] @ be32 ip"
| "vless_address (IpPort (V6 ip) port) = be16 port @ [VLESS_ATYP_IPV6] @ v6_octets ip"
| "vless_address (DomainPort host port) = be16 port @ [VLESS_ATYP_DOMAIN] @ host_bytes host"

definition encode_vless_request :: "bytes \<Rightarrow> u8 \<Rightarrow> target_addr \<Rightarrow> bytes" where
  "encode_vless_request uuid command target =
     [VLESS_VERSION] @ uuid @ [0] @ [command] @ vless_address target"

record vless_stripper = vs_stripped :: bool

definition stripper_new :: vless_stripper where
  "stripper_new = \<lparr> vs_stripped = False \<rparr>"

definition is_stripped :: "vless_stripper \<Rightarrow> bool" where
  "is_stripped s = vs_stripped s"

text \<open>Returns whether the header is gone, the new state, and the new contents of the buffer.\<close>

definition strip :: "bytes \<Rightarrow> vless_stripper \<Rightarrow> bool \<times> vless_stripper \<times> bytes" where
  "strip buf s =
     (if vs_stripped s then (True, s, buf)
      else if length buf < 2 then (False, s, buf)
      else let addons_len = unat (buf ! 1); header_len = 2 + addons_len
           in if length buf < header_len then (False, s, buf)
              else (True, s\<lparr> vs_stripped := True \<rparr>, drop header_len buf))"

section \<open>Properties\<close>

lemma vless_address_inj:
  "host_fits a \<Longrightarrow> host_fits b \<Longrightarrow> vless_address a @ r = vless_address b @ s \<Longrightarrow> a = b"
proof (induction a rule: vless_address.induct)
  case (1 ip port)
  then show ?case by (cases b rule: vless_address.cases) (auto simp: vless_consts be32_inj be16_inj)
next
  case (2 ip port)
  then show ?case by (cases b rule: vless_address.cases) (auto simp: vless_consts v6_octets_inj be16_inj)
next
  case (3 host port)
  then show ?case
  proof (cases b rule: vless_address.cases)
    case (3 host' port')
    with "3.prems" host_bytes_append_inj [of host r host' s] show ?thesis by (simp add: be16_inj)
  qed (auto simp: vless_consts)
qed

interpretation vless_target: self_delimiting vless_address host_fits
  by unfold_locales (rule vless_address_inj)

text \<open>
  A VLESS request determines what it asks for: if two byte streams that begin with requests are
  equal, then the users, the commands, the targets and everything behind the requests are equal.
\<close>

lemma vless_unambiguous:
  assumes "length u = 16" "length u' = 16" "host_fits t" "host_fits t'"
    "encode_vless_request u c t @ r = encode_vless_request u' c' t' @ r'"
  shows "u = u' \<and> c = c' \<and> t = t' \<and> r = r'"
proof -
  have "([VLESS_VERSION] @ u @ [0] @ [c]) @ vless_address t @ r =
      ([VLESS_VERSION] @ u' @ [0] @ [c']) @ vless_address t' @ r'"
    using assms(5) by (simp add: encode_vless_request_def)
  from vless_target.framed_payload [OF _ this assms(3,4)] assms(1,2) show ?thesis by simp
qed

text \<open>
  Feeding the decrypted stream in pieces: the buffer accumulates until the header is complete, then
  everything is passed on.
\<close>

fun feed_stripper :: "bytes list \<Rightarrow> vless_stripper \<Rightarrow> bytes \<Rightarrow> bytes \<Rightarrow> vless_stripper \<times> bytes \<times> bytes" where
  "feed_stripper [] s buf out = (s, buf, out)"
| "feed_stripper (d # ds) s buf out =
     (let (done, s', buf') = strip (buf @ d) s
      in if done then feed_stripper ds s' [] (out @ buf') else feed_stripper ds s' buf' out)"

text \<open>What the whole stream should come out as.\<close>

definition stripped_stream :: "bytes \<Rightarrow> bytes" where
  "stripped_stream b = (if length b < 2 \<or> length b < 2 + unat (b ! 1) then [] else drop (2 + unat (b ! 1)) b)"

lemma feed_stripper_done:
  "vs_stripped s \<Longrightarrow> feed_stripper ds s [] out = (s, [], out @ concat ds)"
  by (induction ds arbitrary: out) (simp_all add: strip_def)

lemma stripped_stream_append:
  "\<not> (length b < 2 \<or> length b < 2 + unat (b ! 1)) \<Longrightarrow> stripped_stream (b @ c) = stripped_stream b @ c"
  by (auto simp: stripped_stream_def nth_append)

lemma feed_stripper_spec:
  "\<not> vs_stripped s \<Longrightarrow> length buf < 2 \<or> length buf < 2 + unat (buf ! 1) \<Longrightarrow>
   snd (snd (feed_stripper ds s buf out)) = out @ stripped_stream (buf @ concat ds)"
proof (induction ds arbitrary: s buf)
  case Nil
  then show ?case by (simp add: stripped_stream_def)
next
  case (Cons d ds)
  let ?b = "buf @ d"
  show ?case
  proof (cases "length ?b < 2 \<or> length ?b < 2 + unat (?b ! 1)")
    case True
    then have "strip ?b s = (False, s, ?b)" using Cons.prems(1) by (auto simp: strip_def Let_def)
    with Cons.IH [OF Cons.prems(1) True] show ?thesis by simp
  next
    case False
    then have "strip ?b s = (True, s\<lparr> vs_stripped := True \<rparr>, stripped_stream ?b)"
      using Cons.prems(1) by (auto simp: strip_def Let_def stripped_stream_def)
    then show ?thesis
      using feed_stripper_done [of "s\<lparr> vs_stripped := True \<rparr>" ds "out @ stripped_stream ?b"]
        stripped_stream_append [OF False, of "concat ds"] by simp
  qed
qed

text \<open>
  Stripping does not depend on how the response is cut into records: whatever the pieces, what
  comes out is the response without its first 2 + N bytes, where N is its second byte, and nothing
  before those have arrived. No payload byte is lost, duplicated or taken for part of the header.
\<close>

lemma strip_any_segmentation:
  "snd (snd (feed_stripper ds stripper_new [] [])) = stripped_stream (concat ds)"
  using feed_stripper_spec [of stripper_new "[]" ds "[]"] by (simp add: stripper_new_def)

end
