(* ===== verification/RealityStream.thy ===== *)
theory RealityStream
  imports Handshake Vless
begin

text \<open>
  The application stream over REALITY, \<^verbatim>\<open>src/reality_upstream.rs\<close>: decoding of records with their post-handshake
  messages, KeyUpdate in both directions, stripping of the VLESS response header, and the polled reads
  and writes with their back-pressure.

  The two halves of the TCP connection are scripts of poll results; a half whose script is used up is
  pending. The bytes accepted by the write half are collected in \<open>rs_wire\<close>. An I/O error carries a tag
  for its kind. A panic of the record layer is \<^const>\<open>None\<close>.
\<close>

definition MAX_PLAINTEXT :: nat where "MAX_PLAINTEXT = 16384"

datatype 'a poll = Pending | Ready 'a

record reality_stream =
  rs_reads :: "bytes result poll list"
  rs_writes :: "nat result poll list"
  rs_wire :: bytes
  rs_recv_keys :: record_keys
  rs_send_keys :: record_keys
  rs_read_raw :: bytes
  rs_staging :: bytes
  rs_plaintext_out :: bytes
  rs_write_pending :: bytes
  rs_resp :: vless_stripper
  rs_server_ap_secret :: bytes
  rs_client_ap_secret :: bytes

definition record_keys_from_secret :: "crypto \<Rightarrow> bytes \<Rightarrow> record_keys" where
  "record_keys_from_secret c secret =
     record_keys_new (expand_label c secret ''key'' [] 16) (expand_label c secret ''iv'' [] 12)"

datatype decoded = Data bytes | Drop | Eof

definition reality_stream_new :: "bytes result poll list \<Rightarrow> nat result poll list \<Rightarrow> record_keys \<Rightarrow> record_keys \<Rightarrow>
    bytes \<Rightarrow> bytes \<Rightarrow> bytes \<Rightarrow> reality_stream" where
  "reality_stream_new reads writes recv_keys send_keys leftover server_ap_secret client_ap_secret = \<lparr>
     rs_reads = reads, rs_writes = writes, rs_wire = [],
     rs_recv_keys = recv_keys, rs_send_keys = send_keys,
     rs_read_raw = leftover, rs_staging = [], rs_plaintext_out = [], rs_write_pending = [],
     rs_resp = stripper_new,
     rs_server_ap_secret = server_ap_secret, rs_client_ap_secret = client_ap_secret \<rparr>"

text \<open>The reply to a KeyUpdate that asks for one.\<close>

definition KEY_UPDATE_REPLY :: bytes where
  "KEY_UPDATE_REPLY = [0x18, 0x00, 0x00, 0x01, 0x00]"

definition on_key_update :: "crypto \<Rightarrow> bytes \<Rightarrow> reality_stream \<Rightarrow> (unit result \<times> reality_stream) option" where
  "on_key_update c msg s =
     (if length msg \<noteq> 5 \<or> take 3 (drop 1 msg) \<noteq> [0x00, 0x00, 0x01]
      then Some (Inl (Io ''KeyUpdate frame''), s)
      else let request_update = msg ! 4 in
        if 1 < request_update then Some (Inl (Io ''request_update''), s)
        else
          let server_secret = next_application_traffic_secret c (rs_server_ap_secret s);
              s1 = s\<lparr> rs_server_ap_secret := server_secret,
                      rs_recv_keys := record_keys_from_secret c server_secret \<rparr>
          in if request_update = 1
             then (case seal c 0x16 KEY_UPDATE_REPLY (rs_send_keys s1) of
                     None \<Rightarrow> None
                   | Some (reply, send_keys) \<Rightarrow>
                       let client_secret = next_application_traffic_secret c (rs_client_ap_secret s1)
                       in Some (Inr (), s1\<lparr>
                            rs_write_pending := rs_write_pending s1 @ reply,
                            rs_client_ap_secret := client_secret,
                            rs_send_keys := record_keys_from_secret c client_secret \<rparr>))
             else Some (Inr (), s1))"

text \<open>The \<open>while rest.len() >= 4\<close> loop over the messages of a post-handshake record.\<close>

function post_handshake :: "crypto \<Rightarrow> bytes \<Rightarrow> reality_stream \<Rightarrow> (unit result \<times> reality_stream) option" where
  "post_handshake c rest s =
     (if length rest < 4 then Some (Inr (), s)
      else
        let total = 4 + u24 (take 3 (drop 1 rest)) in
        if length rest < total then Some (Inr (), s)
        else if rest ! 0 = 0x18 then
          (case on_key_update c (take total rest) s of
             None \<Rightarrow> None
           | Some (Inl e, s') \<Rightarrow> Some (Inl e, s')
           | Some (Inr _, s') \<Rightarrow> post_handshake c (drop total rest) s')
        else post_handshake c (drop total rest) s)"
  by pat_completeness auto
termination
  by (relation "measure (\<lambda>(c, rest, s). length rest)") auto

declare post_handshake.simps [simp del]

definition decode_one :: "crypto \<Rightarrow> reality_stream \<Rightarrow> (decoded option result \<times> reality_stream) option" where
  "decode_one c s =
     (if length (rs_read_raw s) < 5 then Some (Inr None, s)
      else
        let header = take 5 (rs_read_raw s);
            len = unat (from_be16 (header ! 3) (header ! 4)) in
        if MAX_TLS_RECORD < len then Some (Inl (Io ''record length''), s)
        else if length (rs_read_raw s) < 5 + len then Some (Inr None, s)
        else
          let payload = take len (drop 5 (rs_read_raw s));
              s1 = s\<lparr> rs_read_raw := drop (5 + len) (rs_read_raw s) \<rparr> in
          (case open_record c header payload (rs_recv_keys s1) of
             None \<Rightarrow> None
           | Some (Inl e, keys) \<Rightarrow> Some (Inl (Io ''record''), s1\<lparr> rs_recv_keys := keys \<rparr>)
           | Some (Inr (inner, content), keys) \<Rightarrow>
               let s2 = s1\<lparr> rs_recv_keys := keys \<rparr> in
               if inner = 0x17 then Some (Inr (Some (Data content)), s2)
               else if inner = 0x15 then
                 (if get_at content 0 = Some 1 \<and> get_at content 1 = Some 0 then Some (Inr (Some Eof), s2)
                  else Some (Inl (Io ''alert''), s2))
               else if inner = 0x16 then
                 (case post_handshake c content s2 of
                    None \<Rightarrow> None
                  | Some (Inl e, s3) \<Rightarrow> Some (Inl e, s3)
                  | Some (Inr _, s3) \<Rightarrow> Some (Inr (Some Drop), s3))
               else Some (Inr (Some Drop), s2)))"

definition absorb_app :: "bytes \<Rightarrow> reality_stream \<Rightarrow> reality_stream" where
  "absorb_app content s =
     (if is_stripped (rs_resp s)
      then s\<lparr> rs_plaintext_out := rs_plaintext_out s @ content \<rparr>
      else
        let (stripped, resp, staging) = strip (rs_staging s @ content) (rs_resp s) in
        if stripped
        then s\<lparr> rs_resp := resp, rs_plaintext_out := rs_plaintext_out s @ staging, rs_staging := [] \<rparr>
        else s\<lparr> rs_resp := resp, rs_staging := staging \<rparr>)"

text \<open>
  The loop of \<open>poll_flush_pending\<close> over the write script: result, rest of the script, what is still
  pending and what has gone out. A half that claims to have taken more than it was given makes
  \<open>split_to\<close> panic.
\<close>

fun flush_loop :: "nat result poll list \<Rightarrow> bytes \<Rightarrow> bytes \<Rightarrow>
    (unit result poll \<times> nat result poll list \<times> bytes \<times> bytes) option" where
  "flush_loop [] pending wire =
     (if pending = [] then Some (Ready (Inr ()), [], pending, wire) else Some (Pending, [], pending, wire))"
| "flush_loop (w # ws) pending wire =
     (if pending = [] then Some (Ready (Inr ()), w # ws, pending, wire)
      else case w of
             Pending \<Rightarrow> Some (Pending, ws, pending, wire)
           | Ready (Inl e) \<Rightarrow> Some (Ready (Inl e), ws, pending, wire)
           | Ready (Inr k) \<Rightarrow>
               if k = 0 then Some (Ready (Inl (Io ''WriteZero'')), ws, pending, wire)
               else if length pending < k then None
               else flush_loop ws (drop k pending) (wire @ take k pending))"

definition poll_flush_pending :: "reality_stream \<Rightarrow> (unit result poll \<times> reality_stream) option" where
  "poll_flush_pending s =
     (case flush_loop (rs_writes s) (rs_write_pending s) (rs_wire s) of
        None \<Rightarrow> None
      | Some (r, ws, pending, wire) \<Rightarrow>
          Some (r, s\<lparr> rs_writes := ws, rs_write_pending := pending, rs_wire := wire \<rparr>))"

text \<open>\<open>let _ = self.poll_flush_pending(cx)?\<close>: pending is ignored, an error is not.\<close>

definition try_flush :: "reality_stream \<Rightarrow> (unit result \<times> reality_stream) option" where
  "try_flush s =
     (case poll_flush_pending s of
        None \<Rightarrow> None
      | Some (Ready (Inl e), s') \<Rightarrow> Some (Inl e, s')
      | Some (_, s') \<Rightarrow> Some (Inr (), s'))"

definition poll_write :: "crypto \<Rightarrow> bytes \<Rightarrow> reality_stream \<Rightarrow> (nat result poll \<times> reality_stream) option" where
  "poll_write c buf s =
     (case poll_flush_pending s of
        None \<Rightarrow> None
      | Some (Pending, s1) \<Rightarrow> Some (Pending, s1)
      | Some (Ready (Inl e), s1) \<Rightarrow> Some (Ready (Inl e), s1)
      | Some (Ready (Inr _), s1) \<Rightarrow>
          if buf = [] then Some (Ready (Inr 0), s1)
          else
            let n = min (length buf) MAX_PLAINTEXT in
            (case seal c 0x17 (take n buf) (rs_send_keys s1) of
               None \<Rightarrow> None
             | Some (rec, keys) \<Rightarrow>
                 (case try_flush (s1\<lparr> rs_send_keys := keys, rs_write_pending := rs_write_pending s1 @ rec \<rparr>) of
                    None \<Rightarrow> None
                  | Some (Inl e, s2) \<Rightarrow> Some (Ready (Inl e), s2)
                  | Some (Inr _, s2) \<Rightarrow> Some (Ready (Inr n), s2))))"

text \<open>
  Both end by asking the write half itself; \<open>half\<close> is its answer.
\<close>

definition poll_flush :: "unit result poll \<Rightarrow> reality_stream \<Rightarrow> (unit result poll \<times> reality_stream) option" where
  "poll_flush half s =
     (case poll_flush_pending s of
        Some (Ready (Inr _), s') \<Rightarrow> Some (half, s')
      | r \<Rightarrow> r)"

definition poll_shutdown :: "unit result poll \<Rightarrow> reality_stream \<Rightarrow> (unit result poll \<times> reality_stream) option" where
  "poll_shutdown half s =
     (case poll_flush_pending s of
        Some (Ready (Inr _), s') \<Rightarrow> Some (half, s')
      | r \<Rightarrow> r)"

text \<open>Which parts of the state an operation leaves alone.\<close>

text \<open>What a flush leaves alone.\<close>

definition same_but_writes :: "reality_stream \<Rightarrow> reality_stream \<Rightarrow> bool" where
  "same_but_writes s s' \<longleftrightarrow> rs_reads s' = rs_reads s \<and> rs_read_raw s' = rs_read_raw s \<and> rs_staging s' = rs_staging s \<and>
     rs_plaintext_out s' = rs_plaintext_out s \<and> rs_resp s' = rs_resp s \<and>
     rs_recv_keys s' = rs_recv_keys s \<and> rs_send_keys s' = rs_send_keys s \<and>
     rs_server_ap_secret s' = rs_server_ap_secret s \<and> rs_client_ap_secret s' = rs_client_ap_secret s"

lemma same_but_writes_refl [simp]: "same_but_writes s s"
  by (simp add: same_but_writes_def)

lemma flush_fields: "poll_flush_pending s = Some (r, s') \<Longrightarrow> same_but_writes s s'"
  by (auto simp: poll_flush_pending_def same_but_writes_def split: option.splits)

lemma try_flush_fields: "try_flush s = Some (r, s') \<Longrightarrow> same_but_writes s s'"
  by (auto simp: try_flush_def split: option.splits poll.splits sum.splits dest: flush_fields)

lemma on_key_update_fields:
  assumes "on_key_update c m s = Some (r, s')"
  shows "rs_read_raw s' = rs_read_raw s \<and> rs_reads s' = rs_reads s \<and> rs_staging s' = rs_staging s \<and>
    rs_plaintext_out s' = rs_plaintext_out s \<and> rs_resp s' = rs_resp s \<and> rs_wire s' = rs_wire s \<and>
    rs_writes s' = rs_writes s"
  using assms by (auto simp: on_key_update_def Let_def split: if_splits option.splits)

text \<open>The loop as a recursion over the messages the record holds.\<close>

fun handle_messages :: "crypto \<Rightarrow> bytes list \<Rightarrow> reality_stream \<Rightarrow> (unit result \<times> reality_stream) option" where
  "handle_messages c [] s = Some (Inr (), s)"
| "handle_messages c (m # ms) s =
     (if m ! 0 = 0x18 then
        (case on_key_update c m s of
           None \<Rightarrow> None
         | Some (Inl e, s') \<Rightarrow> Some (Inl e, s')
         | Some (Inr _, s') \<Rightarrow> handle_messages c ms s')
      else handle_messages c ms s)"

lemma post_handshake_messages: "post_handshake c b s = handle_messages c (fst (cut_messages b)) s"
proof (induction c b s rule: post_handshake.induct)
  case (1 c b s)
  let ?t = "4 + u24 (take 3 (drop 1 b))"
  show ?case
  proof (cases "length b < 4 \<or> length b < ?t")
    case True
    then have "cut_messages b = ([], b)" by (intro cut_messages_incomplete) (auto simp: incomplete_def)
    with True show ?thesis by (subst post_handshake.simps) (auto simp: Let_def)
  next
    case False
    then have f: "\<not> length b < 4" "\<not> length b < ?t" by auto
    have cut: "fst (cut_messages b) = take ?t b # fst (cut_messages (drop ?t b))"
      by (subst cut_messages.simps) (simp only: Let_def f if_False fst_apfst)
    have hd: "take ?t b ! 0 = b ! 0" using f by simp
    have "post_handshake c b s = (if b ! 0 = 0x18 then
        (case on_key_update c (take ?t b) s of None \<Rightarrow> None | Some (Inl e, s') \<Rightarrow> Some (Inl e, s')
         | Some (Inr _, s') \<Rightarrow> post_handshake c (drop ?t b) s')
        else post_handshake c (drop ?t b) s)"
      by (subst post_handshake.simps) (simp only: Let_def f if_False)
    also have "\<dots> = handle_messages c (take ?t b # fst (cut_messages (drop ?t b))) s"
      using 1(1) [OF f(1) refl f(2)] 1(2) [OF f(1) refl f(2)]
      by (simp only: handle_messages.simps hd) (simp split: option.split sum.split)
    finally show ?thesis by (simp only: cut)
  qed
qed

lemma handle_messages_fields:
  "handle_messages c ms s = Some (r, s') \<Longrightarrow>
   rs_read_raw s' = rs_read_raw s \<and> rs_reads s' = rs_reads s \<and> rs_staging s' = rs_staging s \<and>
   rs_plaintext_out s' = rs_plaintext_out s \<and> rs_resp s' = rs_resp s \<and> rs_wire s' = rs_wire s \<and>
    rs_writes s' = rs_writes s"
proof (induction ms arbitrary: s)
  case (Cons m ms)
  then show ?case
    by (auto split: if_splits option.splits sum.splits dest!: on_key_update_fields)
qed simp

lemma decode_one_fields:
  assumes "decode_one c s = Some (r, s')"
  shows "rs_reads s' = rs_reads s \<and> rs_wire s' = rs_wire s \<and> rs_writes s' = rs_writes s \<and> rs_staging s' = rs_staging s \<and>
    rs_plaintext_out s' = rs_plaintext_out s \<and> rs_resp s' = rs_resp s \<and>
    (\<forall>d. r = Inr (Some d) \<longrightarrow> length (rs_read_raw s') + 5 \<le> length (rs_read_raw s)) \<and> (r = Inr None \<longrightarrow> s' = s)"
  using assms
  by (auto simp: decode_one_def Let_def split: if_splits option.splits sum.splits prod.splits 
      simp: post_handshake_messages dest!: handle_messages_fields)

lemma absorb_app_fields [simp]:
  "rs_reads (absorb_app d s) = rs_reads s" "rs_read_raw (absorb_app d s) = rs_read_raw s"
  by (auto simp: absorb_app_def Let_def split: prod.splits)

text \<open>
  One round of the loop of \<open>poll_read\<close> with room for \<open>remaining\<close> bytes: it returns, or the loop goes on. The
  bytes put into the buffer are the result, and none of them means the end of the stream.
\<close>

datatype round = Return "bytes result poll" reality_stream | Again reality_stream

definition read_step :: "crypto \<Rightarrow> nat \<Rightarrow> reality_stream \<Rightarrow> round option" where
  "read_step c remaining s =
     (if rs_plaintext_out s \<noteq> [] then
        let n = min remaining (length (rs_plaintext_out s))
        in Some (Return (Ready (Inr (take n (rs_plaintext_out s))))
             (s\<lparr> rs_plaintext_out := drop n (rs_plaintext_out s) \<rparr>))
      else
        (case decode_one c s of
           None \<Rightarrow> None
         | Some (Inl e, s2) \<Rightarrow> Some (Return (Ready (Inl e)) s2)
         | Some (Inr (Some (Data content)), s2) \<Rightarrow> Some (Again (absorb_app content s2))
         | Some (Inr (Some Drop), s2) \<Rightarrow> Some (Again s2)
         | Some (Inr (Some Eof), s2) \<Rightarrow> Some (Return (Ready (Inr [])) s2)
         | Some (Inr None, s2) \<Rightarrow>
             (case rs_reads s2 of
                [] \<Rightarrow> Some (Return Pending s2)
              | Pending # rs \<Rightarrow> Some (Return Pending (s2\<lparr> rs_reads := rs \<rparr>))
              | Ready (Inl e) # rs \<Rightarrow> Some (Return (Ready (Inl e)) (s2\<lparr> rs_reads := rs \<rparr>))
              | Ready (Inr filled) # rs \<Rightarrow>
                  if filled = [] then
                    (if rs_read_raw s2 = [] then Some (Return (Ready (Inr [])) (s2\<lparr> rs_reads := rs \<rparr>))
                     else Some (Return (Ready (Inl (Io ''UnexpectedEof''))) (s2\<lparr> rs_reads := rs \<rparr>)))
                  else Some (Again (s2\<lparr> rs_reads := rs, rs_read_raw := rs_read_raw s2 @ filled \<rparr>)))))"

definition read_round :: "crypto \<Rightarrow> nat \<Rightarrow> reality_stream \<Rightarrow> round option" where
  "read_round c remaining s =
     (if rs_write_pending s = [] then read_step c remaining s
      else case try_flush s of
             None \<Rightarrow> None
           | Some (Inl e, s1) \<Rightarrow> Some (Return (Ready (Inl e)) s1)
           | Some (Inr _, s1) \<Rightarrow> read_step c remaining s1)"

lemma read_step_progress:
  assumes "read_step c n s = Some (Again s')"
  shows "length (rs_reads s') < length (rs_reads s) \<or>
    rs_reads s' = rs_reads s \<and> length (rs_read_raw s') < length (rs_read_raw s)"
  using assms
  by (auto simp: read_step_def Let_def split: if_splits option.splits sum.splits decoded.splits list.splits poll.splits
      dest!: decode_one_fields)

lemma read_round_progress:
  assumes "read_round c n s = Some (Again s')"
  shows "length (rs_reads s') < length (rs_reads s) \<or>
    rs_reads s' = rs_reads s \<and> length (rs_read_raw s') < length (rs_read_raw s)"
  using assms
  by (auto simp: read_round_def same_but_writes_def split: if_splits option.splits sum.splits
      dest!: try_flush_fields read_step_progress)

function poll_read :: "crypto \<Rightarrow> nat \<Rightarrow> reality_stream \<Rightarrow> (bytes result poll \<times> reality_stream) option" where
  "poll_read c remaining s =
     (case read_round c remaining s of
        None \<Rightarrow> None
      | Some (Return x s') \<Rightarrow> Some (x, s')
      | Some (Again s') \<Rightarrow> poll_read c remaining s')"
  by pat_completeness auto
termination
  by (relation "measures [\<lambda>(c, n, s). length (rs_reads s), \<lambda>(c, n, s). length (rs_read_raw s)]")
     (auto dest: read_round_progress)

declare poll_read.simps [simp del]

text \<open>Induction over the loop: what a round keeps, the call keeps.\<close>

lemma poll_read_rule:
  assumes "poll_read c n s = Some (x, s')" "P s"
    and again: "\<And>s s'. P s \<Longrightarrow> read_round c n s = Some (Again s') \<Longrightarrow> P s'"
    and return: "\<And>s x s'. P s \<Longrightarrow> read_round c n s = Some (Return x s') \<Longrightarrow> Q x s'"
  shows "Q x s'"
  using assms
proof (induction c n s rule: poll_read.induct)
  case (1 c n s)
  show ?case
  proof (cases "read_round c n s")
    case None
    with 1(2) show ?thesis by (simp add: poll_read.simps [of c n s])
  next
    case (Some a)
    with 1 show ?thesis by (cases a) (auto simp: poll_read.simps [of c n s])
  qed
qed

lemma poll_flush_flushes: "poll_flush half s = Some (r, s') \<Longrightarrow> \<exists>r'. poll_flush_pending s = Some (r', s')"
  by (auto simp: poll_flush_def split: option.splits poll.splits sum.splits)

lemma poll_shutdown_flushes: "poll_shutdown half s = Some (r, s') \<Longrightarrow> \<exists>r'. poll_flush_pending s = Some (r', s')"
  by (auto simp: poll_shutdown_def split: option.splits poll.splits sum.splits)

section \<open>Sequences of calls\<close>

text \<open>
  What a user of the stream does: writes, reads, flushes and shutdowns in any order, until a call fails. A run gives
  the bytes whose writing was accepted and the bytes that were delivered.
\<close>

datatype stream_op = OpWrite bytes | OpRead nat | OpFlush "unit result poll" | OpShutdown "unit result poll"

fun stream_step :: "crypto \<Rightarrow> stream_op \<Rightarrow> reality_stream \<Rightarrow> (bytes \<times> bytes \<times> reality_stream) option" where
  "stream_step c (OpWrite buf) s =
     (case poll_write c buf s of
        Some (Pending, s') \<Rightarrow> Some ([], [], s')
      | Some (Ready (Inr n), s') \<Rightarrow> Some (take n buf, [], s')
      | _ \<Rightarrow> None)"
| "stream_step c (OpRead n) s =
     (case poll_read c n s of
        Some (Pending, s') \<Rightarrow> Some ([], [], s')
      | Some (Ready (Inr d), s') \<Rightarrow> Some ([], d, s')
      | _ \<Rightarrow> None)"
| "stream_step c (OpFlush half) s =
     (case poll_flush half s of
        Some (Pending, s') \<Rightarrow> Some ([], [], s')
      | Some (Ready (Inr _), s') \<Rightarrow> Some ([], [], s')
      | _ \<Rightarrow> None)"
| "stream_step c (OpShutdown half) s =
     (case poll_shutdown half s of
        Some (Pending, s') \<Rightarrow> Some ([], [], s')
      | Some (Ready (Inr _), s') \<Rightarrow> Some ([], [], s')
      | _ \<Rightarrow> None)"

fun stream_run :: "crypto \<Rightarrow> stream_op list \<Rightarrow> reality_stream \<Rightarrow> (bytes \<times> bytes \<times> reality_stream) option" where
  "stream_run c [] s = Some ([], [], s)"
| "stream_run c (x # xs) s =
     (case stream_step c x s of
        None \<Rightarrow> None
      | Some (a, d, s') \<Rightarrow>
          (case stream_run c xs s' of
             None \<Rightarrow> None
           | Some (a', d', s'') \<Rightarrow> Some (a @ a', d @ d', s'')))"

end
