(* ===== verification/RealityWrite.thy ===== *)
theory RealityWrite
  imports RealityStream
begin

text \<open>
  What a REALITY stream sends, \<^verbatim>\<open>src/reality_upstream.rs\<close>: whatever is written, read and flushed in
  whatever order, and however often the peer asks for new keys in between, the records that go out can
  be opened by a peer that changes its keys exactly when it sees the announcement.
\<close>

text \<open>
  The peer: opens record after record, collects the application data, and moves to the next generation of
  keys after a KeyUpdate.
\<close>

fun peer_run :: "crypto \<Rightarrow> bytes \<Rightarrow> record_keys \<Rightarrow> bytes list \<Rightarrow> (bytes \<times> bytes \<times> record_keys) option" where
  "peer_run c secret keys [] = Some ([], secret, keys)"
| "peer_run c secret keys (r # rs) =
     (case open_record c (take 5 r) (drop 5 r) keys of
        Some (Inr (ty, content), keys') \<Rightarrow>
          if ty = 0x17 then map_option (apfst ((@) content)) (peer_run c secret keys' rs)
          else if ty = 0x16 \<and> content = KEY_UPDATE_REPLY then
            let secret' = next_application_traffic_secret c secret
            in peer_run c secret' (record_keys_from_secret c secret') rs
          else None
      | _ \<Rightarrow> None)"

lemma peer_run_append:
  "peer_run c secret keys rs = Some (d, secret1, keys1) \<Longrightarrow>
   peer_run c secret keys (rs @ rs') = map_option (apfst ((@) d)) (peer_run c secret1 keys1 rs')"
proof (induction rs arbitrary: secret keys d)
  case Nil
  then show ?case by (cases "peer_run c secret1 keys1 rs'") auto
next
  case (Cons r rs)
  from Cons.prems obtain ty content keys' where
    o: "open_record c (take 5 r) (drop 5 r) keys = Some (Inr (ty, content), keys')"
    by (auto split: option.splits sum.splits)
  show ?case
  proof (cases "ty = 0x17")
    case True
    with Cons.prems o obtain d' where d: "d = content @ d'" "peer_run c secret keys' rs = Some (d', secret1, keys1)"
      by auto
    with Cons.IH [OF d(2)] True o show ?thesis by (cases "peer_run c secret1 keys1 rs'") auto
  next
    case False
    with Cons.prems o have k: "ty = 0x16" "content = KEY_UPDATE_REPLY" by (auto split: if_splits)
    with False Cons.prems o Cons.IH show ?thesis by (simp add: Let_def)
  qed
qed

text \<open>A record whose length field is right and within the limit.\<close>

definition wire_record :: "bytes \<Rightarrow> bool" where
  "wire_record r \<longleftrightarrow> 5 \<le> length r \<and> length r = 5 + unat (from_be16 (r ! 3) (r ! 4)) \<and> length r \<le> 5 + MAX_TLS_RECORD"

lemma seal_wire_record:
  assumes "aead_correct (aes128_seal c) (aes128_open c)" "seal c ty m k = Some (r, k')" "length m \<le> 16384"
  shows "wire_record r"
proof -
  obtain ct where r: "r = record_header (of_nat (length m + 17)) @ ct" "length ct = length m + 17"
    using assms(2) aead_correctD(2) [OF assms(1)] by (auto simp: seal_def Let_def add_ac split: option.splits)
  have "unat (of_nat (length m + 17) :: u16) = length m + 17"
    using assms(3) by (intro unat_of_nat_small) simp
  then show ?thesis
    using assms(3) by (simp add: wire_record_def r record_header_def be16_def from_be16_be16 MAX_TLS_RECORD_def)
qed

section \<open>The invariant\<close>

text \<open>
  What has been handed to the write half and what is waiting for it are, together, records that the peer
  opens to the accepted data, ending with the keys the stream has.
\<close>

definition outgoing_ok :: "crypto \<Rightarrow> bytes \<Rightarrow> record_keys \<Rightarrow> bytes \<Rightarrow> reality_stream \<Rightarrow> bool" where
  "outgoing_ok c secret keys accepted s \<longleftrightarrow>
     (\<exists>rs. list_all wire_record rs \<and> concat rs = rs_wire s @ rs_write_pending s \<and>
       peer_run c secret keys rs = Some (accepted, rs_client_ap_secret s, rs_send_keys s))"

lemma outgoing_ok_cong:
  "rs_wire s' @ rs_write_pending s' = rs_wire s @ rs_write_pending s \<Longrightarrow>
   rs_client_ap_secret s' = rs_client_ap_secret s \<Longrightarrow> rs_send_keys s' = rs_send_keys s \<Longrightarrow>
   outgoing_ok c secret keys a s' \<longleftrightarrow> outgoing_ok c secret keys a s"
  by (simp add: outgoing_ok_def)

lemma flush_loop_keeps:
  "flush_loop ws p w = Some (r, ws', p', w') \<Longrightarrow> w' @ p' = w @ p"
  by (induction ws p w rule: flush_loop.induct) (auto split: if_splits poll.splits sum.splits)

lemma flush_keeps:
  assumes "poll_flush_pending s = Some (r, s')"
  shows "outgoing_ok c secret keys a s' \<longleftrightarrow> outgoing_ok c secret keys a s"
  using assms flush_fields [OF assms] flush_loop_keeps [of "rs_writes s" "rs_write_pending s" "rs_wire s"]
  by (intro outgoing_ok_cong) (auto simp: poll_flush_pending_def same_but_writes_def split: option.splits)

lemma try_flush_keeps:
  "try_flush s = Some (r, s') \<Longrightarrow> outgoing_ok c secret keys a s' \<longleftrightarrow> outgoing_ok c secret keys a s"
  by (auto simp: try_flush_def flush_keeps split: option.splits poll.splits sum.splits)

lemma seal_app_keeps:
  assumes "aead_correct (aes128_seal c) (aes128_open c)" "outgoing_ok c secret keys a s"
    "seal c 0x17 m (rs_send_keys s) = Some (r, k)" "length m \<le> 16384"
  shows "outgoing_ok c secret keys (a @ m) (s\<lparr> rs_send_keys := k, rs_write_pending := rs_write_pending s @ r \<rparr>)"
proof -
  from assms(2) obtain rs where rs: "list_all wire_record rs" "concat rs = rs_wire s @ rs_write_pending s"
      "peer_run c secret keys rs = Some (a, rs_client_ap_secret s, rs_send_keys s)"
    by (auto simp: outgoing_ok_def)
  have "peer_run c secret keys (rs @ [r]) = Some (a @ m, rs_client_ap_secret s, k)"
    using peer_run_append [OF rs(3), of "[r]"] open_seal [OF assms(1) _ assms(3)] by simp
  with rs(1,2) seal_wire_record [OF assms(1,3,4)] show ?thesis
    unfolding outgoing_ok_def by (intro exI [of _ "rs @ [r]"]) simp
qed

text \<open>Either nothing goes out, or the reply does, under the old keys, and then the keys change.\<close>

lemma on_key_update_sends:
  assumes "on_key_update c m s = Some (x, s')"
  shows "rs_send_keys s' = rs_send_keys s \<and> rs_client_ap_secret s' = rs_client_ap_secret s \<and>
      rs_write_pending s' = rs_write_pending s \<or>
    (\<exists>r k. seal c 0x16 KEY_UPDATE_REPLY (rs_send_keys s) = Some (r, k) \<and>
      rs_write_pending s' = rs_write_pending s @ r \<and>
      rs_client_ap_secret s' = next_application_traffic_secret c (rs_client_ap_secret s) \<and>
      rs_send_keys s' = record_keys_from_secret c (next_application_traffic_secret c (rs_client_ap_secret s)))"
  using assms unfolding on_key_update_def Let_def by (simp split: if_splits option.splits prod.splits) auto

lemma on_key_update_keeps:
  assumes "aead_correct (aes128_seal c) (aes128_open c)" "outgoing_ok c secret keys a s"
    "on_key_update c m s = Some (x, s')"
  shows "outgoing_ok c secret keys a s'"
  using on_key_update_sends [OF assms(3)]
proof (elim disjE exE conjE)
  assume "rs_send_keys s' = rs_send_keys s" "rs_client_ap_secret s' = rs_client_ap_secret s"
    "rs_write_pending s' = rs_write_pending s"
  with on_key_update_fields [OF assms(3)] assms(2) show ?thesis by (subst outgoing_ok_cong) auto
next
  fix r k
  let ?sec = "next_application_traffic_secret c (rs_client_ap_secret s)"
  assume r: "seal c 0x16 KEY_UPDATE_REPLY (rs_send_keys s) = Some (r, k)"
    and s': "rs_write_pending s' = rs_write_pending s @ r" "rs_client_ap_secret s' = ?sec"
      "rs_send_keys s' = record_keys_from_secret c ?sec"
  have w: "rs_wire s' = rs_wire s" using on_key_update_fields [OF assms(3)] by simp
  from assms(2) obtain rs where rs: "list_all wire_record rs" "concat rs = rs_wire s @ rs_write_pending s"
      "peer_run c secret keys rs = Some (a, rs_client_ap_secret s, rs_send_keys s)"
    by (auto simp: outgoing_ok_def)
  have "peer_run c secret keys (rs @ [r]) = Some (a, ?sec, record_keys_from_secret c ?sec)"
    using peer_run_append [OF rs(3), of "[r]"] open_seal [OF assms(1) _ r] by (simp add: Let_def)
  moreover have "wire_record r" by (rule seal_wire_record [OF assms(1) r]) (simp add: KEY_UPDATE_REPLY_def)
  ultimately show ?thesis
    unfolding outgoing_ok_def s' w using rs(1,2) by (intro exI [of _ "rs @ [r]"]) simp
qed

lemma handle_messages_keeps:
  assumes "aead_correct (aes128_seal c) (aes128_open c)"
  shows "outgoing_ok c secret keys a s \<Longrightarrow> handle_messages c ms s = Some (x, s') \<Longrightarrow> outgoing_ok c secret keys a s'"
proof (induction ms arbitrary: s)
  case (Cons m ms)
  show ?case
  proof (cases "m ! 0 = 0x18")
    case True
    with Cons.prems(2) obtain y s1 where k: "on_key_update c m s = Some (y, s1)" by (auto split: option.splits)
    note ok = on_key_update_keeps [OF assms Cons.prems(1) k]
    from Cons.IH [OF ok] ok Cons.prems(2) True k show ?thesis by (cases y) auto
  next
    case False
    with Cons show ?thesis by simp
  qed
qed simp

lemma decode_one_keeps:
  assumes "aead_correct (aes128_seal c) (aes128_open c)" "outgoing_ok c secret keys a s"
    "decode_one c s = Some (x, s')"
  shows "outgoing_ok c secret keys a s'"
proof -
  have upd: "outgoing_ok c secret keys a (s\<lparr> rs_read_raw := b, rs_recv_keys := k \<rparr>)"
    "outgoing_ok c secret keys a (s\<lparr> rs_recv_keys := k, rs_read_raw := b \<rparr>)" for b k
    using assms(2) by (simp_all add: outgoing_ok_def)
  show ?thesis
    using assms(2,3) upd handle_messages_keeps [OF assms(1) upd(1)]
    by (auto simp: decode_one_def post_handshake_messages Let_def split: if_splits option.splits sum.splits prod.splits)
qed

lemma absorb_app_keeps: "outgoing_ok c secret keys a (absorb_app d s) \<longleftrightarrow> outgoing_ok c secret keys a s"
  by (intro outgoing_ok_cong) (auto simp: absorb_app_def Let_def split: prod.splits)

lemma read_step_keeps:
  assumes "aead_correct (aes128_seal c) (aes128_open c)" "outgoing_ok c secret keys a s" "read_step c n s = Some r"
  shows "case r of Return x s' \<Rightarrow> outgoing_ok c secret keys a s' | Again s' \<Rightarrow> outgoing_ok c secret keys a s'"
proof -
  have upd: "outgoing_ok c secret keys a (t\<lparr> rs_reads := rs \<rparr>) \<longleftrightarrow> outgoing_ok c secret keys a t"
    "outgoing_ok c secret keys a (t\<lparr> rs_read_raw := b \<rparr>) \<longleftrightarrow> outgoing_ok c secret keys a t"
    "outgoing_ok c secret keys a (t\<lparr> rs_plaintext_out := b \<rparr>) \<longleftrightarrow> outgoing_ok c secret keys a t" for t rs b
    by (simp_all add: outgoing_ok_def)
  show ?thesis
  proof (cases "rs_plaintext_out s = []")
    case False
    with assms(2,3) show ?thesis by (auto simp: read_step_def Let_def upd)
  next
    case True
    with assms(3) obtain x s2 where d: "decode_one c s = Some (x, s2)" by (auto simp: read_step_def split: option.splits)
    have "outgoing_ok c secret keys a s2" by (rule decode_one_keeps [OF assms(1,2) d])
    with assms(3) True d show ?thesis
      by (auto simp: read_step_def upd absorb_app_keeps
          split: if_splits option.splits sum.splits decoded.splits list.splits poll.splits)
  qed
qed

lemma read_round_keeps:
  assumes "aead_correct (aes128_seal c) (aes128_open c)" "outgoing_ok c secret keys a s" "read_round c n s = Some r"
  shows "case r of Return x s' \<Rightarrow> outgoing_ok c secret keys a s' | Again s' \<Rightarrow> outgoing_ok c secret keys a s'"
proof (cases "rs_write_pending s = []")
  case True
  with assms(3) have "read_step c n s = Some r" by (simp add: read_round_def)
  then show ?thesis by (rule read_step_keeps [OF assms(1,2)])
next
  case False
  with assms(3) obtain x s1 where f: "try_flush s = Some (x, s1)" by (auto simp: read_round_def split: option.splits)
  then have ok: "outgoing_ok c secret keys a s1" using try_flush_keeps [OF f] assms(2) by simp
  show ?thesis
    using assms(3) False f ok read_step_keeps [OF assms(1) ok, of n r] by (cases x) (auto simp: read_round_def)
qed

lemma poll_read_keeps:
  assumes "aead_correct (aes128_seal c) (aes128_open c)" "outgoing_ok c secret keys a s"
    "poll_read c n s = Some (x, s')"
  shows "outgoing_ok c secret keys a s'"
  using assms(3,2) by (rule poll_read_rule) (use read_round_keeps [OF assms(1)] in fastforce)+

lemma poll_write_keeps:
  assumes "aead_correct (aes128_seal c) (aes128_open c)" "outgoing_ok c secret keys a s"
    "poll_write c buf s = Some (x, s')"
  shows "(x = Pending \<longrightarrow> outgoing_ok c secret keys a s') \<and>
    (\<forall>n. x = Ready (Inr n) \<longrightarrow> n \<le> length buf \<and> outgoing_ok c secret keys (a @ take n buf) s')"
proof -
  obtain r s1 where f: "poll_flush_pending s = Some (r, s1)"
    using assms(3) by (auto simp: poll_write_def split: option.splits)
  have ok: "outgoing_ok c secret keys a s1" using flush_keeps [OF f] assms(2) by blast
  show ?thesis
  proof (cases "r = Ready (Inr ()) \<and> buf \<noteq> []")
    case False
    then show ?thesis using assms(3) ok by (auto simp: poll_write_def f split: poll.splits sum.splits)
  next
    case True
    let ?n = "min (length buf) MAX_PLAINTEXT"
    obtain rec k y s2 where s: "seal c 0x17 (take ?n buf) (rs_send_keys s1) = Some (rec, k)"
        and t: "try_flush (s1\<lparr> rs_send_keys := k, rs_write_pending := rs_write_pending s1 @ rec \<rparr>) = Some (y, s2)"
        and x: "x = (case y of Inl e \<Rightarrow> Ready (Inl e) | Inr _ \<Rightarrow> Ready (Inr ?n))" "s' = s2"
      using assms(3) True by (auto simp: poll_write_def f Let_def split: option.splits sum.splits)
    have "outgoing_ok c secret keys (a @ take ?n buf) s2"
      using seal_app_keeps [OF assms(1) ok s] try_flush_keeps [OF t] by (simp add: MAX_PLAINTEXT_def)
    then show ?thesis using x by (auto split: sum.splits)
  qed
qed

lemma stream_step_keeps:
  assumes "aead_correct (aes128_seal c) (aes128_open c)" "outgoing_ok c secret keys a s"
    "stream_step c op s = Some (acc, d, s')"
  shows "outgoing_ok c secret keys (a @ acc) s'"
proof (cases op)
  case (OpWrite buf)
  with assms(3) poll_write_keeps [OF assms(1,2), of buf] show ?thesis
    by (auto split: option.splits poll.splits sum.splits)
next
  case (OpRead n)
  with assms(3) poll_read_keeps [OF assms(1,2), of n] show ?thesis
    by (auto split: option.splits poll.splits sum.splits)
next
  case (OpFlush half)
  with assms(2,3) show ?thesis
    by (auto dest!: poll_flush_flushes dest: flush_keeps split: option.splits poll.splits sum.splits)
next
  case (OpShutdown half)
  with assms(2,3) show ?thesis
    by (auto dest!: poll_shutdown_flushes dest: flush_keeps split: option.splits poll.splits sum.splits)
qed

lemma stream_run_keeps:
  assumes "aead_correct (aes128_seal c) (aes128_open c)"
  shows "outgoing_ok c secret keys a s \<Longrightarrow> stream_run c ops s = Some (acc, d, s') \<Longrightarrow>
    outgoing_ok c secret keys (a @ acc) s'"
proof (induction ops arbitrary: s a acc d)
  case (Cons op ops)
  from Cons.prems(2) obtain a1 d1 s1 a2 d2 where st: "stream_step c op s = Some (a1, d1, s1)"
      and rest: "stream_run c ops s1 = Some (a2, d2, s')" and acc: "acc = a1 @ a2"
    by (auto split: option.splits)
  from Cons.IH [OF stream_step_keeps [OF assms Cons.prems(1) st] rest] show ?case by (simp add: acc)
qed simp

text \<open>
  The peer reads exactly what was written. After any sequence of writes, reads and flushes, with any
  back-pressure from the network and any number of key updates requested by the peer in between, the
  bytes sent and waiting to be sent are a sequence of well-formed records which a peer, starting from the
  same secret and keys and changing them after each KeyUpdate it reads, opens without an error, to
  exactly the accepted bytes in order; and it ends with the sending keys of the stream.
\<close>

lemma peer_reads_what_was_written:
  assumes "aead_correct (aes128_seal c) (aes128_open c)"
    "stream_run c ops (reality_stream_new reads writes recv_keys send_keys leftover server_secret client_secret) =
       Some (accepted, delivered, s)"
  shows "\<exists>rs. list_all wire_record rs \<and> concat rs = rs_wire s @ rs_write_pending s \<and>
    peer_run c client_secret send_keys rs = Some (accepted, rs_client_ap_secret s, rs_send_keys s)"
proof -
  have "outgoing_ok c client_secret send_keys [] (reality_stream_new reads writes recv_keys send_keys leftover
      server_secret client_secret)"
    unfolding outgoing_ok_def reality_stream_new_def by (intro exI [of _ "[]"]) simp
  from stream_run_keeps [OF assms(1) this assms(2)] show ?thesis by (simp add: outgoing_ok_def)
qed

end
