(* ===== verification/RealityRead.thy ===== *)
theory RealityRead
  imports RealityWrite "HOL-Library.Sublist"
begin

text \<open>
  What a REALITY stream receives, \<^verbatim>\<open>src/reality_upstream.rs\<close>: from a server that sends application data,
  session tickets and key updates in any order and any grouping, and a network that cuts the records
  anywhere, the user reads the data without the VLESS response header.
\<close>

section \<open>The server\<close>

datatype hs_msg = Ticket bytes | KeyUpd bool

fun msg_bytes :: "hs_msg \<Rightarrow> bytes" where
  "msg_bytes (Ticket m) = m"
| "msg_bytes (KeyUpd requested) = [0x18, 0x00, 0x00, 0x01, if requested then 1 else 0]"

text \<open>One record: application data, or one or more post-handshake messages.\<close>

datatype server_act = SendData bytes | SendPost "hs_msg list"

fun act_data :: "server_act \<Rightarrow> bytes" where
  "act_data (SendData d) = d"
| "act_data (SendPost _) = []"

definition sent_data :: "server_act list \<Rightarrow> bytes" where
  "sent_data acts = concat (map act_data acts)"

fun valid_msg :: "hs_msg \<Rightarrow> bool" where
  "valid_msg (Ticket m) \<longleftrightarrow> framed m \<and> m ! 0 \<noteq> 0x18"
| "valid_msg (KeyUpd _) \<longleftrightarrow> True"

fun valid_act :: "server_act \<Rightarrow> bool" where
  "valid_act (SendData d) \<longleftrightarrow> length d \<le> 16384"
| "valid_act (SendPost ms) \<longleftrightarrow> list_all valid_msg ms \<and> length (concat (map msg_bytes ms)) \<le> 16384"

text \<open>The server's secret and keys after a record with these messages.\<close>

fun rotate_keys :: "crypto \<Rightarrow> hs_msg list \<Rightarrow> bytes \<times> record_keys \<Rightarrow> bytes \<times> record_keys" where
  "rotate_keys c [] x = x"
| "rotate_keys c (Ticket _ # ms) x = rotate_keys c ms x"
| "rotate_keys c (KeyUpd _ # ms) (secret, keys) =
     (let secret' = next_application_traffic_secret c secret
      in rotate_keys c ms (secret', record_keys_from_secret c secret'))"

fun server_run :: "crypto \<Rightarrow> server_act list \<Rightarrow> bytes \<Rightarrow> record_keys \<Rightarrow> bytes list option" where
  "server_run c [] secret keys = Some []"
| "server_run c (SendData d # acts) secret keys =
     (case seal c 0x17 d keys of
        None \<Rightarrow> None
      | Some (r, keys') \<Rightarrow> map_option ((#) r) (server_run c acts secret keys'))"
| "server_run c (SendPost ms # acts) secret keys =
     (case seal c 0x16 (concat (map msg_bytes ms)) keys of
        None \<Rightarrow> None
      | Some (r, keys') \<Rightarrow>
          let (secret2, keys2) = rotate_keys c ms (secret, keys') in map_option ((#) r) (server_run c acts secret2 keys2))"

section \<open>Post-handshake messages\<close>

lemma on_key_update_receives:
  assumes "on_key_update c (msg_bytes (KeyUpd b)) s = Some (x, s')"
  shows "x = Inr () \<and> rs_server_ap_secret s' = next_application_traffic_secret c (rs_server_ap_secret s) \<and>
    rs_recv_keys s' = record_keys_from_secret c (next_application_traffic_secret c (rs_server_ap_secret s))"
  using assms by (auto simp: on_key_update_def Let_def split: if_splits option.splits)

lemma framed_msg_bytes: "valid_msg m \<Longrightarrow> framed (msg_bytes m)"
proof (cases m)
  case (KeyUpd b)
  then show ?thesis by (simp add: framed_def u24_def)
qed simp

lemma handle_posts:
  "list_all valid_msg ms \<Longrightarrow> handle_messages c (map msg_bytes ms) s = Some (x, s') \<Longrightarrow>
   x = Inr () \<and> (rs_server_ap_secret s', rs_recv_keys s') = rotate_keys c ms (rs_server_ap_secret s, rs_recv_keys s)"
proof (induction ms arbitrary: s)
  case (Cons m ms)
  show ?case
  proof (cases m)
    case (Ticket t)
    with Cons show ?thesis by simp
  next
    case (KeyUpd b)
    with Cons.prems(2) obtain y s1 where k: "on_key_update c (msg_bytes (KeyUpd b)) s = Some (y, s1)"
      by (auto split: option.splits)
    note u = on_key_update_receives [OF k]
    from Cons.prems KeyUpd k u have "handle_messages c (map msg_bytes ms) s1 = Some (x, s')" by simp
    with Cons.IH Cons.prems(1) u KeyUpd show ?thesis by (simp add: Let_def)
  qed
qed simp

lemma post_handshake_posts:
  assumes "list_all valid_msg ms" "post_handshake c (concat (map msg_bytes ms)) s = Some (x, s')"
  shows "x = Inr () \<and> (rs_server_ap_secret s', rs_recv_keys s') = rotate_keys c ms (rs_server_ap_secret s, rs_recv_keys s)"
proof -
  have "list_all framed (map msg_bytes ms)" using assms(1) by (induction ms) (simp_all add: framed_msg_bytes)
  from cut_messages_concat [OF this, of "[]"] have "fst (cut_messages (concat (map msg_bytes ms))) = map msg_bytes ms"
    by (simp add: cut_messages_incomplete incomplete_def)
  with assms handle_posts show ?thesis by (simp add: post_handshake_messages)
qed

section \<open>One record\<close>

text \<open>The bytes a read script will still deliver; such a script has no error and no end.\<close>

fun script_bytes :: "bytes result poll list \<Rightarrow> bytes" where
  "script_bytes [] = []"
| "script_bytes (Ready (Inr d) # rs) = d @ script_bytes rs"
| "script_bytes (_ # rs) = script_bytes rs"

definition steady :: "bytes result poll list \<Rightarrow> bool" where
  "steady rs \<longleftrightarrow> list_all (\<lambda>r. r = Pending \<or> (\<exists>d. r = Ready (Inr d) \<and> d \<noteq> [])) rs"

text \<open>A record that has not arrived completely is not decoded, one that has is cut off the front.\<close>

lemma decode_one_partial:
  assumes "wire_record r" "rs_read_raw s @ later = r @ rest" "length (rs_read_raw s) < length r"
  shows "decode_one c s = Some (Inr None, s)"
proof (cases "length (rs_read_raw s) < 5")
  case True
  then show ?thesis by (simp add: decode_one_def)
next
  case False
  have "rs_read_raw s = take (length (rs_read_raw s)) r"
    using arg_cong [OF assms(2), of "take (length (rs_read_raw s))"] assms(3) by simp
  then have nth: "rs_read_raw s ! i = r ! i" if "i < 5" for i using that False by (metis less_le_trans not_less nth_take)
  have "length r = 5 + unat (from_be16 (r ! 3) (r ! 4))" "unat (from_be16 (r ! 3) (r ! 4)) \<le> MAX_TLS_RECORD"
    using assms(1) by (auto simp: wire_record_def)
  with False assms(3) show ?thesis by (simp add: decode_one_def Let_def nth)
qed

lemma decode_one_whole:
  assumes "wire_record r" "rs_read_raw s = r @ raw"
  shows "decode_one c s =
    (let s1 = s\<lparr> rs_read_raw := raw \<rparr> in
     case open_record c (take 5 r) (drop 5 r) (rs_recv_keys s1) of
       None \<Rightarrow> None
     | Some (Inl e, keys) \<Rightarrow> Some (Inl (Io ''record''), s1\<lparr> rs_recv_keys := keys \<rparr>)
     | Some (Inr (inner, content), keys) \<Rightarrow>
         let s2 = s1\<lparr> rs_recv_keys := keys \<rparr> in
         if inner = 0x17 then Some (Inr (Some (Data content)), s2)
         else if inner = 0x15 then
           (if get_at content 0 = Some 1 \<and> get_at content 1 = Some 0 then Some (Inr (Some Eof), s2)
            else Some (Inl (Io ''alert''), s2))
         else if inner = 0x16 then
           (case post_handshake c content s2 of
              None \<Rightarrow> None
            | Some (Inl e, s3) \<Rightarrow> Some (Inl e, s3)
            | Some (Inr _, s3) \<Rightarrow> Some (Inr (Some Drop), s3))
         else Some (Inr (Some Drop), s2))"
proof -
  have r: "5 \<le> length r" "unat (from_be16 (r ! 3) (r ! 4)) = length r - 5" "length r - 5 \<le> MAX_TLS_RECORD"
    using assms(1) by (auto simp: wire_record_def)
  have slices: "take (length r - 5) (drop 5 (r @ raw)) = drop 5 r" "take 5 (r @ raw) = take 5 r"
    "drop (5 + (length r - 5)) (r @ raw) = raw"
    using r(1) by simp_all
  have len: "unat (from_be16 (take 5 (r @ raw) ! 3) (take 5 (r @ raw) ! 4)) = length r - 5"
    using r(1,2) by (simp add: nth_append)
  have guards: "\<not> length (r @ raw) < 5" "\<not> MAX_TLS_RECORD < length r - 5" "\<not> length (r @ raw) < 5 + (length r - 5)"
    using r by simp_all
  show ?thesis
    unfolding decode_one_def Let_def assms(2) len by (simp only: guards if_False slices)
qed

section \<open>The invariant\<close>

definition header_missing :: "bytes \<Rightarrow> bool" where
  "header_missing b \<longleftrightarrow> length b < 2 \<or> length b < 2 + unat (b ! 1)"

text \<open>The stripper after the data \<open>seen\<close>, of which \<open>passed\<close> has gone on to the user's side.\<close>

definition strip_ok :: "bytes \<Rightarrow> bytes \<Rightarrow> reality_stream \<Rightarrow> bool" where
  "strip_ok seen passed s \<longleftrightarrow>
     (if vs_stripped (rs_resp s) then rs_staging s = [] \<and> \<not> header_missing seen \<and> passed = stripped_stream seen
      else rs_staging s = seen \<and> header_missing seen \<and> passed = [])"

lemma strip_ok_stream: "strip_ok seen passed s \<Longrightarrow> passed = stripped_stream seen"
  by (auto simp: strip_ok_def header_missing_def stripped_stream_def split: if_splits)

lemma absorb_app_strips:
  assumes "strip_ok seen (del @ rs_plaintext_out s) s"
  shows "strip_ok (seen @ d) (del @ rs_plaintext_out (absorb_app d s)) (absorb_app d s)"
proof (cases "vs_stripped (rs_resp s)")
  case True
  then have seen: "\<not> (length seen < 2 \<or> length seen < 2 + unat (seen ! 1))" "rs_staging s = []"
      "del @ rs_plaintext_out s = stripped_stream seen"
    using assms by (auto simp: strip_ok_def header_missing_def)
  have "\<not> header_missing (seen @ d)" using seen(1) by (auto simp: header_missing_def nth_append)
  then show ?thesis
    using True seen(2) stripped_stream_append [OF seen(1), of d] seen(3) [symmetric]
    by (simp add: absorb_app_def is_stripped_def strip_ok_def)
next
  case False
  then have seen: "rs_staging s = seen" "del = []" "rs_plaintext_out s = []"
    using assms by (auto simp: strip_ok_def)
  show ?thesis
  proof (cases "header_missing (seen @ d)")
    case True
    then have "strip (seen @ d) (rs_resp s) = (False, rs_resp s, seen @ d)"
      using False by (auto simp: strip_def header_missing_def Let_def)
    with False True seen show ?thesis by (simp add: absorb_app_def is_stripped_def strip_ok_def)
  next
    case complete: False
    then have "strip (seen @ d) (rs_resp s) = (True, (rs_resp s)\<lparr> vs_stripped := True \<rparr>, stripped_stream (seen @ d))"
      using False by (auto simp: strip_def header_missing_def stripped_stream_def Let_def)
    with False complete seen show ?thesis by (simp add: absorb_app_def is_stripped_def strip_ok_def)
  qed
qed

text \<open>
  Some of the server's records have been read, the others are in the buffer and the script, sealed under
  the keys the stream expects.
\<close>

definition incoming_ok :: "crypto \<Rightarrow> server_act list \<Rightarrow> bytes \<Rightarrow> reality_stream \<Rightarrow> bool" where
  "incoming_ok c acts del s \<longleftrightarrow>
     (\<exists>past todo rs. acts = past @ todo \<and> list_all valid_act todo \<and>
       server_run c todo (rs_server_ap_secret s) (rs_recv_keys s) = Some rs \<and>
       rs_read_raw s @ script_bytes (rs_reads s) = concat rs \<and> steady (rs_reads s) \<and>
       strip_ok (sent_data past) (del @ rs_plaintext_out s) s)"

lemma server_run_Cons:
  assumes "aead_correct (aes128_seal c) (aes128_open c)" "valid_act a" "server_run c (a # todo) secret keys = Some rs"
  shows "\<exists>r rs' ty content keys' secret2 keys2. rs = r # rs' \<and> wire_record r \<and>
    open_record c (take 5 r) (drop 5 r) keys = Some (Inr (ty, content), keys') \<and>
    server_run c todo secret2 keys2 = Some rs' \<and>
    (case a of SendData d \<Rightarrow> ty = 0x17 \<and> content = d \<and> secret2 = secret \<and> keys2 = keys'
     | SendPost ms \<Rightarrow> ty = 0x16 \<and> content = concat (map msg_bytes ms) \<and> (secret2, keys2) = rotate_keys c ms (secret, keys'))"
proof (cases a)
  case (SendData d)
  with assms(3) obtain r keys' rs' where s: "seal c 0x17 d keys = Some (r, keys')"
      and rest: "server_run c todo secret keys' = Some rs'" and rs: "rs = r # rs'"
    by (auto split: option.splits)
  have "wire_record r" using seal_wire_record [OF assms(1) s] assms(2) SendData by simp
  moreover have "open_record c (take 5 r) (drop 5 r) keys = Some (Inr (0x17, d), keys')"
    by (rule open_seal [OF assms(1) _ s]) simp
  ultimately show ?thesis using rest rs SendData by auto
next
  case (SendPost ms)
  with assms(3) obtain r keys' rs' secret2 keys2 where s: "seal c 0x16 (concat (map msg_bytes ms)) keys = Some (r, keys')"
      and rot: "rotate_keys c ms (secret, keys') = (secret2, keys2)"
      and rest: "server_run c todo secret2 keys2 = Some rs'" and rs: "rs = r # rs'"
    by (auto split: option.splits prod.splits)
  have "wire_record r" using seal_wire_record [OF assms(1) s] assms(2) SendPost by simp
  moreover have "open_record c (take 5 r) (drop 5 r) keys = Some (Inr (0x16, concat (map msg_bytes ms)), keys')"
    by (rule open_seal [OF assms(1) _ s]) simp
  ultimately show ?thesis using rest rs rot SendPost by auto
qed

text \<open>The next record has arrived: data, or post-handshake messages.\<close>

lemma incoming_data:
  assumes "list_all valid_act todo" "server_run c todo (rs_server_ap_secret s) keys' = Some rs"
    "raw @ script_bytes (rs_reads s) = concat rs" "steady (rs_reads s)"
    "strip_ok (sent_data past) (del @ rs_plaintext_out s) s"
  shows "incoming_ok c (past @ SendData d # todo) del (absorb_app d (s\<lparr> rs_read_raw := raw, rs_recv_keys := keys' \<rparr>))"
proof -
  let ?s2 = "s\<lparr> rs_read_raw := raw, rs_recv_keys := keys' \<rparr>"
  have "strip_ok (sent_data (past @ [SendData d])) (del @ rs_plaintext_out (absorb_app d ?s2)) (absorb_app d ?s2)"
    using absorb_app_strips [of "sent_data past" del ?s2 d] assms(5) by (simp add: sent_data_def strip_ok_def)
  moreover have "rs_server_ap_secret (absorb_app d ?s2) = rs_server_ap_secret s" "rs_recv_keys (absorb_app d ?s2) = keys'"
    by (auto simp: absorb_app_def Let_def split: prod.splits)
  ultimately show ?thesis
    unfolding incoming_ok_def using assms(1-4)
    by (intro exI [of _ "past @ [SendData d]"] exI [of _ todo] exI [of _ rs]) simp
qed

lemma incoming_post:
  assumes "list_all valid_act todo" "server_run c todo secret2 keys2 = Some rs"
    "raw @ script_bytes (rs_reads s) = concat rs" "steady (rs_reads s)"
    "strip_ok (sent_data past) (del @ rs_plaintext_out s) s" "list_all valid_msg ms"
    "(secret2, keys2) = rotate_keys c ms (rs_server_ap_secret s, keys')"
    "post_handshake c (concat (map msg_bytes ms)) (s\<lparr> rs_read_raw := raw, rs_recv_keys := keys' \<rparr>) = Some (y, s')"
  shows "y = Inr () \<and> incoming_ok c (past @ SendPost ms # todo) del s'"
proof -
  note post = post_handshake_posts [OF assms(6,8)]
  note f = handle_messages_fields [OF assms(8) [unfolded post_handshake_messages]]
  have "strip_ok (sent_data (past @ [SendPost ms])) (del @ rs_plaintext_out s') s'"
    using f assms(5) by (simp add: sent_data_def strip_ok_def)
  moreover have "rs_server_ap_secret s' = secret2" "rs_recv_keys s' = keys2" using post assms(7) [symmetric] by auto
  ultimately have "incoming_ok c (past @ SendPost ms # todo) del s'"
    unfolding incoming_ok_def using assms(1-4) f
    by (intro exI [of _ "past @ [SendPost ms]"] exI [of _ todo] exI [of _ rs]) simp
  with post show ?thesis by simp
qed

lemma decode_one_incoming:
  assumes aead: "aead_correct (aes128_seal c) (aes128_open c)" and ok: "incoming_ok c acts del s"
    and d: "decode_one c s = Some (x, s')"
  shows "x = Inr None \<and> s' = s \<or> (\<exists>d. x = Inr (Some (Data d)) \<and> incoming_ok c acts del (absorb_app d s')) \<or>
    x = Inr (Some Drop) \<and> incoming_ok c acts del s'"
proof -
  from ok obtain past todo rs where o: "acts = past @ todo" "list_all valid_act todo"
      "server_run c todo (rs_server_ap_secret s) (rs_recv_keys s) = Some rs"
      "rs_read_raw s @ script_bytes (rs_reads s) = concat rs" "steady (rs_reads s)"
      "strip_ok (sent_data past) (del @ rs_plaintext_out s) s"
    by (auto simp: incoming_ok_def)
  show ?thesis
  proof (cases todo)
    case Nil
    with o(3,4) d show ?thesis by (simp add: decode_one_def)
  next
    case (Cons a todo')
    with o(2) have va: "valid_act a" "list_all valid_act todo'" by simp_all
    from server_run_Cons [OF aead va(1) o(3) [unfolded Cons]] obtain r rs' ty content keys' secret2 keys2 where
      r: "rs = r # rs'" "wire_record r" "open_record c (take 5 r) (drop 5 r) (rs_recv_keys s) = Some (Inr (ty, content), keys')"
        "server_run c todo' secret2 keys2 = Some rs'"
      and a: "case a of SendData d \<Rightarrow> ty = 0x17 \<and> content = d \<and> secret2 = rs_server_ap_secret s \<and> keys2 = keys'
        | SendPost ms \<Rightarrow> ty = 0x16 \<and> content = concat (map msg_bytes ms) \<and>
            (secret2, keys2) = rotate_keys c ms (rs_server_ap_secret s, keys')"
      by blast
    have total: "rs_read_raw s @ script_bytes (rs_reads s) = r @ concat rs'" using o(4) r(1) by simp
    show ?thesis
    proof (cases "length (rs_read_raw s) < length r")
      case True
      with decode_one_partial [OF r(2) total True] d show ?thesis by simp
    next
      case False
      then obtain raw where raw: "rs_read_raw s = r @ raw" "raw @ script_bytes (rs_reads s) = concat rs'"
        using total by (auto simp: append_eq_append_conv2)
      note d' = d [unfolded decode_one_whole [OF r(2) raw(1)]]
      show ?thesis
      proof (cases a)
        case (SendData data)
        with a d' r(3) incoming_data [OF va(2) _ raw(2) o(5,6), of c keys' data] r(4) o(1) Cons show ?thesis
          by (auto simp: Let_def)
      next
        case (SendPost ms)
        with a d' r(3) obtain y where p: "post_handshake c (concat (map msg_bytes ms))
              (s\<lparr> rs_read_raw := raw, rs_recv_keys := keys' \<rparr>) = Some (y, s')"
            and x: "x = (case y of Inl e \<Rightarrow> Inl e | Inr _ \<Rightarrow> Inr (Some Drop))"
          by (auto simp: Let_def split: option.splits sum.splits)
        have "list_all valid_msg ms" "(secret2, keys2) = rotate_keys c ms (rs_server_ap_secret s, keys')"
          using va(1) a SendPost by simp_all
        from incoming_post [OF va(2) r(4) raw(2) o(5,6) this p] x o(1) Cons SendPost show ?thesis by auto
      qed
    qed
  qed
qed

section \<open>Calls and runs\<close>

text \<open>A write script without errors.\<close>

definition write_fine :: "nat result poll list \<Rightarrow> bool" where
  "write_fine ws \<longleftrightarrow> list_all (\<lambda>w. (\<forall>e. w \<noteq> Ready (Inl e)) \<and> w \<noteq> Ready (Inr 0)) ws"

definition stream_ok :: "crypto \<Rightarrow> server_act list \<Rightarrow> bytes \<Rightarrow> reality_stream \<Rightarrow> bool" where
  "stream_ok c acts del s \<longleftrightarrow> incoming_ok c acts del s \<and> write_fine (rs_writes s)"

lemma flush_loop_fine:
  "write_fine ws \<Longrightarrow> flush_loop ws p w = Some (r, ws', p', w') \<Longrightarrow> write_fine ws' \<and> (r = Pending \<or> r = Ready (Inr ()))"
  by (induction ws p w rule: flush_loop.induct) (auto simp: write_fine_def split: if_splits poll.splits sum.splits)

lemma incoming_ok_writes:
  assumes "same_but_writes s s'"
  shows "incoming_ok c acts del s' \<longleftrightarrow> incoming_ok c acts del s"
  using assms by (simp add: same_but_writes_def incoming_ok_def strip_ok_def)

lemma incoming_ok_cong:
  assumes "incoming_ok c acts del s" "steady (rs_reads s')"
    "rs_read_raw s' @ script_bytes (rs_reads s') = rs_read_raw s @ script_bytes (rs_reads s)"
    "rs_server_ap_secret s' = rs_server_ap_secret s" "rs_recv_keys s' = rs_recv_keys s" "rs_resp s' = rs_resp s"
    "rs_staging s' = rs_staging s" "rs_plaintext_out s' = rs_plaintext_out s"
  shows "incoming_ok c acts del s'"
  using assms(1) unfolding incoming_ok_def strip_ok_def assms(3-8) using assms(2) by blast

lemma incoming_ok_steady: "incoming_ok c acts del s \<Longrightarrow> steady (rs_reads s)"
  by (auto simp: incoming_ok_def)

lemma flush_stream_ok:
  assumes "stream_ok c acts del s" "poll_flush_pending s = Some (r, s')"
  shows "stream_ok c acts del s' \<and> (r = Pending \<or> r = Ready (Inr ()))"
  using assms flush_loop_fine [of "rs_writes s" "rs_write_pending s" "rs_wire s"] incoming_ok_writes [OF flush_fields [OF assms(2)]]
  by (auto simp: stream_ok_def poll_flush_pending_def split: option.splits)

lemma try_flush_stream_ok:
  assumes "stream_ok c acts del s" "try_flush s = Some (r, s')"
  shows "stream_ok c acts del s' \<and> r = Inr ()"
  using assms flush_stream_ok [OF assms(1)]
  by (fastforce simp: try_flush_def split: option.splits poll.splits sum.splits)

text \<open>What a round, or a whole call, may give.\<close>

definition read_ok :: "crypto \<Rightarrow> server_act list \<Rightarrow> bytes \<Rightarrow> bytes result poll \<Rightarrow> reality_stream \<Rightarrow> bool" where
  "read_ok c acts del x s \<longleftrightarrow>
     (case x of Pending \<Rightarrow> stream_ok c acts del s
      | Ready (Inl e) \<Rightarrow> False
      | Ready (Inr d) \<Rightarrow> stream_ok c acts (del @ d) s)"

lemma stream_ok_deliver:
  assumes "stream_ok c acts del s"
  shows "stream_ok c acts (del @ take n (rs_plaintext_out s)) (s\<lparr> rs_plaintext_out := drop n (rs_plaintext_out s) \<rparr>)"
proof -
  have "strip_ok seen passed (s\<lparr> rs_plaintext_out := b \<rparr>) \<longleftrightarrow> strip_ok seen passed s" for seen passed b
    by (simp add: strip_ok_def)
  with assms show ?thesis by (simp add: stream_ok_def incoming_ok_def)
qed

lemma stream_ok_read:
  assumes "stream_ok c acts del s" "rs_reads s = p # rs"
  shows "p = Pending \<and> stream_ok c acts del (s\<lparr> rs_reads := rs \<rparr>) \<or>
    (\<exists>d. p = Ready (Inr d) \<and> d \<noteq> [] \<and>
      stream_ok c acts del (s\<lparr> rs_reads := rs, rs_read_raw := rs_read_raw s @ d \<rparr>))"
proof -
  have st: "steady (p # rs)" using assms by (auto simp: stream_ok_def incoming_ok_def)
  have keep: "stream_ok c acts del s'" if "s' = s\<lparr> rs_reads := rs, rs_read_raw := b \<rparr>"
      "b @ script_bytes rs = rs_read_raw s @ script_bytes (rs_reads s)" for s' b
    using assms st that by (auto simp: stream_ok_def intro: incoming_ok_cong simp: steady_def)
  from st consider "p = Pending" | d where "p = Ready (Inr d)" "d \<noteq> []" by (auto simp: steady_def)
  then show ?thesis
  proof cases
    case 1
    with keep [of _ "rs_read_raw s"] assms(2) show ?thesis by simp
  next
    case 2
    with keep [of _ "rs_read_raw s @ d"] assms(2) show ?thesis by simp
  qed
qed

lemma read_step_ok:
  assumes "aead_correct (aes128_seal c) (aes128_open c)" "stream_ok c acts del s" "read_step c n s = Some r"
  shows "case r of Return x s' \<Rightarrow> read_ok c acts del x s' | Again s' \<Rightarrow> stream_ok c acts del s'"
proof (cases "rs_plaintext_out s = []")
  case False
  with assms(3) stream_ok_deliver [OF assms(2)] show ?thesis by (auto simp: read_step_def Let_def read_ok_def)
next
  case True
  with assms(3) obtain x s2 where d: "decode_one c s = Some (x, s2)" by (auto simp: read_step_def split: option.splits)
  have inc: "incoming_ok c acts del s" and "write_fine (rs_writes s2)"
    using assms(2) decode_one_fields [OF d] by (simp_all add: stream_ok_def)
  moreover have "rs_writes (absorb_app e s2) = rs_writes s2" for e
    by (auto simp: absorb_app_def Let_def split: prod.splits)
  ultimately consider "x = Inr None" "s2 = s" | e where "x = Inr (Some (Data e))" "stream_ok c acts del (absorb_app e s2)"
    | "x = Inr (Some Drop)" "stream_ok c acts del s2"
    using decode_one_incoming [OF assms(1) inc d] by (auto simp: stream_ok_def)
  then show ?thesis
  proof cases
    case 1
    show ?thesis
    proof (cases "rs_reads s")
      case Nil
      with 1 d True assms(2,3) show ?thesis by (auto simp: read_step_def read_ok_def)
    next
      case (Cons p rs)
      from stream_ok_read [OF assms(2) Cons] 1 d True assms(3) Cons show ?thesis
        by (auto simp: read_step_def read_ok_def)
    qed
  qed (use assms(3) True d in \<open>auto simp: read_step_def\<close>)
qed

lemma read_round_ok:
  assumes "aead_correct (aes128_seal c) (aes128_open c)" "stream_ok c acts del s" "read_round c n s = Some r"
  shows "case r of Return x s' \<Rightarrow> read_ok c acts del x s' | Again s' \<Rightarrow> stream_ok c acts del s'"
proof (cases "rs_write_pending s = []")
  case True
  with assms(3) have "read_step c n s = Some r" by (simp add: read_round_def)
  then show ?thesis by (rule read_step_ok [OF assms(1,2)])
next
  case False
  with assms(3) obtain x s1 where f: "try_flush s = Some (x, s1)" by (auto simp: read_round_def split: option.splits)
  have ok: "stream_ok c acts del s1" "x = Inr ()" using try_flush_stream_ok [OF assms(2) f] by auto
  from assms(3) False f ok(2) have "read_step c n s1 = Some r" by (simp add: read_round_def)
  then show ?thesis by (rule read_step_ok [OF assms(1) ok(1)])
qed

lemma poll_read_ok:
  assumes "aead_correct (aes128_seal c) (aes128_open c)" "stream_ok c acts del s" "poll_read c n s = Some (x, s')"
  shows "read_ok c acts del x s'"
  using assms(3,2) by (rule poll_read_rule) (use read_round_ok [OF assms(1)] in fastforce)+

lemma poll_write_ok:
  assumes "stream_ok c acts del s" "poll_write c buf s = Some (x, s')"
  shows "stream_ok c acts del s'"
proof -
  obtain r s1 where f: "poll_flush_pending s = Some (r, s1)"
    using assms(2) by (auto simp: poll_write_def split: option.splits)
  have ok: "stream_ok c acts del s1" using flush_stream_ok [OF assms(1) f] by simp
  have "stream_ok c acts del (s1\<lparr> rs_send_keys := k, rs_write_pending := p \<rparr>)" for k p
    using ok incoming_ok_steady [of c acts del s1] by (auto simp: stream_ok_def intro: incoming_ok_cong [of c acts del s1])
  with assms(2) f ok try_flush_stream_ok show ?thesis
    by (fastforce simp: poll_write_def Let_def split: option.splits poll.splits sum.splits if_splits)
qed

lemma stream_run_ok:
  assumes "aead_correct (aes128_seal c) (aes128_open c)"
  shows "stream_ok c acts del s \<Longrightarrow> stream_run c ops s = Some (a, d, s') \<Longrightarrow> stream_ok c acts (del @ d) s'"
proof (induction ops arbitrary: s del a d)
  case (Cons op ops)
  from Cons.prems(2) obtain a1 d1 s1 a2 d2 where st: "stream_step c op s = Some (a1, d1, s1)"
      and rest: "stream_run c ops s1 = Some (a2, d2, s')" and d: "d = d1 @ d2"
    by (auto split: option.splits)
  have "stream_ok c acts (del @ d1) s1"
  proof (cases op)
    case (OpWrite b)
    with st poll_write_ok [OF Cons.prems(1), of b] show ?thesis by (auto split: option.splits poll.splits sum.splits)
  next
    case (OpRead n)
    with st poll_read_ok [OF assms Cons.prems(1), of n] show ?thesis
      by (fastforce simp: read_ok_def split: option.splits poll.splits sum.splits)
  next
    case (OpFlush half)
    with st flush_stream_ok [OF Cons.prems(1)] show ?thesis
      by (auto dest!: poll_flush_flushes split: option.splits poll.splits sum.splits)
  next
    case (OpShutdown half)
    with st flush_stream_ok [OF Cons.prems(1)] show ?thesis
      by (auto dest!: poll_shutdown_flushes split: option.splits poll.splits sum.splits)
  qed
  from Cons.IH [OF this rest] show ?case by (simp add: d)
qed simp

lemma server_run_empty:
  assumes "aead_correct (aes128_seal c) (aes128_open c)" "list_all valid_act todo"
    "server_run c todo secret keys = Some rs" "concat rs = []"
  shows "todo = []"
proof (cases todo)
  case (Cons a todo')
  with server_run_Cons [OF assms(1), of a todo' secret keys rs] assms(2-4) show ?thesis
    by (auto simp: wire_record_def)
qed simp

lemma stripped_stream_prefix: "prefix (stripped_stream b) (stripped_stream (b @ b'))"
  by (cases "length b < 2 \<or> length b < 2 + unat (b ! 1)")
     (simp add: stripped_stream_def, simp add: stripped_stream_append)

text \<open>
  C12. The user reads what the server sent. Whatever the server sends in its records, application data,
  tickets and key updates, alone or together, however the network cuts the stream, and whatever the
  user writes meanwhile: what has been read at any time is the beginning of the server's data without
  the VLESS response header; all of it once nothing is left to read; and no read ever fails.
\<close>

theorem user_reads_what_was_sent:
  assumes "aead_correct (aes128_seal c) (aes128_open c)" "list_all valid_act acts"
    "server_run c acts server_secret recv_keys = Some rs" "leftover @ script_bytes reads = concat rs"
    "steady reads" "write_fine writes"
    "stream_run c ops (reality_stream_new reads writes recv_keys send_keys leftover server_secret client_secret) =
       Some (accepted, delivered, s)"
  shows "prefix delivered (stripped_stream (sent_data acts)) \<and>
    (rs_reads s = [] \<and> rs_read_raw s = [] \<and> rs_plaintext_out s = [] \<longrightarrow> delivered = stripped_stream (sent_data acts)) \<and>
    (\<forall>n e s'. poll_read c n s \<noteq> Some (Ready (Inl e), s'))"
proof -
  let ?s0 = "reality_stream_new reads writes recv_keys send_keys leftover server_secret client_secret"
  have "stream_ok c acts [] ?s0"
    unfolding stream_ok_def incoming_ok_def using assms(2-6)
    by (intro conjI exI [of _ "[]"] exI [of _ acts] exI [of _ rs])
       (simp_all add: reality_stream_new_def strip_ok_def header_missing_def stripper_new_def sent_data_def)
  from stream_run_ok [OF assms(1) this assms(7)] have ok: "stream_ok c acts delivered s" by simp
  then obtain past todo rs' where o: "acts = past @ todo" "list_all valid_act todo"
      "server_run c todo (rs_server_ap_secret s) (rs_recv_keys s) = Some rs'"
      "rs_read_raw s @ script_bytes (rs_reads s) = concat rs'"
      "strip_ok (sent_data past) (delivered @ rs_plaintext_out s) s"
    by (auto simp: stream_ok_def incoming_ok_def)
  have out: "delivered @ rs_plaintext_out s = stripped_stream (sent_data past)" by (rule strip_ok_stream [OF o(5)])
  have "prefix delivered (stripped_stream (sent_data acts))"
    using stripped_stream_prefix [of "sent_data past" "sent_data todo"] out [symmetric]
    by (simp add: o(1) sent_data_def) (metis prefixI prefix_order.trans)
  moreover have "delivered = stripped_stream (sent_data acts)"
    if "rs_reads s = [] \<and> rs_read_raw s = [] \<and> rs_plaintext_out s = []"
    using server_run_empty [OF assms(1) o(2,3)] o(1,4) out that by simp
  moreover have "poll_read c n s \<noteq> Some (Ready (Inl e), s')" for n e s'
    using poll_read_ok [OF assms(1) ok, of n] by (fastforce simp: read_ok_def)
  ultimately show ?thesis by blast
qed

text \<open>
  A server that answers with a two-byte header and data, then asks for new keys together with a ticket,
  and sends more data under them; the network delivers it in three pieces.
\<close>

definition example_acts :: "server_act list" where
  "example_acts = [SendData [0, 0, 5], SendPost [Ticket [4, 0, 0, 1, 9], KeyUpd True], SendData [6, 7]]"

definition example_records :: bytes where
  "example_records = record_header 20 @ [0, 0, 5, 0x17] @ replicate 16 0 @
     record_header 27 @ [4, 0, 0, 1, 9] @ [0x18, 0, 0, 1, 1] @ [0x16] @ replicate 16 0 @
     record_header 19 @ [6, 7, 0x17] @ replicate 16 0"

theorem user_reads_what_was_sent_witness:
  "\<exists>s. stream_run flat_crypto [OpRead 10, OpRead 10, OpRead 10, OpRead 10]
     (reality_stream_new [Ready (Inr (take 7 (drop 3 example_records))), Pending, Ready (Inr (drop 10 example_records))] []
       (record_keys_new [1] [2]) (record_keys_new [3] [4]) (take 3 example_records) [5] [6]) = Some ([], [5, 6, 7], s) \<and>
   prefix [5, 6, 7] (stripped_stream (sent_data example_acts))"
proof -
  let ?s0 = "reality_stream_new [Ready (Inr (take 7 (drop 3 example_records))), Pending, Ready (Inr (drop 10 example_records))] []
       (record_keys_new [1] [2]) (record_keys_new [3] [4]) (take 3 example_records) [5] [6]"
  have aead: "aead_correct (aes128_seal flat_crypto) (aes128_open flat_crypto)"
    by (simp add: aead_correct_def flat_crypto_def)
  have valid: "list_all valid_act example_acts" by (simp add: example_acts_def framed_def u24_def)
  have server: "\<exists>rs. server_run flat_crypto example_acts [5] (record_keys_new [1] [2]) = Some rs \<and> concat rs = example_records"
    by (simp add: example_acts_def example_records_def seal_def Let_def next_seq_def record_keys_new_def flat_crypto_def
        record_keys_from_secret_def)
  have "drop 10 example_records = drop 7 (drop 3 example_records)" by simp
  then have pieces: "take 3 example_records @ take 7 (drop 3 example_records) @ drop 10 example_records = example_records"
    by (simp only: append_take_drop_id)
  from server obtain rs where rs: "server_run flat_crypto example_acts [5] (record_keys_new [1] [2]) = Some rs"
      "take 3 example_records @ script_bytes [Ready (Inr (take 7 (drop 3 example_records))), Pending, Ready (Inr (drop 10 example_records))] = concat rs"
    using pieces by auto
  have "\<exists>s. stream_run flat_crypto [OpRead 10, OpRead 10, OpRead 10, OpRead 10] ?s0 = Some ([], [5, 6, 7], s)"
    by (simp add: example_records_def reality_stream_new_def poll_flush_pending_def
        try_flush_def seal_def next_seq_def record_keys_new_def Let_def poll_read.simps read_round_def
        read_step_def decode_one_def record_header_def be16_def from_be16_def MAX_TLS_RECORD_def open_record_def
        flat_crypto_def strip_padding_def post_handshake_messages cut_messages.simps u24_def on_key_update_def
        absorb_app_def is_stripped_def strip_def stripper_new_def record_keys_from_secret_def)
  then obtain s where s: "stream_run flat_crypto [OpRead 10, OpRead 10, OpRead 10, OpRead 10] ?s0 = Some ([], [5, 6, 7], s)" ..
  have "steady [Ready (Inr (take 7 (drop 3 example_records))), Pending, Ready (Inr (drop 10 example_records))]"
    by (simp add: steady_def example_records_def record_header_def be16_def)
  from user_reads_what_was_sent [OF aead valid rs(1,2) this _ s] s show ?thesis by (auto simp: write_fine_def)
qed

end
