(* ===== verification/Parsing.thy ===== *)
theory Parsing
  imports Auth
begin

text \<open>
  Strings to values: what the configuration code uses of Rust's standard library (slicing with its
  panic off character boundaries, \<open>trim\<close>, integer parsing, the parser of socket addresses) and
  \<open>TargetAddr::parse\<close> of \<^verbatim>\<open>src/shared/target.rs\<close>. Strings are their UTF-8 bytes.
\<close>

section \<open>Slices and white space\<close>

definition is_char_boundary :: "bytes \<Rightarrow> nat \<Rightarrow> bool" where
  "is_char_boundary s i \<longleftrightarrow> i = 0 \<or> i = length s \<or> i < length s \<and> \<not> utf8_cont (s ! i)"

text \<open>\<open>&s[a..b]\<close>; \<open>None\<close> if it panics.\<close>

definition str_index :: "bytes \<Rightarrow> nat \<Rightarrow> nat \<Rightarrow> bytes option" where
  "str_index s a b =
     (if a \<le> b \<and> b \<le> length s \<and> is_char_boundary s a \<and> is_char_boundary s b then Some (take (b - a) (drop a s)) else None)"

text \<open>The characters with the Unicode property \<open>White_Space\<close>, encoded.\<close>

definition WHITE_SPACE :: "bytes list" where
  "WHITE_SPACE =
     [[9], [10], [11], [12], [13], [32], [0xC2, 0x85], [0xC2, 0xA0], [0xE1, 0x9A, 0x80], [0xE2, 0x80, 0xA8],
      [0xE2, 0x80, 0xA9], [0xE2, 0x80, 0xAF], [0xE2, 0x81, 0x9F], [0xE3, 0x80, 0x80]] @
     map (\<lambda>i. [0xE2, 0x80, i]) [0x80, 0x81, 0x82, 0x83, 0x84, 0x85, 0x86, 0x87, 0x88, 0x89, 0x8A]"

definition starts_with :: "bytes \<Rightarrow> bytes \<Rightarrow> bool" where
  "starts_with s w \<longleftrightarrow> take (length w) s = w"

lemma WHITE_SPACE_nonempty: "w \<in> set WHITE_SPACE \<Longrightarrow> w \<noteq> []"
  by (auto simp: WHITE_SPACE_def)

function trim_start :: "bytes \<Rightarrow> bytes" where
  "trim_start s =
     (case find (starts_with s) WHITE_SPACE of None \<Rightarrow> s | Some w \<Rightarrow> trim_start (drop (length w) s))"
  by pat_completeness auto
termination
proof (relation "measure length")
  fix s w assume "find (starts_with s) WHITE_SPACE = Some w"
  then have "w \<in> set WHITE_SPACE" "starts_with s w" by (auto simp: find_Some_iff)
  then show "(drop (length w) s, s) \<in> measure length"
    using WHITE_SPACE_nonempty by (cases s) (force simp: starts_with_def)+
qed simp

function trim_back :: "bytes \<Rightarrow> bytes" where
  "trim_back s =
     (case find (\<lambda>w. strip_suffix s w \<noteq> None) WHITE_SPACE of None \<Rightarrow> s | Some w \<Rightarrow> trim_back (take (length s - length w) s))"
  by pat_completeness auto
termination
proof (relation "measure length")
  fix s w assume "find (\<lambda>w. strip_suffix s w \<noteq> None) WHITE_SPACE = Some w"
  then have "w \<in> set WHITE_SPACE" "\<exists>p. s = p @ w" by (auto simp: find_Some_iff strip_suffix_Some_iff)
  then show "(take (length s - length w) s, s) \<in> measure length"
    using WHITE_SPACE_nonempty by auto
qed simp

declare trim_start.simps [simp del] trim_back.simps [simp del]

definition trim :: "bytes \<Rightarrow> bytes" where
  "trim s = trim_back (trim_start s)"

section \<open>Integers\<close>

definition dec_digit :: "u8 \<Rightarrow> nat option" where
  "dec_digit b = (if 0x30 \<le> b \<and> b \<le> 0x39 then Some (unat b - 0x30) else None)"

fun dec_value :: "nat \<Rightarrow> bytes \<Rightarrow> nat \<Rightarrow> nat option" where
  "dec_value mx [] acc = Some acc"
| "dec_value mx (b # bs) acc =
     (case dec_digit b of
        None \<Rightarrow> None
      | Some d \<Rightarrow> if acc * 10 + d > mx then None else dec_value mx bs (acc * 10 + d))"

text \<open>\<open>s.parse::<T>()\<close> for an unsigned type whose largest value is \<open>mx\<close>.\<close>

definition parse_uint :: "nat \<Rightarrow> bytes \<Rightarrow> nat option" where
  "parse_uint mx s =
     (if s = [] \<or> s = str ''+'' then None else dec_value mx (if hd s = 0x2b then tl s else s) 0)"

section \<open>Socket addresses\<close>

text \<open>
  The parser of \<open>std::net\<close>. A parser takes the rest of the input and gives a value and what is left; a parser
  that fails consumes nothing.
\<close>

type_synonym 'a parser = "bytes \<Rightarrow> ('a \<times> bytes) option"

definition read_given :: "u8 \<Rightarrow> unit parser" where
  "read_given ch s = (case s of c # r \<Rightarrow> if c = ch then Some ((), r) else None | [] \<Rightarrow> None)"

definition read_number :: "(u8 \<Rightarrow> nat option) \<Rightarrow> nat \<Rightarrow> nat option \<Rightarrow> bool \<Rightarrow> nat \<Rightarrow> nat parser" where
  "read_number digit radix max_digits allow_zero_prefix mx s =
     (let ds = takeWhile (\<lambda>b. digit b \<noteq> None) s;
          v = fold (\<lambda>b acc. acc * radix + the (digit b)) ds 0
      in if (case max_digits of Some m \<Rightarrow> m < length ds | None \<Rightarrow> False) then None
         else if ds = [] then None
         else if \<not> allow_zero_prefix \<and> hd ds = 0x30 \<and> 1 < length ds then None
         else if mx < v then None
         else Some (v, drop (length ds) s))"

definition read_separator :: "u8 \<Rightarrow> nat \<Rightarrow> 'a parser \<Rightarrow> 'a parser" where
  "read_separator sep index inner s =
     (if 0 < index then (case read_given sep s of None \<Rightarrow> None | Some (_, r) \<Rightarrow> inner r) else inner s)"

fun read_octets :: "nat \<Rightarrow> nat \<Rightarrow> nat list parser" where
  "read_octets 0 i s = Some ([], s)"
| "read_octets (Suc n) i s =
     (case read_separator 0x2e i (read_number dec_digit 10 (Some 3) False 255) s of
        None \<Rightarrow> None
      | Some (o1, r) \<Rightarrow> map_option (apfst ((#) o1)) (read_octets n (Suc i) r))"

definition octets_value :: "nat list \<Rightarrow> u32" where
  "octets_value os = fold (\<lambda>x acc. acc * 256 + of_nat x) os 0"

definition groups_value :: "nat list \<Rightarrow> 128 word" where
  "groups_value gs = fold (\<lambda>x acc. acc * 65536 + of_nat x) gs 0"

definition read_ipv4 :: "nat list parser" where
  "read_ipv4 s = read_octets 4 0 s"

text \<open>The groups of an IPv6 address, the last two possibly as an IPv4 address; whether they were.\<close>

fun read_groups :: "nat \<Rightarrow> nat \<Rightarrow> bytes \<Rightarrow> nat list \<times> bool \<times> bytes" where
  "read_groups 0 i s = ([], False, s)"
| "read_groups (Suc n) i s =
     (case (if 0 < n then read_separator 0x3a i read_ipv4 s else None) of
        Some (os, r) \<Rightarrow> ([os ! 0 * 256 + os ! 1, os ! 2 * 256 + os ! 3], True, r)
      | None \<Rightarrow>
          (case read_separator 0x3a i (read_number hex_digit 16 (Some 4) True 65535) s of
             None \<Rightarrow> ([], False, s)
           | Some (g, r) \<Rightarrow> (case read_groups n (Suc i) r of (gs, v4, r') \<Rightarrow> (g # gs, v4, r'))))"

definition read_ipv6 :: "nat list parser" where
  "read_ipv6 s =
     (case read_groups 8 0 s of
        (head, head_ipv4, r) \<Rightarrow>
          if length head = 8 then Some (head, r)
          else if head_ipv4 then None
          else (case read_given 0x3a r of
                 None \<Rightarrow> None
               | Some (_, r1) \<Rightarrow>
                   (case read_given 0x3a r1 of
                      None \<Rightarrow> None
                    | Some (_, r2) \<Rightarrow>
                        (case read_groups (8 - (length head + 1)) 0 r2 of
                           (tail, _, r3) \<Rightarrow> Some (head @ replicate (8 - length head - length tail) 0 @ tail, r3)))))"

definition read_port :: "nat parser" where
  "read_port s = (case read_given 0x3a s of None \<Rightarrow> None | Some (_, r) \<Rightarrow> read_number dec_digit 10 None True 65535 r)"

definition read_socket_v4 :: "target_addr parser" where
  "read_socket_v4 s =
     (case read_ipv4 s of
        None \<Rightarrow> None
      | Some (os, r) \<Rightarrow>
          map_option (apfst (\<lambda>p. IpPort (V4 (octets_value os)) (of_nat p))) (read_port r))"

text \<open>The scope of an IPv6 socket address, if any, must be well formed; it plays no role here.\<close>

definition read_scope :: "bytes \<Rightarrow> bytes" where
  "read_scope s =
     (case read_given 0x25 s of
        None \<Rightarrow> s
      | Some (_, r) \<Rightarrow> (case read_number dec_digit 10 None True (2 ^ 32 - 1) r of None \<Rightarrow> s | Some (_, r') \<Rightarrow> r'))"

definition read_socket_v6 :: "target_addr parser" where
  "read_socket_v6 s =
     (case read_given 0x5b s of
        None \<Rightarrow> None
      | Some (_, r) \<Rightarrow>
          (case read_ipv6 r of
             None \<Rightarrow> None
           | Some (gs, r1) \<Rightarrow>
               (case read_given 0x5d (read_scope r1) of
                  None \<Rightarrow> None
                | Some (_, r2) \<Rightarrow>
                    map_option (apfst (\<lambda>p. IpPort (V6 (groups_value gs)) (of_nat p))) (read_port r2))))"

text \<open>\<open>s.parse::<SocketAddr>()\<close>: the whole string must be consumed.\<close>

definition parse_socket_addr :: "bytes \<Rightarrow> target_addr option" where
  "parse_socket_addr s =
     (case (case read_socket_v4 s of Some x \<Rightarrow> Some x | None \<Rightarrow> read_socket_v6 s) of
        Some (a, []) \<Rightarrow> Some a
      | _ \<Rightarrow> None)"

section \<open>Target addresses\<close>

text \<open>\<open>s.rsplit_once(c)\<close> for a one-byte character: what is before and behind its last occurrence.\<close>

definition rsplit_once :: "u8 \<Rightarrow> bytes \<Rightarrow> (bytes \<times> bytes) option" where
  "rsplit_once c s =
     (if c \<in> set s then Some (rev (tl (dropWhile (\<lambda>b. b \<noteq> c) (rev s))), rev (takeWhile (\<lambda>b. b \<noteq> c) (rev s))) else None)"

definition target_parse :: "bytes \<Rightarrow> target_addr result" where
  "target_parse input =
     (case parse_socket_addr input of
        Some a \<Rightarrow> Inr a
      | None \<Rightarrow>
          (case rsplit_once 0x3a input of
             None \<Rightarrow> Inl (InvalidTarget ''no port'')
           | Some (host, port_str) \<Rightarrow>
               (case parse_uint 65535 port_str of
                  None \<Rightarrow> Inl (InvalidTarget ''port'')
                | Some port \<Rightarrow>
                    if host = [] then Inl (InvalidTarget ''host'') else Inr (DomainPort host (of_nat port)))))"

end
