(* ===== verification/Config.thy ===== *)
theory Config
  imports Parsing TuicCodec
begin

text \<open>
  Configuration and startup: the parsers of environment values in \<^verbatim>\<open>src/client_tun.rs\<close>, \<^verbatim>\<open>src/tuic.rs\<close>,
  \<^verbatim>\<open>src/quic.rs\<close> and \<^verbatim>\<open>src/reality_upstream.rs\<close>, and \<open>start_tun_proxy\<close>, which decides what is started. The
  process environment is a function from names to values (a variable that is unset, or not valid
  UTF-8, has none). The \<open>base64\<close> crate, the creation of the TUN device and the first TUIC connection are
  parameters. A panic is \<^const>\<open>None\<close>.
\<close>

type_synonym env = "string \<Rightarrow> bytes option"

section \<open>The TUN runtime\<close>

definition DEFAULT_TUN_POOL_SIZE :: nat where "DEFAULT_TUN_POOL_SIZE = 2"
definition DEFAULT_TUN_MTU :: nat where "DEFAULT_TUN_MTU = 1500"
definition MIN_TUN_MTU :: nat where "MIN_TUN_MTU = 576"
definition MAX_TUN_MTU :: nat where "MAX_TUN_MTU = 9000"
definition METRICS_SNAPSHOT_SECS :: nat where "METRICS_SNAPSHOT_SECS = 30"

text \<open>\<open>matches!(s.map(|v| v.trim().to_ascii_lowercase()).as_deref(), Some(..) | ..)\<close>\<close>

definition flag_among :: "bytes list \<Rightarrow> bytes option \<Rightarrow> bool" where
  "flag_among names s = (case s of None \<Rightarrow> False | Some v \<Rightarrow> to_ascii_lowercase (trim v) \<in> set names)"

definition parse_trace :: "bytes option \<Rightarrow> bool" where
  "parse_trace s = flag_among [str ''1'', str ''true''] s"

definition parse_profile_loop :: "bytes option \<Rightarrow> bool" where
  "parse_profile_loop s = flag_among [str ''1'', str ''true''] s"

definition parse_metrics_secs :: "bytes option \<Rightarrow> nat" where
  "parse_metrics_secs s =
     (case Option.bind s (\<lambda>v. parse_uint (2 ^ 64 - 1) (trim v)) of
        Some n \<Rightarrow> if n > 0 then n else METRICS_SNAPSHOT_SECS
      | None \<Rightarrow> METRICS_SNAPSHOT_SECS)"

definition parse_tun_mtu :: "bytes option \<Rightarrow> nat" where
  "parse_tun_mtu s =
     (case Option.bind s (\<lambda>v. parse_uint (2 ^ 64 - 1) (trim v)) of
        Some n \<Rightarrow> if MIN_TUN_MTU \<le> n \<and> n \<le> MAX_TUN_MTU then n else DEFAULT_TUN_MTU
      | None \<Rightarrow> DEFAULT_TUN_MTU)"

definition listener_from_sources :: "bytes option \<Rightarrow> nat result" where
  "listener_from_sources pool_size =
     and_then
       (case pool_size of
          Some value \<Rightarrow>
            (case parse_uint (2 ^ 64 - 1) value of Some n \<Rightarrow> Inr n | None \<Rightarrow> Inl (InvalidTarget ''invalid pool size''))
        | None \<Rightarrow> Inr DEFAULT_TUN_POOL_SIZE)
       (\<lambda>n. if n = 0 then Inl (InvalidTarget ''pool size must be at least 1'') else Inr n)"

record tun_runtime_config =
  rt_pool_size :: nat
  rt_tun_mtu :: nat
  rt_metrics_secs :: nat
  rt_profile_loop :: bool

definition runtime_from_sources :: "bytes option \<Rightarrow> tun_runtime_config result" where
  "runtime_from_sources pool_size =
     and_then (listener_from_sources pool_size)
       (\<lambda>n. Inr \<lparr> rt_pool_size = n, rt_tun_mtu = DEFAULT_TUN_MTU, rt_metrics_secs = METRICS_SNAPSHOT_SECS,
                  rt_profile_loop = False \<rparr>)"

definition runtime_from_env :: "env \<Rightarrow> tun_runtime_config result" where
  "runtime_from_env g =
     and_then (runtime_from_sources (g ''MINI_VPN_TUN_POOL_SIZE''))
       (\<lambda>cfg. Inr (cfg\<lparr> rt_tun_mtu := parse_tun_mtu (g ''MINI_VPN_TUN_MTU''),
                        rt_metrics_secs := parse_metrics_secs (g ''MINI_VPN_METRICS_SECS''),
                        rt_profile_loop := parse_profile_loop (g ''MINI_VPN_PROFILE_LOOP'') \<rparr>))"

text \<open>\<open>i32::try_from(tun_mtu).expect(..)\<close>.\<close>

definition tun_mtu_for_config :: "nat \<Rightarrow> nat option" where
  "tun_mtu_for_config mtu = (if mtu < 2 ^ 31 then Some mtu else None)"

section \<open>UUIDs and keys\<close>

text \<open>The loop over the sixteen pairs of digits: a slice off a character boundary panics.\<close>

fun uuid_loop :: "bytes \<Rightarrow> nat list \<Rightarrow> bytes option option" where
  "uuid_loop hex [] = Some (Some [])"
| "uuid_loop hex (i # is) =
     (case str_index hex (i * 2) (i * 2 + 2) of
        None \<Rightarrow> None
      | Some p \<Rightarrow>
          (case u8_from_str_radix16 p of
             None \<Rightarrow> Some None
           | Some b \<Rightarrow> map_option (map_option ((#) b)) (uuid_loop hex is)))"

definition parse_uuid :: "bytes \<Rightarrow> bytes option option" where
  "parse_uuid s =
     (let hex = filter (\<lambda>b. b \<noteq> 0x2d) s
      in if length hex \<noteq> 32 then Some None else uuid_loop hex [0..<16])"

text \<open>The same function once more in the REALITY upstream.\<close>

definition reality_parse_uuid :: "bytes \<Rightarrow> bytes option option" where
  "reality_parse_uuid s =
     (let hex = filter (\<lambda>b. b \<noteq> 0x2d) s
      in if length hex \<noteq> 32 then Some None else uuid_loop hex [0..<16])"

record base64 =
  url_safe_no_pad :: "bytes \<Rightarrow> bytes option"
  url_safe :: "bytes \<Rightarrow> bytes option"
  standard_no_pad :: "bytes \<Rightarrow> bytes option"
  standard :: "bytes \<Rightarrow> bytes option"

definition or_else :: "'a option \<Rightarrow> 'a option \<Rightarrow> 'a option" where
  "or_else x y = (case x of None \<Rightarrow> y | Some _ \<Rightarrow> x)"

definition parse_pbk :: "base64 \<Rightarrow> bytes \<Rightarrow> bytes result" where
  "parse_pbk b64 s0 =
     (let s = trim s0
      in case or_else (url_safe_no_pad b64 s) (or_else (url_safe b64 s) (or_else (standard_no_pad b64 s) (standard b64 s))) of
           None \<Rightarrow> Inl (Reality ''public_key base64'')
         | Some decoded \<Rightarrow> if length decoded = 32 then Inr decoded else Inl (Reality ''public_key length''))"

section \<open>TUIC\<close>

datatype cc_choice = Bbr | Cubic

definition parse_cc :: "bytes \<Rightarrow> cc_choice \<times> bool" where
  "parse_cc name =
     (if to_ascii_lowercase name = str ''bbr'' then (Bbr, False)
      else if to_ascii_lowercase name = str ''cubic'' then (Cubic, False)
      else (Cubic, True))"

record tuic_client_config =
  tc_server :: target_addr
  tc_uuid :: bytes
  tc_password :: bytes
  tc_sni :: bytes
  tc_ca_path :: bytes
  tc_alpn :: bytes
  tc_congestion_control :: bytes
  tc_udp_relay_mode :: bytes
  tc_zero_rtt :: bool

text \<open>\<open>x.ok_or_else(..)?\<close> and an inner panic, in the order the fields are read.\<close>

definition required :: "'a option \<Rightarrow> client_error \<Rightarrow> 'a result" where
  "required x e = (case x of None \<Rightarrow> Inl e | Some v \<Rightarrow> Inr v)"

definition non_empty :: "bytes option \<Rightarrow> bytes option" where
  "non_empty x = (case x of Some v \<Rightarrow> if v = [] then None else Some v | None \<Rightarrow> None)"

definition tuic_from_sources ::
    "bytes option \<Rightarrow> bytes option \<Rightarrow> bytes option \<Rightarrow> bytes option \<Rightarrow> bytes option \<Rightarrow> bytes option \<Rightarrow> tuic_client_config result option" where
  "tuic_from_sources server uuid password sni ca_path alpn =
     (case and_then (required server (InvalidTarget ''tuic server addr required''))
             (\<lambda>s. required (parse_socket_addr s) (InvalidTarget ''invalid tuic server addr'')) of
        Inl e \<Rightarrow> Some (Inl e)
      | Inr server \<Rightarrow>
          (case uuid of
             None \<Rightarrow> Some (Inl (InvalidTarget ''tuic uuid required''))
           | Some u \<Rightarrow>
               (case parse_uuid u of
                  None \<Rightarrow> None
                | Some parsed \<Rightarrow>
                    Some (and_then (required parsed (InvalidTarget ''invalid tuic uuid'')) (\<lambda>uuid.
                      and_then (required (non_empty password) (InvalidTarget ''tuic password required'')) (\<lambda>password.
                      Inr \<lparr> tc_server = server, tc_uuid = uuid, tc_password = password,
                            tc_sni = (case sni of Some v \<Rightarrow> v | None \<Rightarrow> str ''localhost''),
                            tc_ca_path = (case ca_path of Some v \<Rightarrow> v | None \<Rightarrow> str ''cert.pem''),
                            tc_alpn = (case alpn of Some v \<Rightarrow> v | None \<Rightarrow> str ''h3''),
                            tc_congestion_control = str ''cubic'', tc_udp_relay_mode = str ''native'',
                            tc_zero_rtt = False \<rparr>))))))"

definition override_field :: "bytes \<Rightarrow> bytes option \<Rightarrow> bytes" where
  "override_field dflt env_val = (case env_val of Some v \<Rightarrow> if trim v \<noteq> [] then v else dflt | None \<Rightarrow> dflt)"

definition parse_zero_rtt :: "bytes option \<Rightarrow> bool" where
  "parse_zero_rtt s = flag_among [str ''true'', str ''1'', str ''on'', str ''yes''] s"

definition tuic_from_env :: "env \<Rightarrow> tuic_client_config result option" where
  "tuic_from_env g =
     (case tuic_from_sources (g ''MINI_VPN_TUIC_SERVER'') (g ''MINI_VPN_TUIC_UUID'') (g ''MINI_VPN_TUIC_PASSWORD'')
             (g ''MINI_VPN_TUIC_SNI'') (g ''MINI_VPN_TUIC_CA_PATH'') (g ''MINI_VPN_TUIC_ALPN'') of
        None \<Rightarrow> None
      | Some r \<Rightarrow>
          Some (and_then r (\<lambda>cfg. Inr (cfg\<lparr> tc_zero_rtt := parse_zero_rtt (g ''MINI_VPN_TUIC_ZERO_RTT''),
            tc_congestion_control := override_field (tc_congestion_control cfg) (g ''MINI_VPN_TUIC_CC''),
            tc_udp_relay_mode := override_field (tc_udp_relay_mode cfg) (g ''MINI_VPN_TUIC_UDP_MODE'') \<rparr>))))"

section \<open>REALITY\<close>

record reality_client_config =
  rc_server :: bytes
  rc_uuid :: bytes
  rc_pbk :: bytes
  rc_short_id :: bytes
  rc_sni :: bytes

definition reality_from_sources ::
    "base64 \<Rightarrow> bytes option \<Rightarrow> bytes option \<Rightarrow> bytes option \<Rightarrow> bytes option \<Rightarrow> bytes option \<Rightarrow> reality_client_config result option" where
  "reality_from_sources b64 server uuid pbk short_id sni =
     (case required (non_empty server) (Reality ''REALITY_SERVER'') of
        Inl e \<Rightarrow> Some (Inl e)
      | Inr server \<Rightarrow>
          (case uuid of
             None \<Rightarrow> Some (Inl (Reality ''REALITY_UUID''))
           | Some u \<Rightarrow>
               (case reality_parse_uuid u of
                  None \<Rightarrow> None
                | Some parsed \<Rightarrow>
                    Some (and_then (required parsed (Reality ''REALITY_UUID invalid'')) (\<lambda>uuid.
                      and_then (and_then (required pbk (Reality ''REALITY_PBK'')) (parse_pbk b64)) (\<lambda>pbk.
                      and_then (parse_short_id (case short_id of Some v \<Rightarrow> v | None \<Rightarrow> [])) (\<lambda>short_id.
                      and_then (required (non_empty sni) (Reality ''REALITY_SNI'')) (\<lambda>sni.
                      Inr \<lparr> rc_server = server, rc_uuid = uuid, rc_pbk = pbk, rc_short_id = short_id, rc_sni = sni \<rparr>))))))))"

definition reality_from_env :: "base64 \<Rightarrow> env \<Rightarrow> reality_client_config result option" where
  "reality_from_env b64 g =
     reality_from_sources b64 (g ''MINI_VPN_REALITY_SERVER'') (g ''MINI_VPN_REALITY_UUID'') (g ''MINI_VPN_REALITY_PBK'')
       (g ''MINI_VPN_REALITY_SHORT_ID'') (g ''MINI_VPN_REALITY_SNI'')"

section \<open>Startup\<close>

datatype upstream_kind = KindTuic | KindReality | KindFailover

definition select_upstream_kind :: "bytes option \<Rightarrow> upstream_kind" where
  "select_upstream_kind e =
     (case map_option (\<lambda>s. to_ascii_lowercase (trim s)) e of
        Some v \<Rightarrow> if v = str ''reality'' then KindReality else if v = str ''failover'' then KindFailover else KindTuic
      | None \<Rightarrow> KindTuic)"

text \<open>What runs in the end; \<open>'c\<close> is an established TUIC connection.\<close>

datatype 'c startup =
    Aborted client_error
  | RunTuic tun_runtime_config tuic_client_config 'c
  | RunReality tun_runtime_config reality_client_config
  | RunFailover tun_runtime_config tuic_client_config 'c reality_client_config

text \<open>The TUIC leg, for two of the three kinds.\<close>

definition start_tuic :: "env \<Rightarrow> (tuic_client_config \<Rightarrow> 'c result) \<Rightarrow> (tuic_client_config \<times> 'c) result option" where
  "start_tuic g connect =
     (case tuic_from_env g of
        None \<Rightarrow> None
      | Some r \<Rightarrow> Some (and_then r (\<lambda>cfg. and_then (connect cfg) (\<lambda>c. Inr (cfg, c)))))"

definition start_tun_proxy ::
    "base64 \<Rightarrow> env \<Rightarrow> (nat \<Rightarrow> unit result) \<Rightarrow> (tuic_client_config \<Rightarrow> 'c result) \<Rightarrow> 'c startup option" where
  "start_tun_proxy b64 g create_device connect =
     (case runtime_from_env g of
        Inl e \<Rightarrow> Some (Aborted e)
      | Inr rt \<Rightarrow>
          (case tun_mtu_for_config (rt_tun_mtu rt) of
             None \<Rightarrow> None
           | Some mtu \<Rightarrow>
               (case create_device mtu of
                  Inl e \<Rightarrow> Some (Aborted e)
                | Inr _ \<Rightarrow>
                    (case select_upstream_kind (g ''MINI_VPN_UPSTREAM'') of
                       KindTuic \<Rightarrow>
                         map_option (case_sum Aborted (\<lambda>(cfg, c). RunTuic rt cfg c)) (start_tuic g connect)
                     | KindReality \<Rightarrow>
                         map_option (case_sum Aborted (\<lambda>cfg. RunReality rt cfg)) (reality_from_env b64 g)
                     | KindFailover \<Rightarrow>
                         (case start_tuic g connect of
                            None \<Rightarrow> None
                          | Some (Inl e) \<Rightarrow> Some (Aborted e)
                          | Some (Inr (tcfg, c)) \<Rightarrow>
                              map_option (case_sum Aborted (\<lambda>rcfg. RunFailover rt tcfg c rcfg)) (reality_from_env b64 g))))))"

section \<open>Properties\<close>

text \<open>UUIDs: the canonical text is read back, ASCII never panics, and what is accepted is sixteen bytes.\<close>

definition uuid_text :: "bytes \<Rightarrow> bytes" where
  "uuid_text u = hex_of (take 4 u) @ [0x2d] @ hex_of (take 2 (drop 4 u)) @ [0x2d] @ hex_of (take 2 (drop 6 u)) @ [0x2d] @
     hex_of (take 2 (drop 8 u)) @ [0x2d] @ hex_of (drop 10 u)"

lemma length_hex_of: "length (hex_of b) = 2 * length b"
  by (induction b) (simp_all add: hex_of_def)

lemma hex_of_append: "hex_of (a @ b) = hex_of a @ hex_of b"
  by (simp add: hex_of_def)

lemma hex_of_ascii: "x \<in> set (hex_of b) \<Longrightarrow> x < 0x80 \<and> x \<noteq> 0x2d"
proof -
  have "hex_char d \<noteq> 0x2d" if "d < 16" for d
    using unat_hex_char [OF that] by (auto simp: word_unat_eq_iff split: if_splits)
  then show "x \<in> set (hex_of b) \<Longrightarrow> x < 0x80 \<and> x \<noteq> 0x2d"
    using hex_char_cases nibbles_less by (auto simp: hex_of_def)
qed

lemma ascii_boundary: "\<forall>x\<in>set s. x < 0x80 \<Longrightarrow> i \<le> length s \<Longrightarrow> is_char_boundary s i"
proof -
  have "x < 0x80 \<Longrightarrow> \<not> utf8_cont x" for x by (auto simp: utf8_cont_def)
  then show "\<forall>x\<in>set s. x < 0x80 \<Longrightarrow> i \<le> length s \<Longrightarrow> is_char_boundary s i"
    by (auto simp: is_char_boundary_def)
qed

lemma uuid_loop_ascii:
  "\<forall>x\<in>set hex. x < 0x80 \<Longrightarrow> \<forall>i\<in>set is. i * 2 + 2 \<le> length hex \<Longrightarrow> uuid_loop hex is \<noteq> None"
  by (induction "is") (auto simp: str_index_def ascii_boundary split: option.split)

lemma uuid_loop_hex:
  assumes "length u = 16" "n \<le> 16"
  shows "uuid_loop (hex_of u) [n..<16] = Some (Some (drop n u))"
  using assms(2)
proof (induction n rule: inc_induct)
  case base
  then show ?case using assms(1) by simp
next
  case (step n)
  have "take 2 (drop (n * 2) (hex_of u)) = [hex_char (unat (u ! n) div 16), hex_char (unat (u ! n) mod 16)]"
  proof -
    have u: "u = take n u @ u ! n # drop (Suc n) u" using step(2) assms(1) by (simp add: id_take_nth_drop)
    have "drop (n * 2) (hex_of u) = hex_of (u ! n # drop (Suc n) u)"
      using step(2) assms(1) by (subst u) (simp add: hex_of_append length_hex_of min_def)
    then show ?thesis by (simp add: hex_of_def)
  qed
  moreover have "is_char_boundary (hex_of u) (n * 2)" "is_char_boundary (hex_of u) (n * 2 + 2)"
    using step(2) assms(1) hex_of_ascii by (auto intro!: ascii_boundary simp: length_hex_of)
  ultimately have "str_index (hex_of u) (n * 2) (n * 2 + 2) = Some [hex_char (unat (u ! n) div 16), hex_char (unat (u ! n) mod 16)]"
    using step(2) assms(1) by (simp add: str_index_def length_hex_of)
  with step show ?case
    using assms(1) by (simp add: upt_conv_Cons from_str_radix16_pair Cons_nth_drop_Suc)
qed

lemma parse_uuid_text:
  assumes "length u = 16"
  shows "parse_uuid (uuid_text u) = Some (Some u)"
proof -
  have "filter (\<lambda>b. b \<noteq> 0x2d) (hex_of b) = hex_of b" for b using hex_of_ascii by (simp add: filter_id_conv)
  then have "filter (\<lambda>b. b \<noteq> 0x2d) (uuid_text u) =
      hex_of (take 4 u @ take 2 (drop 4 u) @ take 2 (drop 6 u) @ take 2 (drop 8 u) @ drop 10 u)"
    by (simp add: uuid_text_def hex_of_append)
  also have "take 4 u @ take 2 (drop 4 u) @ take 2 (drop 6 u) @ take 2 (drop 8 u) @ drop 10 u = u"
  proof -
    have "take k (drop n u) @ drop (n + k) u = drop n u" for k n
      by (metis append_take_drop_id drop_drop add.commute)
    from this [of 4 0] this [of 2 4] this [of 2 6] this [of 2 8] show ?thesis by simp
  qed
  finally show ?thesis using uuid_loop_hex [OF assms, of 0] assms by (simp add: parse_uuid_def length_hex_of)
qed

lemma uuid_loop_length: "uuid_loop hex is = Some (Some u) \<Longrightarrow> length u = length is"
  by (induction "is" arbitrary: u) (auto split: option.splits)

lemma parse_uuid_length: "parse_uuid s = Some (Some u) \<Longrightarrow> length u = 16"
  by (auto simp: parse_uuid_def Let_def dest: uuid_loop_length split: if_splits)

lemma parse_uuid_ascii: "\<forall>x\<in>set s. x < 0x80 \<Longrightarrow> parse_uuid s \<noteq> None"
  by (auto simp: parse_uuid_def Let_def intro!: uuid_loop_ascii [unfolded not_None_eq])

lemma reality_parse_uuid_eq: "reality_parse_uuid = parse_uuid"
  by (rule ext) (simp add: reality_parse_uuid_def parse_uuid_def)

text \<open>What the readers accept: every configuration that comes out is usable as it stands.\<close>

definition runtime_ok :: "tun_runtime_config \<Rightarrow> bool" where
  "runtime_ok rt \<longleftrightarrow> 1 \<le> rt_pool_size rt \<and> MIN_TUN_MTU \<le> rt_tun_mtu rt \<and> rt_tun_mtu rt \<le> MAX_TUN_MTU \<and> 1 \<le> rt_metrics_secs rt"

definition tuic_config_ok :: "tuic_client_config \<Rightarrow> bool" where
  "tuic_config_ok cfg \<longleftrightarrow> length (tc_uuid cfg) = 16 \<and> tc_password cfg \<noteq> []"

definition reality_config_ok :: "reality_client_config \<Rightarrow> bool" where
  "reality_config_ok cfg \<longleftrightarrow>
     length (rc_uuid cfg) = 16 \<and> length (rc_pbk cfg) = 32 \<and> length (rc_short_id cfg) = 8 \<and> rc_server cfg \<noteq> [] \<and> rc_sni cfg \<noteq> []"

lemma and_then_Inr_iff: "and_then x f = Inr y \<longleftrightarrow> (\<exists>v. x = Inr v \<and> f v = Inr y)"
  by (cases x) simp_all

lemma required_Inr: "required x e = Inr v \<longleftrightarrow> x = Some v"
  by (simp add: required_def split: option.split)

lemma non_empty_Some: "non_empty x = Some v \<longleftrightarrow> x = Some v \<and> v \<noteq> []"
  by (auto simp: non_empty_def split: option.splits)

lemma short_id_loop_length: "short_id_loop ps i out = Inr sid \<Longrightarrow> length sid = length out"
  by (induction ps i out rule: short_id_loop.induct) (auto split: if_splits option.splits)

lemma parse_short_id_length: "parse_short_id s = Inr sid \<Longrightarrow> length sid = 8"
  by (auto simp: parse_short_id_def dest: short_id_loop_length split: if_splits)

lemma parse_pbk_length: "parse_pbk b64 s = Inr k \<Longrightarrow> length k = 32"
  by (auto simp: parse_pbk_def Let_def split: option.splits if_splits)

lemma runtime_from_env_ok: "runtime_from_env g = Inr rt \<Longrightarrow> runtime_ok rt"
  by (auto simp: runtime_from_env_def runtime_from_sources_def listener_from_sources_def and_then_Inr_iff runtime_ok_def
      parse_tun_mtu_def parse_metrics_secs_def METRICS_SNAPSHOT_SECS_def MIN_TUN_MTU_def MAX_TUN_MTU_def DEFAULT_TUN_MTU_def
      split: option.splits if_splits)

lemma tuic_from_env_ok: "tuic_from_env g = Some (Inr cfg) \<Longrightarrow> tuic_config_ok cfg"
  by (auto simp: tuic_from_env_def tuic_from_sources_def and_then_Inr_iff required_Inr non_empty_Some tuic_config_ok_def
      dest: parse_uuid_length split: option.splits sum.splits)

lemma reality_from_env_ok: "reality_from_env b64 g = Some (Inr cfg) \<Longrightarrow> reality_config_ok cfg"
  by (auto simp: reality_from_env_def reality_from_sources_def and_then_Inr_iff required_Inr non_empty_Some reality_config_ok_def
      reality_parse_uuid_eq dest: parse_uuid_length parse_short_id_length parse_pbk_length split: option.splits sum.splits)

lemma tun_mtu_for_config_ok: "runtime_ok rt \<Longrightarrow> tun_mtu_for_config (rt_tun_mtu rt) = Some (rt_tun_mtu rt)"
  by (simp add: runtime_ok_def tun_mtu_for_config_def MAX_TUN_MTU_def)

text \<open>Only the UUIDs can make the readers panic, and no ASCII value does.\<close>

definition ascii_value :: "bytes option \<Rightarrow> bool" where
  "ascii_value v = (case v of None \<Rightarrow> True | Some s \<Rightarrow> list_all (\<lambda>b. b < 0x80) s)"

lemma tuic_from_env_returns: "ascii_value (g ''MINI_VPN_TUIC_UUID'') \<Longrightarrow> tuic_from_env g \<noteq> None"
  by (auto simp: tuic_from_env_def tuic_from_sources_def ascii_value_def list_all_iff dest!: parse_uuid_ascii split: option.splits sum.splits)

lemma reality_from_env_returns: "ascii_value (g ''MINI_VPN_REALITY_UUID'') \<Longrightarrow> reality_from_env b64 g \<noteq> None"
  by (auto simp: reality_from_env_def reality_from_sources_def ascii_value_def list_all_iff reality_parse_uuid_eq dest!: parse_uuid_ascii
      split: option.splits sum.splits)

lemma start_tuic_ok: "start_tuic g connect = Some (Inr (cfg, c)) \<Longrightarrow> tuic_config_ok cfg \<and> connect cfg = Inr c"
  by (auto simp: start_tuic_def and_then_Inr_iff dest: tuic_from_env_ok split: option.splits)

lemma start_tuic_returns: "ascii_value (g ''MINI_VPN_TUIC_UUID'') \<Longrightarrow> start_tuic g connect \<noteq> None"
  using tuic_from_env_returns by (auto simp: start_tuic_def split: option.split)

fun startup_ok :: "(tuic_client_config \<Rightarrow> 'c result) \<Rightarrow> 'c startup \<Rightarrow> bool" where
  "startup_ok connect (Aborted _) \<longleftrightarrow> True"
| "startup_ok connect (RunTuic rt cfg c) \<longleftrightarrow> runtime_ok rt \<and> tuic_config_ok cfg \<and> connect cfg = Inr c"
| "startup_ok connect (RunReality rt cfg) \<longleftrightarrow> runtime_ok rt \<and> reality_config_ok cfg"
| "startup_ok connect (RunFailover rt tcfg c rcfg) \<longleftrightarrow>
     runtime_ok rt \<and> tuic_config_ok tcfg \<and> connect tcfg = Inr c \<and> reality_config_ok rcfg"

lemma map_case_sum:
  "map_option (case_sum Aborted h) x = Some r \<Longrightarrow>
   (\<exists>e. x = Some (Inl e) \<and> r = Aborted e) \<or> (\<exists>v. x = Some (Inr v) \<and> r = h v)"
  by (cases x; cases "the x") auto

lemma start_tun_proxy_ok:
  assumes "start_tun_proxy b64 g create_device connect = Some r"
  shows "startup_ok connect r"
  using assms unfolding start_tun_proxy_def
  by (auto dest!: map_case_sum dest: runtime_from_env_ok reality_from_env_ok start_tuic_ok simp del: map_option_eq_Some
      split: sum.splits option.splits upstream_kind.splits prod.splits)

lemma start_tun_proxy_returns:
  assumes "ascii_value (g ''MINI_VPN_TUIC_UUID'')" "ascii_value (g ''MINI_VPN_REALITY_UUID'')"
  shows "start_tun_proxy b64 g create_device connect \<noteq> None"
  using start_tuic_returns [of g connect, OF assms(1)] reality_from_env_returns [of g b64, OF assms(2)] tun_mtu_for_config_ok runtime_from_env_ok
  by (auto simp: start_tun_proxy_def split: sum.splits option.splits upstream_kind.splits)

text \<open>A value that is not ASCII can panic: a slice through the middle of a character.\<close>

lemma parse_uuid_panics: "parse_uuid ([0x30, 0xc3, 0xa9] @ replicate 29 0x30) = None"
  by code_simp

end
