(* ===== verification/HandshakeComplete.thy ===== *)
theory HandshakeComplete
  imports Segmentation RealityWrite
begin

text \<open>
  The other direction of the handshake driver of \<^verbatim>\<open>src/reality/handshake.rs\<close>: a server that answers as it
  should is let through, whatever the records of its flight look like and however the network cuts
  the stream.
\<close>

section \<open>Reading records off a stream\<close>

lemma reader_next_stream:
  assumes "clean ins" "buf @ bytes_of ins = hdr @ body @ rest" "length hdr = 5"
    "unat (from_be16 (hdr ! 3) (hdr ! 4)) = length body" "length body \<le> MAX_TLS_RECORD"
  shows "\<exists>buf' ins'. reader_next buf ins = Inr ((hdr ! 0, hdr, body), buf', ins') \<and> clean ins' \<and> buf' @ bytes_of ins' = rest"
proof -
  have len: "length (buf @ bytes_of ins) = 5 + length body + length rest" using assms(2,3) by simp
  obtain b1 i1 where f1: "fill 5 buf ins = Inr (b1, i1)" and c1: "clean i1" "b1 @ bytes_of i1 = hdr @ body @ rest" "5 \<le> length b1"
    using fill_clean [OF assms(1), of 5 buf] len assms(2) by (auto simp del: length_append)
  have h: "take 5 b1 = hdr" using arg_cong [OF c1(2), of "take 5"] c1(3) assms(3) by simp
  have "length (b1 @ bytes_of i1) = 5 + length body + length rest" using c1(2) assms(3) by simp
  then obtain b2 i2 where f2: "fill (5 + length body) b1 i1 = Inr (b2, i2)"
      and c2: "clean i2" "b2 @ bytes_of i2 = hdr @ body @ rest" "5 + length body \<le> length b2"
    using fill_clean [OF c1(1), of "5 + length body" b1] c1(2) by (auto simp del: length_append)
  have "take (5 + length body) b2 = hdr @ body"
    using arg_cong [OF c2(2), of "take (5 + length body)"] c2(3) assms(3) by simp
  then have b: "take (length body) (drop 5 b2) = body"
    using drop_take [of 5 "5 + length body" b2] assms(3) by simp
  have r: "drop (5 + length body) b2 @ bytes_of i2 = rest"
    using arg_cong [OF c2(2), of "drop (5 + length body)"] c2(3) assms(3) by simp
  have "reader_next buf ins = Inr ((hdr ! 0, hdr, body), drop (5 + length body) b2, i2)"
    unfolding reader_next_def f1 and_then.simps prod.case Let_def h assms(4) using assms(5) by (simp add: f2 require_def b)
  with c2(1) r show ?thesis by blast
qed

lemma wire_record_reads:
  assumes "clean ins" "buf @ bytes_of ins = r @ rest" "wire_record r"
  shows "\<exists>buf' ins'. reader_next buf ins = Inr ((r ! 0, take 5 r, drop 5 r), buf', ins') \<and> clean ins' \<and> buf' @ bytes_of ins' = rest"
proof -
  have "5 \<le> length r" "unat (from_be16 (r ! 3) (r ! 4)) = length r - 5" "length r - 5 \<le> MAX_TLS_RECORD"
    using assms(3) by (auto simp: wire_record_def)
  with reader_next_stream [OF assms(1), of buf "take 5 r" "drop 5 r" rest] assms(2) show ?thesis by simp
qed

lemma plain_record_reads:
  assumes "clean ins" "buf @ bytes_of ins = plain_record ty v body @ rest" "length body \<le> 16384"
  shows "\<exists>hdr buf' ins'. reader_next buf ins = Inr ((ty, hdr, body), buf', ins') \<and> clean ins' \<and> buf' @ bytes_of ins' = rest"
proof -
  let ?h = "[ty] @ be16 v @ be16 (of_nat (length body))"
  have "unat (of_nat (length body) :: u16) = length body" using assms(3) by (intro unat_of_nat_small) simp
  then have "unat (from_be16 (?h ! 3) (?h ! 4)) = length body" by (simp add: be16_def from_be16_be16)
  with reader_next_stream [OF assms(1), of buf ?h body rest] assms(2,3) show ?thesis
    by (auto simp: plain_record_def MAX_TLS_RECORD_def be16_def)
qed

section \<open>The flight\<close>

lemma cut_messages_part:
  assumes "list_all framed L" "x @ y = concat L"
  shows "\<exists>L1 L2 b. L = L1 @ L2 \<and> cut_messages x = (L1, b) \<and> b @ y = concat L2"
proof -
  obtain ms b where c: "cut_messages x = (ms, b)" by (cases "cut_messages x")
  from cut_messages_parts [OF c] have p: "x = concat ms @ b" "list_all framed ms" by auto
  have "cut_messages (concat L @ []) = (L, [])"
    by (subst cut_messages_concat [OF assms(1)]) (simp add: cut_messages_incomplete incomplete_def)
  moreover have "cut_messages (concat L) = apfst ((@) ms) (cut_messages (b @ y))"
    using cut_messages_concat [OF p(2), of "b @ y"] assms(2) p(1) by (metis append_assoc)
  ultimately have L: "L = ms @ fst (cut_messages (b @ y))" "snd (cut_messages (b @ y)) = []"
    by (cases "cut_messages (b @ y)"; simp)+
  obtain m2 r2 where c2: "cut_messages (b @ y) = (m2, r2)" by (cases "cut_messages (b @ y)")
  from cut_messages_parts [OF c2] L c2 have "b @ y = concat m2" by simp
  with L c c2 show ?thesis by auto
qed

lemma flight_messages_ok:
  "flight_ok v ms \<Longrightarrow>
   flight_messages c v hs (ms @ rest) t cv = flight_messages c v hs rest (t @ concat ms) (cv \<or> has_cert ms)"
  by (induction ms arbitrary: t cv) (auto simp: flight_ok_def has_cert_def)

text \<open>The Finished of the server for a transcript.\<close>

definition finished_msg :: "crypto \<Rightarrow> bytes \<Rightarrow> bytes \<Rightarrow> bytes" where
  "finished_msg c secret t = [0x14, 0x00, 0x00, 0x20] @ compute_finished_verify_data c secret (transcript_hash c [t])"

lemma flight_messages_finished:
  "flight_messages c v hs [finished_msg c (s_hs_secret hs) t] t True = Inr (True, t @ finished_msg c (s_hs_secret hs) t, True)"
  by (simp add: finished_msg_def require_def get_range_def Let_def)

lemma flight_ccs:
  assumes "clean ins" "buf @ bytes_of ins = concat (replicate k CLIENT_CCS) @ rest"
  shows "\<exists>buf' ins'. flight c v hs buf ins recv reasm t cv = flight c v hs buf' ins' recv reasm t cv \<and>
    clean ins' \<and> buf' @ bytes_of ins' = rest"
  using assms
proof (induction k arbitrary: buf ins)
  case (Suc k)
  have "CLIENT_CCS = plain_record 0x14 0x0303 [1]" by (simp add: CLIENT_CCS_def plain_record_def be16_def)
  with Suc.prems obtain hdr b i where r: "reader_next buf ins = Inr ((0x14, hdr, [1]), b, i)"
      "clean i" "b @ bytes_of i = concat (replicate k CLIENT_CCS) @ rest"
    using plain_record_reads [OF Suc.prems(1), of buf "0x14" "0x0303" "[1]" "concat (replicate k CLIENT_CCS) @ rest"] by auto
  from r(1) have "flight c v hs buf ins recv reasm t cv = flight c v hs b i recv reasm t cv"
    by (subst flight.simps) simp
  with Suc.IH [OF r(2,3)] show ?case by simp
qed auto

lemma flight_record:
  assumes "aead_correct (aes128_seal c) (aes128_open c)" "clean ins" "buf @ bytes_of ins = r @ rest"
    "seal c 0x16 d recv = Some (r, recv')" "length d \<le> 16384"
  shows "\<exists>buf' ins'. clean ins' \<and> buf' @ bytes_of ins' = rest \<and>
    flight c v hs buf ins recv reasm t cv =
      (let (msgs, reasm') = reassembler_push d reasm in
       (case flight_messages c v hs msgs t cv of
          Inl e \<Rightarrow> Some (Inl e)
        | Inr (finished, t', cv') \<Rightarrow>
            if finished then Some (Inr (t', buf', ins')) else flight c v hs buf' ins' recv' reasm' t' cv'))"
proof -
  from wire_record_reads [OF assms(2,3) seal_wire_record [OF assms(1,4,5)]] obtain b i where
    r: "reader_next buf ins = Inr ((r ! 0, take 5 r, drop 5 r), b, i)" "clean i" "b @ bytes_of i = rest" by blast
  have "r ! 0 = 0x17" using assms(4) by (auto simp: seal_def Let_def record_header_def split: option.splits)
  with r(1) open_seal [OF assms(1) _ assms(4)] have "flight c v hs buf ins recv reasm t cv =
      (let (msgs, reasm') = reassembler_push d reasm in
       (case flight_messages c v hs msgs t cv of
          Inl e \<Rightarrow> Some (Inl e)
        | Inr (finished, t', cv') \<Rightarrow>
            if finished then Some (Inr (t', b, i)) else flight c v hs b i recv' reasm' t' cv'))"
    by (subst flight.simps) simp
  with r(2,3) show ?thesis by blast
qed

lemma flight_complete:
  assumes "aead_correct (aes128_seal c) (aes128_open c)"
  shows "\<lbrakk>clean ins; buf @ bytes_of ins = concat rs @ rest; seal_all c (map (Pair 0x16) ds) recv = Some (rs, k');
      list_all (\<lambda>d. d \<noteq> [] \<and> length d \<le> 16384) ds; ds \<noteq> [];
      hr_buf reasm @ concat ds = concat (msgs @ [fin]); list_all framed (msgs @ [fin]); flight_ok v msgs;
      cv \<or> has_cert msgs; fin = finished_msg c (s_hs_secret hs) (t @ concat msgs)\<rbrakk> \<Longrightarrow>
    \<exists>buf' ins'. flight c v hs buf ins recv reasm t cv = Some (Inr (t @ concat msgs @ fin, buf', ins')) \<and>
      clean ins' \<and> buf' @ bytes_of ins' = rest"
proof (induction ds arbitrary: buf ins rs recv reasm msgs t cv)
  case (Cons d ds)
  from Cons.prems(3) obtain r recv1 rs1 where s: "seal c 0x16 d recv = Some (r, recv1)"
      and rest: "seal_all c (map (Pair 0x16) ds) recv1 = Some (rs1, k')" and rs: "rs = r # rs1"
    by (auto split: option.splits)
  have in1: "buf @ bytes_of ins = r @ concat rs1 @ rest" "length d \<le> 16384" using Cons.prems(2,4) rs by auto
  from flight_record [OF assms Cons.prems(1) in1(1) s in1(2), of v hs reasm t cv]
  obtain b i where c: "clean i" "b @ bytes_of i = concat rs1 @ rest"
    and f: "flight c v hs buf ins recv reasm t cv =
      (let (msgs, reasm') = reassembler_push d reasm in
       (case flight_messages c v hs msgs t cv of
          Inl e \<Rightarrow> Some (Inl e)
        | Inr (finished, t', cv') \<Rightarrow>
            if finished then Some (Inr (t', b, i)) else flight c v hs b i recv1 reasm' t' cv'))" by blast
  obtain L1 L2 b' where L: "msgs @ [fin] = L1 @ L2" "cut_messages (hr_buf reasm @ d) = (L1, b')" "b' @ concat ds = concat L2"
    using cut_messages_part [OF Cons.prems(7), of "hr_buf reasm @ d" "concat ds"] Cons.prems(6) by auto
  have push: "reassembler_push d reasm = (L1, reasm\<lparr> hr_buf := b' \<rparr>)" by (simp add: reassembler_push_def L(2))
  show ?case
  proof (cases "L2 = []")
    case True
    then have L1: "L1 = msgs @ [fin]" and ds: "ds = []" using L Cons.prems(4) by (cases ds; auto)+
    have "flight_messages c v hs L1 t cv = Inr (True, (t @ concat msgs) @ fin, True)"
      using flight_messages_ok [OF Cons.prems(8), of c hs "[fin]" t cv] flight_messages_finished [of c v hs "t @ concat msgs"]
        Cons.prems(9,10) by (simp add: L1)
    with f push c rest ds show ?thesis by auto
  next
    case False
    then obtain M where M: "msgs = L1 @ M" "L2 = M @ [fin]"
      using L(1) by (cases L2 rule: rev_cases) auto
    have ok: "flight_ok v L1" "flight_ok v M" using Cons.prems(8) by (auto simp: M flight_ok_def)
    have ff: "flight_messages c v hs L1 t cv = Inr (False, t @ concat L1, cv \<or> has_cert L1)"
      using flight_messages_ok [OF ok(1), of c hs "[]" t cv] by simp
    have ne: "ds \<noteq> []"
    proof
      assume "ds = []"
      with L(3) M have "b' = concat M @ fin" by simp
      moreover have "incomplete b'" using cut_messages_parts [OF L(2)] by simp
      moreover have "cut_messages (concat (M @ [fin]) @ []) = (M @ [fin], [])"
        using Cons.prems(7) M
        by (subst cut_messages_concat) (auto simp: cut_messages_incomplete incomplete_def)
      ultimately show False by (simp add: cut_messages_incomplete)
    qed
    have "\<exists>buf' ins'. flight c v hs b i recv1 (reasm\<lparr> hr_buf := b' \<rparr>) (t @ concat L1) (cv \<or> has_cert L1) =
        Some (Inr ((t @ concat L1) @ concat M @ fin, buf', ins')) \<and> clean ins' \<and> buf' @ bytes_of ins' = rest"
    proof (rule Cons.IH [OF c rest _ ne _ _ ok(2)])
      show "list_all (\<lambda>d. d \<noteq> [] \<and> length d \<le> 16384) ds" using Cons.prems(4) by simp
      show "hr_buf (reasm\<lparr> hr_buf := b' \<rparr>) @ concat ds = concat (M @ [fin])" using L(3) M by simp
      show "list_all framed (M @ [fin])" using Cons.prems(7) M by simp
      show "(cv \<or> has_cert L1) \<or> has_cert M" using Cons.prems(9) M by (auto simp: has_cert_def)
      show "fin = finished_msg c (s_hs_secret hs) ((t @ concat L1) @ concat M)" using Cons.prems(10) M by simp
    qed
    with f push ff show ?thesis by (simp add: M)
  qed
qed simp

section \<open>The driver\<close>

lemma net_write_ok: "net_wr n = [] \<Longrightarrow> net_write b n = (Inr (), n\<lparr> net_out := net_out n @ b \<rparr>)"
  by (simp add: net_write_def)

lemma seal_fresh: "\<exists>r k. seal c ty m (record_keys_new key iv) = Some (r, k)"
  by (simp add: seal_def Let_def next_seq_def record_keys_new_def)

lemma finish_handshake_complete:
  assumes "net_wr n = []"
  shows "\<exists>out n'. finish_handshake c hs t l n = Some (Inr out, n') \<and> keys_of_transcript c hs t out \<and>
    ho_leftover out = l \<and> net_in n' = net_in n \<and> net_wr n' = []"
proof -
  obtain r k where "seal c 0x16 ([0x14, 0x00, 0x00, 0x20] @ compute_finished_verify_data c (c_hs_secret hs) (transcript_hash c [t]))
      (record_keys_new (hs_client_key hs) (hs_client_iv hs)) = Some (r, k)" using seal_fresh by blast
  with assms show ?thesis by (simp add: finish_handshake_def keys_of_transcript_def Let_def net_write_ok)
qed

text \<open>A flight as a server sends it: some messages and the Finished, cut into records in any way.\<close>

definition sent_flight :: "crypto \<Rightarrow> (bytes \<Rightarrow> unit result) \<Rightarrow> hs_keys \<Rightarrow> bytes \<Rightarrow> bytes list \<Rightarrow> bytes list \<Rightarrow> bytes list \<Rightarrow> bool" where
  "sent_flight c v hs t msgs ds rs \<longleftrightarrow>
     flight_ok v msgs \<and> has_cert msgs \<and> list_all framed (msgs @ [finished_msg c (s_hs_secret hs) (t @ concat msgs)]) \<and>
     concat ds = concat msgs @ finished_msg c (s_hs_secret hs) (t @ concat msgs) \<and>
     list_all (\<lambda>d. d \<noteq> [] \<and> length d \<le> 16384) ds \<and>
     (\<exists>k. seal_all c (map (Pair 0x16) ds) (record_keys_new (hs_server_key hs) (hs_server_iv hs)) = Some (rs, k))"

lemma drive_complete:
  assumes "aead_correct (aes128_seal c) (aes128_open c)" "clean (net_in n)" "net_wr n = []"
    "length (hi_client_hello input) \<le> MAX_TLS_PLAINTEXT" "length sh \<le> 16384"
    "parse_server_hello sh (hi_expected_session_id input) = Inr p"
    "derive_handshake_keys c (x25519_shared_secret c (hi_client_eph_secret input) (ps_server_key_share p)) (hi_client_hello input) sh = Inr hs"
    "sent_flight c v hs (hi_client_hello input @ sh) msgs ds rs"
    "bytes_of (net_in n) = plain_record 0x16 0x0303 sh @ concat (replicate k CLIENT_CCS) @ concat rs @ rest"
  shows "\<exists>out n'. drive c v input n = Some (Inr out, n') \<and> ho_leftover out @ bytes_of (net_in n') = rest \<and> net_wr n' = [] \<and>
    keys_of_transcript c hs (hi_client_hello input @ sh @ concat msgs @
      finished_msg c (s_hs_secret hs) ((hi_client_hello input @ sh) @ concat msgs)) out"
proof -
  let ?t = "hi_client_hello input @ sh"
  let ?fin = "finished_msg c (s_hs_secret hs) (?t @ concat msgs)"
  let ?n = "n\<lparr> net_out := net_out n @ plain_record 0x16 0x0301 (hi_client_hello input) @ CLIENT_CCS \<rparr>"
  from plain_record_reads [OF assms(2), of "[]" "0x16" "0x0303" sh] assms(5,9) obtain hdr b i where
    r: "reader_next [] (net_in n) = Inr ((0x16, hdr, sh), b, i)" "clean i"
      "b @ bytes_of i = concat (replicate k CLIENT_CCS) @ concat rs @ rest" by auto
  from flight_ccs [OF r(2,3)] obtain b1 i1 where
    f1: "flight c v hs b i (record_keys_new (hs_server_key hs) (hs_server_iv hs)) reassembler_new ?t False =
      flight c v hs b1 i1 (record_keys_new (hs_server_key hs) (hs_server_iv hs)) reassembler_new ?t False"
      "clean i1" "b1 @ bytes_of i1 = concat rs @ rest" by blast
  from assms(8) obtain k' where k': "seal_all c (map (Pair 0x16) ds) (record_keys_new (hs_server_key hs) (hs_server_iv hs)) = Some (rs, k')"
    by (auto simp: sent_flight_def)
  have "ds \<noteq> []" using assms(8) by (auto simp: sent_flight_def finished_msg_def)
  then have "\<exists>b2 i2. flight c v hs b1 i1 (record_keys_new (hs_server_key hs) (hs_server_iv hs)) reassembler_new ?t False =
      Some (Inr (?t @ concat msgs @ ?fin, b2, i2)) \<and> clean i2 \<and> b2 @ bytes_of i2 = rest"
    by (intro flight_complete [OF assms(1) f1(2,3) k']) (use assms(8) in \<open>auto simp: sent_flight_def reassembler_new_def\<close>)
  then obtain b2 i2 where f2: "flight c v hs b1 i1 (record_keys_new (hs_server_key hs) (hs_server_iv hs)) reassembler_new ?t False =
      Some (Inr (?t @ concat msgs @ ?fin, b2, i2))" "b2 @ bytes_of i2 = rest" by blast
  have "drive c v input n = finish_handshake c hs (?t @ concat msgs @ ?fin) b2 (?n\<lparr> net_in := i2 \<rparr>)"
    using assms(3,4) unfolding drive_def write_record_def drive_from_server_hello_def
    by (simp add: net_write_ok r(1) assms(6,7) Let_def) (simp add: f1(1) [simplified] f2(1) [simplified])
  with finish_handshake_complete [of "?n\<lparr> net_in := i2 \<rparr>" c hs "?t @ concat msgs @ ?fin" b2] assms(3) f2(2)
  show ?thesis by auto
qed

end
