(* ===== verification/RealityUpstream.thy ===== *)
theory RealityUpstream
  imports Config HandshakeComplete
begin

text \<open>
  The REALITY upstream, \<^verbatim>\<open>src/reality_upstream.rs\<close>: opening a TCP flow is a fresh connection, a full REALITY
  handshake on it and the VLESS request as the first application record; what comes back is the stream of
  \<^verbatim>\<open>RealityStream\<close> over the keys of the handshake.

  The random scalar and the random of the ClientHello, the clock (seconds since the epoch, nothing if it
  is set before it), the connection and whether the timers fire are arguments. A handshake that is
  interrupted by its timer has written what a handshake writes whose input ends there.
\<close>

definition REALITY_HANDSHAKE_TIMEOUT_SECS :: nat where "REALITY_HANDSHAKE_TIMEOUT_SECS = 10"

text \<open>The closure passed to the driver.\<close>

definition reality_verifier :: "crypto \<Rightarrow> bytes \<Rightarrow> bytes \<Rightarrow> unit result" where
  "reality_verifier c auth_key cert_msg =
     and_then (extract_ed25519_pubkey_and_sig cert_msg) (\<lambda>(pk, sig).
       if verify_server_cert c auth_key pk sig then Inr () else Inl (Reality ''certificate HMAC''))"

text \<open>Steps 1 to 3 of \<open>establish\<close>.\<close>

definition reality_auth_key :: "crypto \<Rightarrow> reality_client_config \<Rightarrow> bytes \<Rightarrow> bytes \<Rightarrow> bytes" where
  "reality_auth_key c cfg scalar random =
     (let (sk_c, _) = generate_ephemeral_keypair c scalar
      in derive_auth_key c (x25519_shared_secret c sk_c (rc_pbk cfg)) random)"

definition reality_hello :: "crypto \<Rightarrow> reality_client_config \<Rightarrow> bytes \<Rightarrow> bytes \<Rightarrow> nat option \<Rightarrow> bytes" where
  "reality_hello c cfg scalar random clock =
     (let (_, pk_c) = generate_ephemeral_keypair c scalar;
          timestamp = (case clock of Some secs \<Rightarrow> of_nat secs | None \<Rightarrow> 0)
      in build_authed_client_hello c \<lparr> ah_server_name = rc_sni cfg, ah_key_share = pk_c, ah_random = random,
           ah_auth_key = reality_auth_key c cfg scalar random, ah_short_id = rc_short_id cfg, ah_timestamp = timestamp \<rparr>)"

definition reality_input :: "crypto \<Rightarrow> reality_client_config \<Rightarrow> bytes \<Rightarrow> bytes \<Rightarrow> nat option \<Rightarrow> handshake_input" where
  "reality_input c cfg scalar random clock =
     (let (sk_c, _) = generate_ephemeral_keypair c scalar; ch = reality_hello c cfg scalar random clock
      in \<lparr> hi_client_hello = ch, hi_client_eph_secret = sk_c, hi_expected_session_id = authed_session_id ch \<rparr>)"

definition establish :: "crypto \<Rightarrow> reality_client_config \<Rightarrow> bytes \<Rightarrow> bytes \<Rightarrow> nat option \<Rightarrow> target_addr \<Rightarrow> net \<Rightarrow>
    (handshake_output result \<times> net) option" where
  "establish c cfg scalar random clock target n =
     (case drive c (reality_verifier c (reality_auth_key c cfg scalar random)) (reality_input c cfg scalar random clock) n of
        None \<Rightarrow> None
      | Some (Inl e, n1) \<Rightarrow> Some (Inl e, n1)
      | Some (Inr out, n1) \<Rightarrow>
          (case seal c 0x17 (encode_vless_request (rc_uuid cfg) VLESS_CMD_TCP target) (ho_send_keys out) of
             None \<Rightarrow> None
           | Some (vless, keys) \<Rightarrow>
               (case net_writes [vless, []] n1 of
                  (Inl e, n2) \<Rightarrow> Some (Inl e, n2)
                | (Inr _, n2) \<Rightarrow> Some (Inr (out\<lparr> ho_send_keys := keys \<rparr>), n2))))"

text \<open>
  \<open>open_tcp\<close>: \<open>dial\<close> is the outcome of \<open>TcpStream::connect\<close> to the server, nothing if it takes longer than
  the limit, and \<open>in_time\<close> whether the handshake stays within it. \<open>reads\<close> and \<open>writes\<close> are how the two
  halves of the connection will behave afterwards. The connection is returned as well, for what has been
  written to it.
\<close>

definition reality_open_tcp :: "crypto \<Rightarrow> reality_client_config \<Rightarrow> bytes \<Rightarrow> bytes \<Rightarrow> nat option \<Rightarrow> target_addr \<Rightarrow>
    (bytes \<Rightarrow> net result option) \<Rightarrow> bool \<Rightarrow> bytes result poll list \<Rightarrow> nat result poll list \<Rightarrow> (reality_stream \<times> net) result option" where
  "reality_open_tcp c cfg scalar random clock target dial in_time reads writes =
     (case dial (rc_server cfg) of
        None \<Rightarrow> Some (Inl (Reality ''connect timeout''))
      | Some (Inl e) \<Rightarrow> Some (Inl (Reality ''connect''))
      | Some (Inr n) \<Rightarrow>
          if \<not> in_time then Some (Inl (Reality ''handshake timeout''))
          else
            (case establish c cfg scalar random clock target n of
               None \<Rightarrow> None
             | Some (Inl e, _) \<Rightarrow> Some (Inl e)
             | Some (Inr out, n') \<Rightarrow>
                 Some (Inr (reality_stream_new reads writes (ho_recv_keys out) (ho_send_keys out) (ho_leftover out)
                   (ho_s_ap_secret out) (ho_c_ap_secret out), n'))))"

definition reality_open_is_cheap :: bool where "reality_open_is_cheap = False"

section \<open>Properties\<close>

lemma reality_verifier_Inr:
  "reality_verifier c k m = Inr () \<longleftrightarrow>
   (\<exists>pk sig. extract_ed25519_pubkey_and_sig m = Inr (pk, sig) \<and> hmac_sha512 c k pk = sig)"
  by (auto simp: reality_verifier_def and_then_Inr verify_server_cert_def split: prod.splits)

text \<open>The secret of the client's direction of a transcript, and the keys that belong to it.\<close>

lemma keys_of_transcript_send:
  assumes "keys_of_transcript c hs t out"
  shows "ho_c_ap_secret out = c_ap_secret (derive_application_keys c (handshake_secret hs) (transcript_hash c [t]))"
    "ho_send_keys out = record_keys_from_secret c (ho_c_ap_secret out)"
    "ho_recv_keys out = record_keys_from_secret c (ho_s_ap_secret out)"
  using assms by (simp_all add: keys_of_transcript_def record_keys_from_secret_def derive_application_keys_def Let_def)

lemma establish_spec:
  assumes "establish c cfg scalar random clock target n = Some (r, n')"
  defines "inp \<equiv> reality_input c cfg scalar random clock"
  defines "opening \<equiv> plain_record 0x16 0x0301 (hi_client_hello inp) @ CLIENT_CCS"
  defines "verify \<equiv> reality_verifier c (reality_auth_key c cfg scalar random)"
  shows "(\<exists>e. r = Inl e) \<and> (\<exists>w. net_out n' = net_out n @ w \<and> prefix w opening) \<or>
    (\<exists>sh hs msgs fin w rest. authenticated c verify inp sh hs msgs fin \<and>
       net_out n' = net_out n @ opening @ w \<and> prefix w rest \<and>
       (\<forall>out. r = Inr out \<longrightarrow> (\<exists>out0 fin_record vless keys. rest = fin_record @ vless \<and> w = rest \<and>
          keys_of_transcript c hs (hi_client_hello inp @ sh @ concat msgs @ fin) out0 \<and>
          seal c 0x17 (encode_vless_request (rc_uuid cfg) VLESS_CMD_TCP target) (ho_send_keys out0) = Some (vless, keys) \<and>
          out = out0\<lparr> ho_send_keys := keys \<rparr>)))"
proof -
  obtain r1 n1 where d: "drive c verify inp n = Some (r1, n1)"
    using assms(1) by (auto simp: establish_def inp_def verify_def split: option.splits)
  note spec = drive_spec [OF d, folded opening_def]
  show ?thesis
  proof (cases r1)
    case (Inl e)
    then have rn: "r = Inl e" "n' = n1" using assms(1) d by (auto simp: establish_def inp_def verify_def)
    from spec show ?thesis unfolding rn by blast
  next
    case (Inr out0)
    let ?req = "encode_vless_request (rc_uuid cfg) VLESS_CMD_TCP target"
    obtain vless keys where s: "seal c 0x17 ?req (ho_send_keys out0) = Some (vless, keys)"
      using assms(1) d Inr by (auto simp: establish_def inp_def verify_def split: option.splits)
    obtain x n2 where w2: "net_writes [vless, []] n1 = (x, n2)" by (cases "net_writes [vless, []] n1")
    have rn: "n' = n2" "\<And>out. r = Inr out \<Longrightarrow> x = Inr () \<and> out = out0\<lparr> ho_send_keys := keys \<rparr>"
      using assms(1) d Inr s w2
      by (auto simp: establish_def inp_def verify_def simp del: net_writes.simps split: sum.splits)
    from net_writes_out [OF w2] obtain v where v: "net_out n2 = net_out n1 @ v" "prefix v vless" "x = Inr () \<longrightarrow> v = vless" by auto
    from spec Inr obtain sh hs msgs fin fin_record where a: "authenticated c verify inp sh hs msgs fin"
        and o: "net_out n1 = net_out n @ opening @ fin_record"
        and k: "keys_of_transcript c hs (hi_client_hello inp @ sh @ concat msgs @ fin) out0" by blast
    have "net_out n' = net_out n @ opening @ fin_record @ v" "prefix (fin_record @ v) (fin_record @ vless)"
      using o v rn(1) by simp_all
    with a k s rn(2) v(3) show ?thesis by blast
  qed
qed

lemma length_vless_request: "length uuid = 16 \<Longrightarrow> length (encode_vless_request uuid cmd t) \<le> 16384"
  by (cases t rule: vless_address.cases) (simp_all add: encode_vless_request_def length_host_bytes)

text \<open>The stream that is handed out starts right behind the VLESS request.\<close>

lemma open_tcp_outgoing:
  assumes "aead_correct (aes128_seal c) (aes128_open c)" "length (rc_uuid cfg) = 16"
    "reality_open_tcp c cfg scalar random clock target dial in_time reads writes = Some (Inr (s, n'))"
    "stream_run c ops s = Some (accepted, delivered, s')"
  obtains n sh hs msgs fin fin_record rs where
    "dial (rc_server cfg) = Some (Inr n)"
    "authenticated c (reality_verifier c (reality_auth_key c cfg scalar random)) (reality_input c cfg scalar random clock) sh hs msgs fin"
    "net_out n' @ rs_wire s' @ rs_write_pending s' =
       net_out n @ plain_record 0x16 0x0301 (reality_hello c cfg scalar random clock) @ CLIENT_CCS @ fin_record @ concat rs"
    "list_all wire_record rs"
    "let secret = c_ap_secret (derive_application_keys c (handshake_secret hs)
        (transcript_hash c [reality_hello c cfg scalar random clock @ sh @ concat msgs @ fin]))
     in peer_run c secret (record_keys_from_secret c secret) rs =
          Some (encode_vless_request (rc_uuid cfg) VLESS_CMD_TCP target @ accepted, rs_client_ap_secret s', rs_send_keys s')"
proof -
  let ?inp = "reality_input c cfg scalar random clock" and ?req = "encode_vless_request (rc_uuid cfg) VLESS_CMD_TCP target"
  have h: "hi_client_hello ?inp = reality_hello c cfg scalar random clock"
    by (simp add: reality_input_def Let_def split: prod.splits)
  obtain n out where dn: "dial (rc_server cfg) = Some (Inr n)"
      and e: "establish c cfg scalar random clock target n = Some (Inr out, n')"
      and s: "s = reality_stream_new reads writes (ho_recv_keys out) (ho_send_keys out) (ho_leftover out)
        (ho_s_ap_secret out) (ho_c_ap_secret out)"
    using assms(3) by (auto simp: reality_open_tcp_def split: option.splits sum.splits if_splits prod.splits)
  from establish_spec [OF e] obtain sh hs msgs fin fin_record vless out0 keys where
    a: "authenticated c (reality_verifier c (reality_auth_key c cfg scalar random)) ?inp sh hs msgs fin"
    and o: "net_out n' = net_out n @ (plain_record 0x16 0x0301 (hi_client_hello ?inp) @ CLIENT_CCS) @ fin_record @ vless"
    and k: "keys_of_transcript c hs (hi_client_hello ?inp @ sh @ concat msgs @ fin) out0"
    and v: "seal c 0x17 ?req (ho_send_keys out0) = Some (vless, keys)" and out: "out = out0\<lparr> ho_send_keys := keys \<rparr>" by blast
  have "outgoing_ok c (ho_c_ap_secret out0) keys [] s"
    unfolding outgoing_ok_def s reality_stream_new_def out by (intro exI [of _ "[]"]) simp
  from stream_run_keeps [OF assms(1) this assms(4)] obtain rs where rs: "list_all wire_record rs"
      "concat rs = rs_wire s' @ rs_write_pending s'"
      "peer_run c (ho_c_ap_secret out0) keys rs = Some (accepted, rs_client_ap_secret s', rs_send_keys s')"
    by (auto simp: outgoing_ok_def)
  have "peer_run c (ho_c_ap_secret out0) (ho_send_keys out0) (vless # rs) =
      Some (?req @ accepted, rs_client_ap_secret s', rs_send_keys s')"
    using open_seal [OF assms(1) _ v] rs(3) by simp
  moreover have "wire_record vless" by (rule seal_wire_record [OF assms(1) v length_vless_request [OF assms(2)]])
  ultimately show thesis
    using that [OF dn a, of fin_record "vless # rs"] o rs(1,2) keys_of_transcript_send [OF k] by (simp add: h Let_def)
qed

section \<open>A server that answers\<close>

text \<open>What the protocol relies on of the primitives, besides the ciphers: key agreement, and the sizes.\<close>

definition dh_base :: bytes where "dh_base = (replicate 32 0)[0 := 9]"

definition x25519_ok :: "crypto \<Rightarrow> bool" where
  "x25519_ok c \<longleftrightarrow> (\<forall>a b. x25519_dh c a (x25519_dh c b dh_base) = x25519_dh c b (x25519_dh c a dh_base)) \<and>
     (\<forall>a p. length p = 32 \<longrightarrow> length (x25519_dh c a p) = 32)"

definition macs_sized :: "crypto \<Rightarrow> bool" where
  "macs_sized c \<longleftrightarrow> (\<forall>k m. length (hmac_sha256 c k m) = 32 \<and> length (hmac_sha512 c k m) = 64)"

text \<open>
  A REALITY server: its static and ephemeral secrets, its random, its Ed25519 key, the parts of its
  temporary certificate before the key's marker and between the key and the signature, and the messages
  around the certificate.
\<close>

record reality_server =
  sv_static :: bytes
  sv_eph :: bytes
  sv_random :: bytes
  sv_key :: bytes
  sv_before :: bytes
  sv_after :: bytes
  sv_extensions :: bytes
  sv_verify :: bytes

definition server_ok :: "reality_server \<Rightarrow> bool" where
  "server_ok sv \<longleftrightarrow> acceptable_random (sv_random sv) \<and> length (sv_key sv) = 32 \<and>
     length (sv_before sv) + length (sv_after sv) < 60000 \<and>
     (\<forall>j<length (sv_before sv). take 8 (drop j (sv_before sv @ ED25519_SPKI_MARKER)) \<noteq> ED25519_SPKI_MARKER) \<and>
     framed (sv_extensions sv) \<and> sv_extensions sv ! 0 = 0x08 \<and> framed (sv_verify sv) \<and> sv_verify sv ! 0 = 0x0f"

definition server_hello_of :: "crypto \<Rightarrow> reality_server \<Rightarrow> bytes \<Rightarrow> bytes" where
  "server_hello_of c sv hello =
     server_hello_msg (sv_random sv) (authed_session_id hello)
       (ext_block [(0x002b, [3, 4]), (0x0033, [0, 0x1d, 0, 32] @ x25519_dh c (sv_eph sv) dh_base)]) []"

text \<open>The server's copy of the authentication key, from the client's message and key share.\<close>

definition server_auth_key :: "crypto \<Rightarrow> reality_server \<Rightarrow> bytes \<Rightarrow> bytes \<Rightarrow> bytes" where
  "server_auth_key c sv hello pub = derive_auth_key c (x25519_dh c (sv_static sv) pub) (take 32 (drop 6 hello))"

definition server_messages :: "crypto \<Rightarrow> reality_server \<Rightarrow> bytes \<Rightarrow> bytes \<Rightarrow> bytes list" where
  "server_messages c sv hello pub =
     [sv_extensions sv,
      certificate_msg (sv_before sv @ ED25519_SPKI_MARKER @ sv_key sv @ sv_after sv @
        hmac_sha512 c (server_auth_key c sv hello pub) (sv_key sv)),
      sv_verify sv]"

text \<open>Its answer: the ServerHello, some ChangeCipherSpecs, and its messages and Finished in any records.\<close>

definition server_answers :: "crypto \<Rightarrow> reality_server \<Rightarrow> bytes \<Rightarrow> bytes \<Rightarrow> bytes \<Rightarrow> bool" where
  "server_answers c sv hello pub answer \<longleftrightarrow>
     (\<exists>hs ccs ds rs k. derive_handshake_keys c (x25519_dh c (sv_eph sv) pub) hello (server_hello_of c sv hello) = Inr hs \<and>
        concat ds = concat (server_messages c sv hello pub) @ finished_msg c (s_hs_secret hs)
          ((hello @ server_hello_of c sv hello) @ concat (server_messages c sv hello pub)) \<and>
        list_all (\<lambda>d. d \<noteq> [] \<and> length d \<le> 16384) ds \<and>
        seal_all c (map (Pair 0x16) ds) (record_keys_new (hs_server_key hs) (hs_server_iv hs)) = Some (rs, k) \<and>
        answer = plain_record 0x16 0x0303 (server_hello_of c sv hello) @ concat (replicate ccs CLIENT_CCS) @ concat rs)"

lemma leaf_position:
  assumes "\<forall>j<length pre. take 8 (drop j (pre @ ED25519_SPKI_MARKER)) \<noteq> ED25519_SPKI_MARKER"
  shows "window_position (pre @ ED25519_SPKI_MARKER @ rest) ED25519_SPKI_MARKER = Some (length pre)"
proof -
  have m: "length ED25519_SPKI_MARKER = 8" by (simp add: ED25519_SPKI_MARKER_def)
  have "take 8 (drop j (pre @ ED25519_SPKI_MARKER @ rest)) = take 8 (drop j (pre @ ED25519_SPKI_MARKER))" if "j < length pre" for j
    using that m by simp
  with assms have "\<forall>j<length pre. take 8 (drop j (pre @ ED25519_SPKI_MARKER @ rest)) \<noteq> ED25519_SPKI_MARKER" by metis
  then show ?thesis
    using m unfolding window_position_def find_Some_iff
    by (intro exI [of _ "length pre"]) (simp del: upt_Suc)
qed

lemma server_cert_accepted:
  assumes "server_ok sv" "macs_sized c"
  shows "reality_verifier c k (certificate_msg (sv_before sv @ ED25519_SPKI_MARKER @ sv_key sv @ sv_after sv @
    hmac_sha512 c k (sv_key sv))) = Inr ()"
proof -
  let ?sig = "hmac_sha512 c k (sv_key sv)"
  let ?der = "sv_before sv @ ED25519_SPKI_MARKER @ sv_key sv @ sv_after sv @ ?sig"
  have m: "length ED25519_SPKI_MARKER = 8" by (simp add: ED25519_SPKI_MARKER_def)
  have len: "length ?sig = 64" "length (sv_key sv) = 32" using assms by (auto simp: macs_sized_def server_ok_def)
  have "window_position ?der ED25519_SPKI_MARKER = Some (length (sv_before sv))"
    using assms(1) by (intro leaf_position) (simp add: server_ok_def)
  moreover have "get_range ?der (length (sv_before sv) + 8) (length (sv_before sv) + 40) = Some (sv_key sv)"
    using m len by (simp add: get_range_def)
  moreover have "drop (length ?der - 64) ?der = ?sig" using m len by simp
  moreover have "length ?der < 65536" using assms(1) m len by (simp add: server_ok_def)
  ultimately have "extract_ed25519_pubkey_and_sig (certificate_msg ?der) = Inr (sv_key sv, ?sig)"
    using m len by (simp add: extract_leaf require_def)
  then show ?thesis by (simp add: reality_verifier_Inr)
qed

lemma framed_certificate: "length der < 65536 \<Longrightarrow> framed (certificate_msg der)"
  using u24_be24 [of "length der + 9"] by (simp add: framed_def certificate_msg_def)

lemma server_flight_sent:
  assumes "server_ok sv" "macs_sized c"
    "concat ds = concat (server_messages c sv hello pub) @ finished_msg c (s_hs_secret hs)
       ((hello @ server_hello_of c sv hello) @ concat (server_messages c sv hello pub))"
    "list_all (\<lambda>d. d \<noteq> [] \<and> length d \<le> 16384) ds"
    "seal_all c (map (Pair 0x16) ds) (record_keys_new (hs_server_key hs) (hs_server_iv hs)) = Some (rs, k)"
  shows "sent_flight c (reality_verifier c (server_auth_key c sv hello pub)) hs (hello @ server_hello_of c sv hello)
    (server_messages c sv hello pub) ds rs"
proof -
  let ?v = "reality_verifier c (server_auth_key c sv hello pub)"
  have "flight_ok ?v (server_messages c sv hello pub)"
    using assms(1) server_cert_accepted [OF assms(1,2)]
    by (simp add: flight_ok_def server_messages_def server_ok_def) (simp add: certificate_msg_def)
  moreover have "has_cert (server_messages c sv hello pub)"
    by (simp add: has_cert_def server_messages_def certificate_msg_def)
  moreover have "framed (finished_msg c s t)" for s t
    using assms(2) by (simp add: framed_def finished_msg_def compute_finished_verify_data_def macs_sized_def u24_def)
  moreover have "list_all framed (server_messages c sv hello pub)"
    using assms(1,2) by (auto simp: server_messages_def server_ok_def macs_sized_def ED25519_SPKI_MARKER_def intro!: framed_certificate)
  ultimately show ?thesis using assms(3,4,5) by (auto simp: sent_flight_def)
qed

lemma server_hello_accepted:
  assumes "server_ok sv" "x25519_ok c" "length (authed_session_id hello) = 32"
  shows "parse_server_hello (server_hello_of c sv hello) (authed_session_id hello) =
      Inr \<lparr> ps_cipher_suite = 0x1301, ps_server_key_share = x25519_dh c (sv_eph sv) dh_base \<rparr>"
    "length (server_hello_of c sv hello) \<le> 16384"
proof -
  let ?key = "x25519_dh c (sv_eph sv) dh_base"
  let ?es = "[(0x002b, [3, 4]), (0x0033, [0, 0x1d, 0, 32] @ ?key)] :: (u16 \<times> bytes) list"
  have k: "length ?key = 32" using assms(2) by (simp add: x25519_ok_def dh_base_def)
  have f: "find_ext (ext_block ?es) w = map_of ?es w" for w using k by (intro find_ext_block) simp
  have len: "length (server_hello_body (sv_random sv) (authed_session_id hello) (ext_block ?es) []) = 118"
    using assms(1,3) k by (simp add: server_hello_body_def server_ok_def acceptable_random_def)
  show "parse_server_hello (server_hello_of c sv hello) (authed_session_id hello) =
      Inr \<lparr> ps_cipher_suite = 0x1301, ps_server_key_share = ?key \<rparr>"
    unfolding server_hello_of_def
  proof (rule parse_server_hello_complete)
    show "acceptable_exts (ext_block ?es) ?key" unfolding acceptable_exts_def f using k by simp
  qed (use assms(1,3) len in \<open>simp_all add: server_ok_def\<close>)
  show "length (server_hello_of c sv hello) \<le> 16384" using len by (simp add: server_hello_of_def server_hello_msg_def Let_def)
qed

text \<open>Both ends compute the same authentication key.\<close>

lemma reality_hello_authed:
  "reality_hello c cfg scalar random clock = build_authed_client_hello c \<lparr> ah_server_name = rc_sni cfg,
     ah_key_share = x25519_dh c scalar dh_base, ah_random = random, ah_auth_key = reality_auth_key c cfg scalar random,
     ah_short_id = rc_short_id cfg, ah_timestamp = (case clock of Some secs \<Rightarrow> of_nat secs | None \<Rightarrow> 0) \<rparr>"
  by (simp add: reality_hello_def generate_ephemeral_keypair_def Let_def dh_base_def)

lemma auth_keys_agree:
  assumes "aead_correct (aes256_seal c) (aes256_open c)" "x25519_ok c" "reality_config_ok cfg" "length random = 32"
    "rc_pbk cfg = x25519_dh c (sv_static sv) dh_base"
  shows "server_auth_key c sv (reality_hello c cfg scalar random clock) (x25519_dh c scalar dh_base) =
    reality_auth_key c cfg scalar random"
proof -
  have "take 32 (drop 6 (reality_hello c cfg scalar random clock)) = random"
    unfolding reality_hello_authed using assms(1,3,4)
    by (subst authed_hello_parts(2)) (simp_all add: reality_config_ok_def)
  then show ?thesis
    using assms(2,5)
    by (simp add: server_auth_key_def reality_auth_key_def x25519_shared_secret_def x25519_ok_def generate_ephemeral_keypair_def)
qed

lemma establish_complete:
  assumes "aead_correct (aes128_seal c) (aes128_open c)" "aead_correct (aes256_seal c) (aes256_open c)" "x25519_ok c" "macs_sized c"
    "reality_config_ok cfg" "length (rc_sni cfg) \<le> 255" "length random = 32" "server_ok sv"
    "rc_pbk cfg = x25519_dh c (sv_static sv) dh_base"
    "server_answers c sv (reality_hello c cfg scalar random clock) (x25519_dh c scalar dh_base) answer"
    "clean (net_in n)" "bytes_of (net_in n) = answer @ rest" "net_wr n = []"
  shows "\<exists>out n'. establish c cfg scalar random clock target n = Some (Inr out, n') \<and>
    ho_leftover out @ bytes_of (net_in n') = rest"
proof -
  let ?hello = "reality_hello c cfg scalar random clock" and ?pub = "x25519_dh c scalar dh_base"
  let ?sh = "server_hello_of c sv ?hello" and ?inp = "reality_input c cfg scalar random clock"
  let ?v = "reality_verifier c (reality_auth_key c cfg scalar random)"
  have pub: "length ?pub = 32" using assms(3) by (simp add: x25519_ok_def dh_base_def)
  have inp: "hi_client_hello ?inp = ?hello" "hi_client_eph_secret ?inp = scalar" "hi_expected_session_id ?inp = authed_session_id ?hello"
    by (simp_all add: reality_input_def generate_ephemeral_keypair_def Let_def)
  have hello: "length ?hello \<le> MAX_TLS_PLAINTEXT" "length (authed_session_id ?hello) = 32"
    using assms(2,5,6,7) pub unfolding reality_hello_authed
    by (simp_all add: length_authed_hello authed_hello_parts(1) length_sealed_session_id reality_config_ok_def MAX_TLS_PLAINTEXT_def)
  from assms(10) obtain hs ccs ds rs k where
    hs: "derive_handshake_keys c (x25519_dh c (sv_eph sv) ?pub) ?hello ?sh = Inr hs"
    and ds: "concat ds = concat (server_messages c sv ?hello ?pub) @ finished_msg c (s_hs_secret hs)
          ((?hello @ ?sh) @ concat (server_messages c sv ?hello ?pub))"
      "list_all (\<lambda>d. d \<noteq> [] \<and> length d \<le> 16384) ds"
      "seal_all c (map (Pair 0x16) ds) (record_keys_new (hs_server_key hs) (hs_server_iv hs)) = Some (rs, k)"
    and ans: "answer = plain_record 0x16 0x0303 ?sh @ concat (replicate ccs CLIENT_CCS) @ concat rs"
    unfolding server_answers_def by blast
  have dh: "x25519_shared_secret c scalar (x25519_dh c (sv_eph sv) dh_base) = x25519_dh c (sv_eph sv) ?pub"
    using assms(3) by (simp add: x25519_shared_secret_def x25519_ok_def)
  note flight = server_flight_sent [OF assms(8,4) ds, unfolded auth_keys_agree [OF assms(2,3,5,7,9)]]
  have "\<exists>out n'. drive c ?v ?inp n = Some (Inr out, n') \<and> ho_leftover out @ bytes_of (net_in n') = rest \<and> net_wr n' = [] \<and>
    keys_of_transcript c hs (hi_client_hello ?inp @ ?sh @ concat (server_messages c sv ?hello ?pub) @
      finished_msg c (s_hs_secret hs) ((hi_client_hello ?inp @ ?sh) @ concat (server_messages c sv ?hello ?pub))) out"
    using server_hello_accepted [OF assms(8,3) hello(2)] assms(12) hello(1) hs ans flight
    by (intro drive_complete [OF assms(1,11,13), where p = "\<lparr> ps_cipher_suite = 0x1301, ps_server_key_share = x25519_dh c (sv_eph sv) dh_base \<rparr>"])
       (simp_all add: inp dh)
  then obtain out n1 where d: "drive c ?v ?inp n = Some (Inr out, n1)" "ho_leftover out @ bytes_of (net_in n1) = rest" "net_wr n1 = []"
      and keys: "ho_send_keys out = record_keys_from_secret c (ho_c_ap_secret out)"
    using keys_of_transcript_send(2) by blast
  obtain vless keys where "seal c 0x17 (encode_vless_request (rc_uuid cfg) VLESS_CMD_TCP target) (ho_send_keys out) = Some (vless, keys)"
    using seal_fresh unfolding keys record_keys_from_secret_def by blast
  with d show ?thesis by (simp add: establish_def net_write_ok)
qed

section \<open>A handshake to evaluate\<close>

definition demo_reality :: reality_client_config where
  "demo_reality = \<lparr> rc_server = str ''s:443'', rc_uuid = replicate 16 1, rc_pbk = dh_base, rc_short_id = replicate 8 2, rc_sni = str ''a.b'' \<rparr>"

definition demo_server :: reality_server where
  "demo_server = \<lparr> sv_static = replicate 32 1, sv_eph = replicate 32 2, sv_random = replicate 32 7, sv_key = replicate 32 5,
     sv_before = [], sv_after = [], sv_extensions = [8, 0, 0, 0], sv_verify = [0x0f, 0, 0, 0] \<rparr>"

definition reality_conn :: "bytes \<Rightarrow> net" where
  "reality_conn answer = \<lparr> net_in = [Inr answer], net_wr = [], net_out = [] \<rparr>"

lemma flat_crypto_ok:
  "aead_correct (aes128_seal flat_crypto) (aes128_open flat_crypto)" "aead_correct (aes256_seal flat_crypto) (aes256_open flat_crypto)"
  "x25519_ok flat_crypto" "macs_sized flat_crypto"
  by (simp_all add: aead_correct_def flat_crypto_def x25519_ok_def macs_sized_def)

lemma demo_parties_ok: "reality_config_ok demo_reality" "server_ok demo_server" "length (rc_sni demo_reality) \<le> 255"
  "rc_pbk demo_reality = x25519_dh flat_crypto (sv_static demo_server) dh_base"
proof -
  show "server_ok demo_server" unfolding server_ok_def demo_server_def by (simp add: framed_def u24_def) code_simp
qed (simp_all add: reality_config_ok_def demo_reality_def dh_base_def str_def flat_crypto_def)

lemma dh_base_nonzero: "dh_base \<noteq> replicate 32 0"
  by code_simp

lemma server_answers_exists:
  assumes "x25519_dh c (sv_eph sv) pub \<noteq> replicate 32 0"
    "\<And>secret t. length (concat (server_messages c sv hello pub) @ finished_msg c secret t) \<le> 16384"
  shows "\<exists>answer. answer \<noteq> [] \<and> server_answers c sv hello pub answer"
proof -
  let ?sh = "server_hello_of c sv hello" and ?ms = "server_messages c sv hello pub"
  obtain hs where hs: "derive_handshake_keys c (x25519_dh c (sv_eph sv) pub) hello ?sh = Inr hs"
    using assms(1) derive_handshake_keys_total by blast
  define d where "d = concat ?ms @ finished_msg c (s_hs_secret hs) ((hello @ ?sh) @ concat ?ms)"
  have d: "d \<noteq> []" "length d \<le> 16384" using assms(2) by (simp_all add: d_def finished_msg_def)
  obtain r k where r: "seal c 0x16 d (record_keys_new (hs_server_key hs) (hs_server_iv hs)) = Some (r, k)" using seal_fresh by blast
  let ?answer = "plain_record 0x16 0x0303 ?sh @ concat (replicate 1 CLIENT_CCS) @ concat [r]"
  have "concat [d] = concat ?ms @ finished_msg c (s_hs_secret hs) ((hello @ ?sh) @ concat ?ms)"
    "list_all (\<lambda>d. d \<noteq> [] \<and> length d \<le> 16384) [d]"
    "seal_all c (map (Pair 0x16) [d]) (record_keys_new (hs_server_key hs) (hs_server_iv hs)) = Some ([r], k)"
    using d r by (simp_all only: d_def [symmetric]) simp_all
  with hs have "server_answers c sv hello pub ?answer" unfolding server_answers_def by blast
  moreover have "?answer \<noteq> []" by (simp add: plain_record_def)
  ultimately show ?thesis by blast
qed

lemma demo_answers: "\<exists>answer. answer \<noteq> [] \<and> server_answers flat_crypto demo_server hello (x25519_dh flat_crypto x dh_base) answer"
proof (rule server_answers_exists)
  show "x25519_dh flat_crypto (sv_eph demo_server) (x25519_dh flat_crypto x dh_base) \<noteq> replicate 32 0"
    using dh_base_nonzero by (simp add: flat_crypto_def)
  have "length (hmac_sha512 flat_crypto k m) = 64" "length (hmac_sha256 flat_crypto k m) = 32" for k m
    by (simp_all add: flat_crypto_def)
  then show "length (concat (server_messages flat_crypto demo_server hello (x25519_dh flat_crypto x dh_base)) @ finished_msg flat_crypto secret t) \<le> 16384"
    for secret t
    by (simp add: finished_msg_def server_messages_def certificate_msg_def demo_server_def compute_finished_verify_data_def
        ED25519_SPKI_MARKER_def)
qed

lemma demo_established:
  "\<exists>answer out n'. establish flat_crypto demo_reality (replicate 32 3) (replicate 32 4) (Some 5) (DomainPort (str ''c.d'') 80)
     (reality_conn answer) = Some (Inr out, n')"
proof -
  obtain answer where a: "answer \<noteq> []" "server_answers flat_crypto demo_server
      (reality_hello flat_crypto demo_reality (replicate 32 3) (replicate 32 4) (Some 5)) (x25519_dh flat_crypto (replicate 32 3) dh_base) answer"
    using demo_answers by blast
  have "clean (net_in (reality_conn answer))" "bytes_of (net_in (reality_conn answer)) = answer @ []" "net_wr (reality_conn answer) = []"
    using a(1) by (simp_all add: reality_conn_def)
  from establish_complete [OF flat_crypto_ok demo_parties_ok(1,3) _ demo_parties_ok(2,4) a(2) this] show ?thesis
    unfolding length_replicate by blast
qed

lemma demo_opened_stream:
  "\<exists>answer s n' s'. reality_open_tcp flat_crypto demo_reality (replicate 32 3) (replicate 32 4) (Some 5) (DomainPort (str ''c.d'') 80)
     (\<lambda>_. Some (Inr (reality_conn answer))) True [] [] = Some (Inr (s, n')) \<and>
     stream_run flat_crypto [OpWrite [7, 8]] s = Some ([7, 8], [], s')"
proof -
  obtain answer out n' where e: "establish flat_crypto demo_reality (replicate 32 3) (replicate 32 4) (Some 5)
      (DomainPort (str ''c.d'') 80) (reality_conn answer) = Some (Inr out, n')" using demo_established by blast
  from establish_spec [OF e] obtain out0 vless keys hs t where k: "keys_of_transcript flat_crypto hs t out0"
      "seal flat_crypto 0x17 (encode_vless_request (rc_uuid demo_reality) VLESS_CMD_TCP (DomainPort (str ''c.d'') 80))
         (ho_send_keys out0) = Some (vless, keys)" "out = out0\<lparr> ho_send_keys := keys \<rparr>" by blast
  have "rk_seq keys = 1"
    using k(2) unfolding keys_of_transcript_send(2) [OF k(1)] record_keys_from_secret_def
    by (auto simp: seal_def Let_def next_seq_def record_keys_new_def)
  then have "\<exists>s'. stream_run flat_crypto [OpWrite [7, 8]] (reality_stream_new [] [] (ho_recv_keys out) (ho_send_keys out) (ho_leftover out)
      (ho_s_ap_secret out) (ho_c_ap_secret out)) = Some ([7, 8], [], s')"
    by (simp add: reality_stream_new_def poll_write_def poll_flush_pending_def try_flush_def MAX_PLAINTEXT_def seal_def Let_def
        next_seq_def k(3))
  moreover have "reality_open_tcp flat_crypto demo_reality (replicate 32 3) (replicate 32 4) (Some 5) (DomainPort (str ''c.d'') 80)
      (\<lambda>_. Some (Inr (reality_conn answer))) True [] [] = Some (Inr (reality_stream_new [] [] (ho_recv_keys out) (ho_send_keys out)
        (ho_leftover out) (ho_s_ap_secret out) (ho_c_ap_secret out), n'))"
    by (simp add: reality_open_tcp_def e)
  ultimately show ?thesis by blast
qed

section \<open>The upstream as a whole\<close>





text \<open>
  C10. A client and a server that hold matching keys get through to each other. From the ClientHello alone
  the server opens the session id to the version, the time and the short id of the client; and if it
  answers with its ServerHello, its messages and its Finished, in any records and cut by the network in any
  way, the handshake succeeds, and everything behind the flight is left for the stream.
\<close>

theorem reality_honest_server:
  assumes "aead_correct (aes128_seal c) (aes128_open c)" "aead_correct (aes256_seal c) (aes256_open c)" "x25519_ok c" "macs_sized c"
    "reality_config_ok cfg" "length (rc_sni cfg) \<le> 255" "length random = 32" "server_ok sv"
    "rc_pbk cfg = x25519_dh c (sv_static sv) dh_base"
    "server_answers c sv (reality_hello c cfg scalar random (Some secs)) (x25519_dh c scalar dh_base) answer"
    "clean (net_in n)" "bytes_of (net_in n) = answer @ rest" "net_wr n = []"
  shows "(let hello = reality_hello c cfg scalar random (Some secs);
       key = server_auth_key c sv hello (x25519_dh c scalar dh_base)
     in open_session_id c key (authed_session_id hello) (take 12 (drop 26 hello)) (take 39 hello @ replicate 32 0 @ drop 71 hello) =
          Some (session_id_to_bytes \<lparr> si_version = [1, 8, 0, 0], si_timestamp = of_nat secs, si_short_id = rc_short_id cfg \<rparr>)) \<and>
    (\<exists>out n'. establish c cfg scalar random (Some secs) target n = Some (Inr out, n') \<and>
       ho_leftover out @ bytes_of (net_in n') = rest)"
proof (rule conjI)
  let ?p = "\<lparr> ah_server_name = rc_sni cfg, ah_key_share = x25519_dh c scalar dh_base, ah_random = random,
     ah_auth_key = reality_auth_key c cfg scalar random, ah_short_id = rc_short_id cfg, ah_timestamp = of_nat secs \<rparr>"
  have hello: "reality_hello c cfg scalar random (Some secs) = build_authed_client_hello c ?p"
    by (simp add: reality_hello_authed)
  show "let hello = reality_hello c cfg scalar random (Some secs); key = server_auth_key c sv hello (x25519_dh c scalar dh_base)
     in open_session_id c key (authed_session_id hello) (take 12 (drop 26 hello)) (take 39 hello @ replicate 32 0 @ drop 71 hello) =
          Some (session_id_to_bytes \<lparr> si_version = [1, 8, 0, 0], si_timestamp = of_nat secs, si_short_id = rc_short_id cfg \<rparr>)"
    using authed_hello_opens [OF assms(2), of ?p] assms(5,7) auth_keys_agree [OF assms(2,3,5,7,9), of scalar "Some secs"]
    unfolding Let_def hello by (simp add: reality_config_ok_def)
qed (rule establish_complete [OF assms])

theorem reality_honest_server_witness:
  "\<exists>answer out n'. establish flat_crypto demo_reality (replicate 32 3) (replicate 32 4) (Some 5) (DomainPort (str ''c.d'') 80)
     (reality_conn answer) = Some (Inr out, n') \<and> ho_leftover out @ bytes_of (net_in n') = []"
proof -
  obtain answer where a: "answer \<noteq> []" "server_answers flat_crypto demo_server
      (reality_hello flat_crypto demo_reality (replicate 32 3) (replicate 32 4) (Some 5)) (x25519_dh flat_crypto (replicate 32 3) dh_base) answer"
    using demo_answers by blast
  have "clean (net_in (reality_conn answer))" "bytes_of (net_in (reality_conn answer)) = answer @ []" "net_wr (reality_conn answer) = []"
    using a(1) by (simp_all add: reality_conn_def)
  from reality_honest_server [OF flat_crypto_ok demo_parties_ok(1,3) _ demo_parties_ok(2,4) a(2) this] show ?thesis
    unfolding length_replicate by blast
qed

end
