(* ===== verification/Quic.thy ===== *)
theory Quic
  imports Config
begin

text \<open>
  The QUIC configuration of \<^verbatim>\<open>src/quic.rs\<close>: the settings that are handed to \<^verbatim>\<open>quinn\<close> and \<^verbatim>\<open>rustls\<close>, as records. Reading
  a PEM file, accepting a certificate as a root and binding a socket are parameters.
\<close>

definition QUIC_ALPN :: bytes where "QUIC_ALPN = str ''mvpn''"
definition QUIC_MAX_IDLE_SECS :: nat where "QUIC_MAX_IDLE_SECS = 15"
definition QUIC_KEEPALIVE_SECS :: nat where "QUIC_KEEPALIVE_SECS = 5"
definition QUIC_INITIAL_MTU :: nat where "QUIC_INITIAL_MTU = 1280"
definition QUIC_MAX_UDP_PAYLOAD_SIZE :: nat where "QUIC_MAX_UDP_PAYLOAD_SIZE = 1472"
definition QUIC_MAX_CONCURRENT_UNI_STREAMS :: nat where "QUIC_MAX_CONCURRENT_UNI_STREAMS = 4096"

record transport_config =
  tr_max_idle :: nat
  tr_keep_alive :: nat
  tr_initial_mtu :: nat
  tr_min_mtu :: nat
  tr_max_uni_streams :: nat
  tr_controller :: cc_choice

definition quic_transport_config :: "cc_choice \<Rightarrow> transport_config" where
  "quic_transport_config cc = \<lparr> tr_max_idle = QUIC_MAX_IDLE_SECS, tr_keep_alive = QUIC_KEEPALIVE_SECS,
     tr_initial_mtu = QUIC_INITIAL_MTU, tr_min_mtu = QUIC_INITIAL_MTU,
     tr_max_uni_streams = QUIC_MAX_CONCURRENT_UNI_STREAMS, tr_controller = cc \<rparr>"

record tls_config =
  tls_roots :: "bytes list"
  tls_alpn :: "bytes list"
  tls_early_data :: bool

record quic_client_config =
  qcl_crypto :: tls_config
  qcl_transport :: transport_config

text \<open>\<open>pem\<close> is the outcome of opening the file and of reading the certificates in it.\<close>

definition load_certs :: "(bytes \<Rightarrow> bytes list result) \<Rightarrow> bytes \<Rightarrow> bytes list result" where
  "load_certs pem path =
     and_then (pem path) (\<lambda>certs. if certs = [] then Inl (InvalidTarget ''no certificates'') else Inr certs)"

definition client_crypto :: "(bytes \<Rightarrow> bytes list result) \<Rightarrow> (bytes \<Rightarrow> bool) \<Rightarrow> bytes \<Rightarrow> bytes list \<Rightarrow> bool \<Rightarrow> tls_config result" where
  "client_crypto pem root_ok ca_path alpn_protocols enable_0rtt =
     and_then (load_certs pem ca_path) (\<lambda>certs.
       if list_all root_ok certs
       then Inr \<lparr> tls_roots = certs, tls_alpn = alpn_protocols, tls_early_data = enable_0rtt \<rparr>
       else Inl (InvalidTarget ''quic add ca''))"

definition finish_client_config :: "tls_config \<Rightarrow> cc_choice \<Rightarrow> quic_client_config" where
  "finish_client_config crypto cc = \<lparr> qcl_crypto = crypto, qcl_transport = quic_transport_config cc \<rparr>"

definition client_quic_config :: "(bytes \<Rightarrow> bytes list result) \<Rightarrow> (bytes \<Rightarrow> bool) \<Rightarrow> bytes \<Rightarrow> quic_client_config result" where
  "client_quic_config pem root_ok ca_path =
     and_then (client_crypto pem root_ok ca_path [QUIC_ALPN] False) (\<lambda>crypto. Inr (finish_client_config crypto Cubic))"

definition client_quic_config_alpn ::
    "(bytes \<Rightarrow> bytes list result) \<Rightarrow> (bytes \<Rightarrow> bool) \<Rightarrow> bytes \<Rightarrow> bytes list \<Rightarrow> cc_choice \<Rightarrow> quic_client_config result" where
  "client_quic_config_alpn pem root_ok ca_path alpn_protocols cc =
     and_then (client_crypto pem root_ok ca_path alpn_protocols True) (\<lambda>crypto. Inr (finish_client_config crypto cc))"

record quic_endpoint =
  ep_max_udp_payload :: nat
  ep_client_config :: quic_client_config

text \<open>\<open>bound\<close> is whether the socket can be bound and the endpoint created.\<close>

definition client_endpoint :: "unit result \<Rightarrow> quic_client_config \<Rightarrow> quic_endpoint result" where
  "client_endpoint bound cfg =
     and_then bound (\<lambda>_. Inr \<lparr> ep_max_udp_payload = QUIC_MAX_UDP_PAYLOAD_SIZE, ep_client_config = cfg \<rparr>)"

section \<open>Properties\<close>

text \<open>No endpoint is built without trusted roots, and every root in it has been accepted.\<close>

lemma client_crypto_roots:
  "client_crypto pem root_ok ca alpn z = Inr t \<Longrightarrow> tls_roots t \<noteq> [] \<and> list_all root_ok (tls_roots t) \<and> tls_alpn t = alpn \<and> tls_early_data t = z"
  by (auto simp: client_crypto_def load_certs_def and_then_Inr_iff split: if_splits)

end
