(* ===== verification/Metrics.thy ===== *)
theory Metrics
  imports Prelude
begin

text \<open>
  The data-plane counters of \<^verbatim>\<open>src/metrics.rs\<close>: cumulative counters that the main loop and the UDP
  driver increment, gauges that the main loop publishes on its reporting tick, the snapshot, and the
  edge detector that turns a sampled pressure signal into a count of episodes. Every field is one
  atomic word, so the operations are modelled one at a time.
\<close>

definition NO_FAILOVER :: u8 where "NO_FAILOVER = 255"

record metrics =
  dns_forged :: u64
  dns_dropped :: u64
  udp_drops_down :: u64
  datagram_pressure_events :: u64
  relays_spawned :: u64
  active_relays :: u32
  fake_ip_active :: u32
  fake_ip_total :: u32
  failover_leg :: u8

definition metrics_new :: metrics where
  "metrics_new =
     \<lparr> dns_forged = 0, dns_dropped = 0, udp_drops_down = 0, datagram_pressure_events = 0, relays_spawned = 0,
       active_relays = 0, fake_ip_active = 0, fake_ip_total = 0, failover_leg = NO_FAILOVER \<rparr>"

definition inc_dns_forged :: "metrics \<Rightarrow> metrics" where
  "inc_dns_forged m = m\<lparr> dns_forged := dns_forged m + 1 \<rparr>"

definition inc_dns_dropped :: "metrics \<Rightarrow> metrics" where
  "inc_dns_dropped m = m\<lparr> dns_dropped := dns_dropped m + 1 \<rparr>"

definition inc_udp_drops_down :: "metrics \<Rightarrow> metrics" where
  "inc_udp_drops_down m = m\<lparr> udp_drops_down := udp_drops_down m + 1 \<rparr>"

definition inc_datagram_pressure_events :: "metrics \<Rightarrow> metrics" where
  "inc_datagram_pressure_events m = m\<lparr> datagram_pressure_events := datagram_pressure_events m + 1 \<rparr>"

definition inc_relays_spawned :: "metrics \<Rightarrow> metrics" where
  "inc_relays_spawned m = m\<lparr> relays_spawned := relays_spawned m + 1 \<rparr>"

definition set_active_relays :: "u32 \<Rightarrow> metrics \<Rightarrow> metrics" where
  "set_active_relays n m = m\<lparr> active_relays := n \<rparr>"

definition set_fake_ip_gauges :: "u32 \<Rightarrow> u32 \<Rightarrow> metrics \<Rightarrow> metrics" where
  "set_fake_ip_gauges tot act m = m\<lparr> fake_ip_total := tot, fake_ip_active := act \<rparr>"

definition set_failover_leg :: "u8 \<Rightarrow> metrics \<Rightarrow> metrics" where
  "set_failover_leg leg m = m\<lparr> failover_leg := leg \<rparr>"

datatype failover_leg_view = LegTuic | LegReality | LegNone

definition leg_view_from_u8 :: "u8 \<Rightarrow> failover_leg_view" where
  "leg_view_from_u8 v = (if v = 0 then LegTuic else if v = 1 then LegReality else LegNone)"

record metrics_snapshot =
  sn_dns_forged :: u64
  sn_dns_dropped :: u64
  sn_udp_drops_up :: u64
  sn_udp_drops_down :: u64
  sn_udp_stream_fallbacks :: u64
  sn_datagram_pressure_events :: u64
  sn_relays_spawned :: u64
  sn_active_relays :: u32
  sn_fake_ip_active :: u32
  sn_fake_ip_total :: u32
  sn_failover_leg :: failover_leg_view

definition snapshot :: "u64 \<Rightarrow> u64 \<Rightarrow> metrics \<Rightarrow> metrics_snapshot" where
  "snapshot drops_up stream_fallbacks m =
     \<lparr> sn_dns_forged = dns_forged m, sn_dns_dropped = dns_dropped m, sn_udp_drops_up = drops_up,
       sn_udp_drops_down = udp_drops_down m, sn_udp_stream_fallbacks = stream_fallbacks,
       sn_datagram_pressure_events = datagram_pressure_events m, sn_relays_spawned = relays_spawned m,
       sn_active_relays = active_relays m, sn_fake_ip_active = fake_ip_active m,
       sn_fake_ip_total = fake_ip_total m, sn_failover_leg = leg_view_from_u8 (failover_leg m) \<rparr>"

text \<open>Whether this sample is a rising edge, and the new value of the latch.\<close>

definition note_pressure_edge :: "bool \<Rightarrow> bool \<Rightarrow> bool \<times> bool" where
  "note_pressure_edge pressured prev = (pressured \<and> \<not> prev, pressured)"

text \<open>The sampling loop of the UDP driver: one counter increment per rising edge.\<close>

definition sample_pressure :: "bool \<Rightarrow> bool \<times> metrics \<Rightarrow> bool \<times> metrics" where
  "sample_pressure pressured pm =
     (let (rising, prev') = note_pressure_edge pressured (fst pm)
      in (prev', if rising then inc_datagram_pressure_events (snd pm) else snd pm))"

text \<open>
  The counter counts episodes: over any sequence of samples it grows by the number of samples that are
  pressured while the one before is not.
\<close>

fun episodes :: "bool \<Rightarrow> bool list \<Rightarrow> nat" where
  "episodes prev [] = 0"
| "episodes prev (x # xs) = (if x \<and> \<not> prev then 1 else 0) + episodes x xs"

lemma sample_pressure_counts:
  "datagram_pressure_events (snd (fold sample_pressure xs (prev, m))) =
     datagram_pressure_events m + of_nat (episodes prev xs)"
  by (induction xs arbitrary: prev m)
    (simp_all add: sample_pressure_def note_pressure_edge_def inc_datagram_pressure_events_def Let_def)

end
