(* ===== verification/TuicUpstream.thy ===== *)
theory TuicUpstream
  imports Quic TuicCodec Metrics
begin

text \<open>
  The TUIC upstream of \<^verbatim>\<open>src/tuic.rs\<close>: connecting with and without early data, authentication, the shared
  connection with its reconnects, opening of TCP flows, the sending of UDP packets, and the driver task
  with its downlink pump, statistics, heartbeat and back-off.

  A QUIC connection of \<^verbatim>\<open>quinn\<close> is a value of type \<open>'c\<close>. What \<^verbatim>\<open>quinn\<close> does during one call is a record of
  functions and values, an argument of the call; the exporter of keying material is a fixed function of
  the connection. Every operation also gives what it has put on a connection, in order. The calls of the
  tasks that take the lock of the connection follow one another; the operations that only try it have as
  an argument whether another task holds it.
\<close>

section \<open>Connections\<close>

definition TUIC_RECONNECT_TIMEOUT :: nat where "TUIC_RECONNECT_TIMEOUT = 5"
definition TUIC_OPEN_TIMEOUT :: nat where "TUIC_OPEN_TIMEOUT = 5"

text \<open>Opening a stream, writing to it and finishing it: each step can fail, a write after some bytes.\<close>

datatype stream_result = StreamOk | NoStream | WriteFailed nat | FinishFailed

text \<open>
  One call's worth of behaviour: whether a connection is closed, what a connection attempt with early data
  and a full one give, whether the handshake ends before its timer and how many of its writes happen if
  it does not, how streams and datagrams end, and the statistics.
\<close>

record 'c quinn =
  q_closed :: "'c \<Rightarrow> bool"
  q_early :: "'c option"
  q_dial :: "'c result"
  q_in_time :: bool
  q_writes :: nat
  q_uni :: "'c \<Rightarrow> bytes \<Rightarrow> stream_result"
  q_bi :: "'c \<Rightarrow> bytes \<Rightarrow> stream_result"
  q_bi_in_time :: bool
  q_max_datagram :: "'c \<Rightarrow> nat option"
  q_send_datagram :: "'c \<Rightarrow> bytes \<Rightarrow> datagram_result"
  q_space :: "'c \<Rightarrow> nat"
  q_rx :: "'c \<Rightarrow> nat"

datatype 'c tuic_sent =
    AuthSent 'c bytes
  | AuthPart 'c bytes
  | ConnectSent 'c bytes
  | ConnectPart 'c bytes
  | PacketSent 'c wire_out
  | HeartbeatSent 'c bytes

type_synonym ('c, 'a) sending = "'a \<times> 'c tuic_sent list"

type_synonym 'c exporter = "'c \<Rightarrow> bytes \<Rightarrow> bytes \<Rightarrow> bytes option"

definition authenticate :: "'c exporter \<Rightarrow> 'c quinn \<Rightarrow> 'c \<Rightarrow> bytes \<Rightarrow> bytes \<Rightarrow> ('c, unit result) sending" where
  "authenticate export q conn uuid password =
     (case export conn uuid password of
        None \<Rightarrow> (Inl (InvalidTarget ''tuic keying-material export failed''), [])
      | Some token \<Rightarrow>
          let cmd = encode_authenticate uuid token in
          (case q_uni q conn cmd of
             StreamOk \<Rightarrow> (Inr (), [AuthSent conn cmd])
           | NoStream \<Rightarrow> (Inl (Io ''tuic open_uni''), [])
           | WriteFailed k \<Rightarrow> (Inl (Io ''tuic auth write''), [AuthPart conn (take k cmd)])
           | FinishFailed \<Rightarrow> (Inl (Io ''tuic auth finish''), [AuthPart conn cmd])))"

definition try_0rtt :: "'c exporter \<Rightarrow> 'c quinn \<Rightarrow> bytes \<Rightarrow> bytes \<Rightarrow> ('c, 'c option) sending" where
  "try_0rtt export q uuid password =
     (case q_early q of
        None \<Rightarrow> (None, [])
      | Some conn \<Rightarrow>
          (case authenticate export q conn uuid password of
             (Inl e, out) \<Rightarrow> (None, out)
           | (Inr _, out) \<Rightarrow> (Some conn, out)))"

definition handshake_1rtt :: "'c exporter \<Rightarrow> 'c quinn \<Rightarrow> bytes \<Rightarrow> bytes \<Rightarrow> ('c, 'c result) sending" where
  "handshake_1rtt export q uuid password =
     (case q_dial q of
        Inl e \<Rightarrow> (Inl (Io ''tuic handshake''), [])
      | Inr conn \<Rightarrow>
          (case authenticate export q conn uuid password of
             (Inl e, out) \<Rightarrow> (Inl e, out)
           | (Inr _, out) \<Rightarrow> (Inr conn, out)))"

definition tuic_handshake :: "'c exporter \<Rightarrow> 'c quinn \<Rightarrow> bytes \<Rightarrow> bytes \<Rightarrow> bool \<Rightarrow> ('c, 'c result) sending" where
  "tuic_handshake export q uuid password zero_rtt =
     (case (if zero_rtt then try_0rtt export q uuid password else (None, [])) of
        (Some conn, out) \<Rightarrow> (Inr conn, out)
      | (None, out) \<Rightarrow> apsnd ((@) out) (handshake_1rtt export q uuid password))"

record 'c tuic_upstream =
  up_uuid :: bytes
  up_password :: bytes
  up_zero_rtt :: bool
  up_endpoint :: quic_endpoint
  up_conn :: 'c
  up_udp :: tuic_udp
  up_metrics :: metrics

text \<open>
  \<open>TuicUpstream::connect\<close>. The initial handshake has no timer.
\<close>

definition tuic_connect ::
    "'c exporter \<Rightarrow> 'c quinn \<Rightarrow> (bytes \<Rightarrow> bytes list result) \<Rightarrow> (bytes \<Rightarrow> bool) \<Rightarrow> unit result \<Rightarrow>
     tuic_client_config \<Rightarrow> metrics \<Rightarrow> ('c, 'c tuic_upstream result) sending" where
  "tuic_connect export q pem root_ok bound cfg m =
     (let (cc, _) = parse_cc (tc_congestion_control cfg);
          mode = (case relay_mode_parse (tc_udp_relay_mode cfg) of Some md \<Rightarrow> md | None \<Rightarrow> Native)
      in case and_then (client_quic_config_alpn pem root_ok (tc_ca_path cfg) [tc_alpn cfg] cc) (client_endpoint bound) of
           Inl e \<Rightarrow> (Inl e, [])
         | Inr ep \<Rightarrow>
             (case tuic_handshake export q (tc_uuid cfg) (tc_password cfg) (tc_zero_rtt cfg) of
                (Inl e, out) \<Rightarrow> (Inl e, out)
              | (Inr conn, out) \<Rightarrow>
                  (Inr \<lparr> up_uuid = tc_uuid cfg, up_password = tc_password cfg, up_zero_rtt = tc_zero_rtt cfg, up_endpoint = ep,
                     up_conn = conn,
                     up_udp = \<lparr> tu_mode = mode, tu_drops = 0, tu_fallbacks = 0, tu_last_activity = 0 \<rparr>,
                     up_metrics = m \<rparr>, out)))"

text \<open>The connection, after a reconnect if it is closed; a reconnect that fails leaves it as it is.\<close>

definition live_conn :: "'c exporter \<Rightarrow> 'c quinn \<Rightarrow> 'c tuic_upstream \<Rightarrow> ('c, 'c result \<times> 'c tuic_upstream) sending" where
  "live_conn export q u =
     (if q_closed q (up_conn u) then
        (case tuic_handshake export q (up_uuid u) (up_password u) (up_zero_rtt u) of
           (r, out) \<Rightarrow>
             if \<not> q_in_time q then ((Inl (Io ''tuic reconnect''), u), take (q_writes q) out)
             else (case r of Inl e \<Rightarrow> ((Inl e, u), out) | Inr conn \<Rightarrow> ((Inr conn, u\<lparr> up_conn := conn \<rparr>), out)))
      else ((Inr (up_conn u), u), []))"

definition current_conn :: "'c quinn \<Rightarrow> bool \<Rightarrow> 'c tuic_upstream \<Rightarrow> 'c option" where
  "current_conn q locked u = (if locked \<or> q_closed q (up_conn u) then None else Some (up_conn u))"

section \<open>Flows and packets\<close>

definition tuic_open_tcp :: "'c exporter \<Rightarrow> 'c quinn \<Rightarrow> target_addr \<Rightarrow> 'c tuic_upstream \<Rightarrow> ('c, 'c result \<times> 'c tuic_upstream) sending" where
  "tuic_open_tcp export q target u =
     (case live_conn export q u of
        ((Inl e, u'), out) \<Rightarrow> ((Inl e, u'), out)
      | ((Inr conn, u'), out) \<Rightarrow>
          let cmd = encode_connect target in
          if \<not> q_bi_in_time q
          then ((Inl (Io ''tuic open_tcp''), u'),
                out @ (case q_bi q conn cmd of WriteFailed k \<Rightarrow> [ConnectPart conn (take k cmd)] | _ \<Rightarrow> []))
          else (case q_bi q conn cmd of
                  NoStream \<Rightarrow> ((Inl (Io ''tuic open_bi''), u'), out)
                | WriteFailed k \<Rightarrow> ((Inl (Io ''tuic connect write''), u'), out @ [ConnectPart conn (take k cmd)])
                | _ \<Rightarrow> ((Inr conn, u'), out @ [ConnectSent conn cmd])))"

text \<open>Writing a packet to a stream of its own.\<close>

definition write_uni_packet :: "'c quinn \<Rightarrow> 'c \<Rightarrow> bytes \<Rightarrow> unit result" where
  "write_uni_packet q conn packet =
     (case q_uni q conn packet of
        StreamOk \<Rightarrow> Inr ()
      | NoStream \<Rightarrow> Inl (Io ''udp open_uni'')
      | WriteFailed _ \<Rightarrow> Inl (Io ''udp uni write'')
      | FinishFailed \<Rightarrow> Inl (Io ''udp uni finish''))"

text \<open>The connection as \<open>send_udp\<close> sees it.\<close>

definition conn_view :: "'c quinn \<Rightarrow> 'c \<Rightarrow> quic_conn" where
  "conn_view q conn = \<lparr> qc_max_datagram = q_max_datagram q conn, qc_send_datagram = q_send_datagram q conn,
     qc_write_uni = (\<lambda>b. write_uni_packet q conn b = Inr ()) \<rparr>"

definition tuic_send_udp :: "'c quinn \<Rightarrow> bool \<Rightarrow> nat \<Rightarrow> bytes \<Rightarrow> 'c tuic_upstream \<Rightarrow> ('c, 'c tuic_upstream) sending" where
  "tuic_send_udp q locked clock datagram u =
     (let conn = current_conn q locked u;
          (out, t) = send_udp (map_option (conn_view q) conn) clock datagram (up_udp u)
      in (u\<lparr> up_udp := t \<rparr>, case conn of None \<Rightarrow> [] | Some c \<Rightarrow> map (PacketSent c) out))"

definition tuic_probe :: "'c exporter \<Rightarrow> 'c quinn \<Rightarrow> 'c tuic_upstream \<Rightarrow> ('c, bool \<times> 'c tuic_upstream) sending" where
  "tuic_probe export q u = (case live_conn export q u of ((r, u'), out) \<Rightarrow> ((case r of Inr _ \<Rightarrow> True | Inl _ \<Rightarrow> False, u'), out))"

definition tuic_is_dead :: "'c quinn \<Rightarrow> 'c tuic_upstream \<Rightarrow> bool" where
  "tuic_is_dead q u = q_closed q (up_conn u)"

definition tuic_rx_datagrams :: "'c quinn \<Rightarrow> bool \<Rightarrow> 'c tuic_upstream \<Rightarrow> nat option" where
  "tuic_rx_datagrams q locked u = (if locked then None else Some (q_rx q (up_conn u)))"

definition udp_drop_count :: "'c tuic_upstream \<Rightarrow> u64" where
  "udp_drop_count u = tu_drops (up_udp u)"

definition udp_stream_fallback_count :: "'c tuic_upstream \<Rightarrow> u64" where
  "udp_stream_fallback_count u = tu_fallbacks (up_udp u)"

section \<open>The driver task\<close>

definition TUIC_HEARTBEAT_SECS :: nat where "TUIC_HEARTBEAT_SECS = 3"
definition TUIC_DOWNLINK_CAPACITY :: nat where "TUIC_DOWNLINK_CAPACITY = 1024"
definition MAX_TUIC_PACKET_BYTES :: nat where "MAX_TUIC_PACKET_BYTES = 66 * 1024"
definition MAX_CONCURRENT_DOWNLINK_STREAMS :: nat where "MAX_CONCURRENT_DOWNLINK_STREAMS = 256"
definition UDP_STATS_LOG_SECS :: nat where "UDP_STATS_LOG_SECS = 30"

text \<open>The content of a stream, nothing if it is reset.\<close>

definition read_uni_packet :: "bytes option \<Rightarrow> bytes option" where
  "read_uni_packet content =
     (case content of
        Some buf \<Rightarrow> if length buf \<le> MAX_TUIC_PACKET_BYTES \<and> buf \<noteq> [] then Some buf else None
      | None \<Rightarrow> None)"

text \<open>
  Where the task is: about to call \<open>live_conn\<close>, in the inner loop on a connection with the latch of the
  pressure signal, asleep for some milliseconds, or ended. \<open>dr_readers\<close> are the spawned tasks that hold a
  permit, by stream; \<open>dr_chan\<close> is everything put into the channel of the main loop so far, and \<open>dr_open\<close>
  whether its receiver exists. A send into a full channel waits.
\<close>

datatype 'c driver_phase = Connecting | Serving 'c bool | Asleep nat | Ended

record 'c driver =
  dr_phase :: "'c driver_phase"
  dr_attempt :: nat
  dr_readers :: "nat list"
  dr_chan :: "bytes list"
  dr_open :: bool

definition driver_new :: "'c driver" where
  "driver_new = \<lparr> dr_phase = Connecting, dr_attempt = 0, dr_readers = [], dr_chan = [], dr_open = True \<rparr>"

datatype driver_event =
    Connects
  | WakesUp
  | DatagramIn "bytes option"
  | StreamIn "nat option"
  | StreamRead nat "bytes option"
  | StatsTick nat
  | HeartbeatTick nat
  | ReceiverGone

definition next_attempt :: "nat \<Rightarrow> nat" where
  "next_attempt n = min (n + 1) (2 ^ 32 - 1)"

text \<open>The sleep after a failed reconnect, and after the inner loop was left.\<close>

definition back_off :: "'c driver \<Rightarrow> 'c driver" where
  "back_off d = d\<lparr> dr_phase := Asleep (udp_reconnect_backoff (dr_attempt d)), dr_attempt := next_attempt (dr_attempt d) \<rparr>"

definition on_datagram :: "bytes option \<Rightarrow> 'c driver \<Rightarrow> 'c driver" where
  "on_datagram dg d =
     (case dg of
        Some b \<Rightarrow> if dr_open d then d\<lparr> dr_chan := dr_chan d @ [b] \<rparr> else d\<lparr> dr_phase := Ended \<rparr>
      | None \<Rightarrow> back_off d)"

definition on_stream :: "nat option \<Rightarrow> 'c tuic_upstream \<Rightarrow> 'c driver \<Rightarrow> 'c tuic_upstream \<times> 'c driver" where
  "on_stream stream u d =
     (case stream of
        Some i \<Rightarrow>
          if length (dr_readers d) < MAX_CONCURRENT_DOWNLINK_STREAMS then (u, d\<lparr> dr_readers := dr_readers d @ [i] \<rparr>)
          else (u\<lparr> up_metrics := inc_udp_drops_down (up_metrics u) \<rparr>, d)
      | None \<Rightarrow> (u, back_off d))"

text \<open>A spawned reader: it outlives the connection and even the driver.\<close>

definition on_stream_read :: "nat \<Rightarrow> bytes option \<Rightarrow> 'c tuic_upstream \<Rightarrow> 'c driver \<Rightarrow> 'c tuic_upstream \<times> 'c driver" where
  "on_stream_read i content u d =
     (let d' = d\<lparr> dr_readers := remove1 i (dr_readers d) \<rparr> in
      case read_uni_packet content of
        Some pkt \<Rightarrow> (u, if dr_open d then d'\<lparr> dr_chan := dr_chan d @ [pkt] \<rparr> else d')
      | None \<Rightarrow> (u\<lparr> up_metrics := inc_udp_drops_down (up_metrics u) \<rparr>, d'))"

definition on_stats :: "'c quinn \<Rightarrow> 'c \<Rightarrow> bool \<Rightarrow> 'c tuic_upstream \<Rightarrow> 'c driver \<Rightarrow> 'c tuic_upstream \<times> 'c driver" where
  "on_stats q conn prev_pressured u d =
     (let pressured = (tu_mode (up_udp u) = Native \<and>
            is_datagram_pressured (q_space q conn) (case q_max_datagram q conn of Some mx \<Rightarrow> mx | None \<Rightarrow> QUIC_INITIAL_MTU));
          (rising, latch) = note_pressure_edge pressured prev_pressured
      in (if rising then u\<lparr> up_metrics := inc_datagram_pressure_events (up_metrics u) \<rparr> else u,
          d\<lparr> dr_phase := Serving conn latch \<rparr>))"

definition on_heartbeat :: "'c quinn \<Rightarrow> 'c \<Rightarrow> nat \<Rightarrow> 'c tuic_upstream \<Rightarrow> 'c driver \<Rightarrow> ('c, 'c driver) sending" where
  "on_heartbeat q conn now u d =
     (if should_send_heartbeat (tu_last_activity (up_udp u)) now TUIC_HB_IDLE_WINDOW_SECS
      then (if q_send_datagram q conn encode_heartbeat = SendOk then (d, [HeartbeatSent conn encode_heartbeat]) else (back_off d, []))
      else (d, []))"

text \<open>One step of the task; nothing if the event cannot occur in this phase.\<close>

fun driver_step :: "'c exporter \<Rightarrow> 'c quinn \<Rightarrow> driver_event \<Rightarrow> 'c tuic_upstream \<times> 'c driver \<Rightarrow>
    ('c, 'c tuic_upstream \<times> 'c driver) sending option" where
  "driver_step export q Connects (u, d) =
     (if dr_phase d = Connecting then
        (case live_conn export q u of
           ((Inr conn, u'), out) \<Rightarrow> Some ((u', d\<lparr> dr_phase := Serving conn False, dr_attempt := 0 \<rparr>), out)
         | ((Inl e, u'), out) \<Rightarrow> Some ((u', back_off d), out))
      else None)"
| "driver_step export q WakesUp (u, d) =
     (case dr_phase d of Asleep ms \<Rightarrow> Some ((u, d\<lparr> dr_phase := Connecting \<rparr>), []) | _ \<Rightarrow> None)"
| "driver_step export q (DatagramIn dg) (u, d) =
     (case dr_phase d of Serving conn p \<Rightarrow> Some ((u, on_datagram dg d), []) | _ \<Rightarrow> None)"
| "driver_step export q (StreamIn s) (u, d) =
     (case dr_phase d of Serving conn p \<Rightarrow> Some (on_stream s u d, []) | _ \<Rightarrow> None)"
| "driver_step export q (StreamRead i content) (u, d) =
     (if i \<in> set (dr_readers d) then Some (on_stream_read i content u d, []) else None)"
| "driver_step export q (StatsTick now) (u, d) =
     (case dr_phase d of Serving conn p \<Rightarrow> Some (on_stats q conn p u d, []) | _ \<Rightarrow> None)"
| "driver_step export q (HeartbeatTick now) (u, d) =
     (case dr_phase d of Serving conn p \<Rightarrow> Some (apfst (Pair u) (on_heartbeat q conn now u d)) | _ \<Rightarrow> None)"
| "driver_step export q ReceiverGone (u, d) = Some ((u, d\<lparr> dr_open := False \<rparr>), [])"

section \<open>The upstream in use\<close>

text \<open>The calls of the relay tasks, the main loop, the failover task and the driver, in any order.\<close>

datatype tuic_call =
    OpenTcp target_addr
  | SendUdp bool nat bytes
  | Probe
  | Drive driver_event

fun tuic_step :: "'c exporter \<Rightarrow> 'c quinn \<Rightarrow> tuic_call \<Rightarrow> 'c tuic_upstream \<times> 'c driver \<Rightarrow>
    ('c, 'c tuic_upstream \<times> 'c driver) sending option" where
  "tuic_step export q (OpenTcp target) (u, d) =
     (case tuic_open_tcp export q target u of ((_, u'), out) \<Rightarrow> Some ((u', d), out))"
| "tuic_step export q (SendUdp locked clock datagram) (u, d) =
     (case tuic_send_udp q locked clock datagram u of (u', out) \<Rightarrow> Some ((u', d), out))"
| "tuic_step export q Probe (u, d) = (case tuic_probe export q u of ((_, u'), out) \<Rightarrow> Some ((u', d), out))"
| "tuic_step export q (Drive ev) (u, d) = driver_step export q ev (u, d)"

fun tuic_run :: "'c exporter \<Rightarrow> ('c quinn \<times> tuic_call) list \<Rightarrow> 'c tuic_upstream \<times> 'c driver \<Rightarrow>
    ('c, 'c tuic_upstream \<times> 'c driver) sending option" where
  "tuic_run export [] s = Some (s, [])"
| "tuic_run export ((q, call) # calls) s =
     (case tuic_step export q call s of
        None \<Rightarrow> None
      | Some (s', out) \<Rightarrow> map_option (apsnd ((@) out)) (tuic_run export calls s'))"

section \<open>Authentication comes first\<close>

text \<open>The connection a command other than the authentication uses.\<close>

fun uses_conn :: "'c tuic_sent \<Rightarrow> 'c option" where
  "uses_conn (AuthSent _ _) = None"
| "uses_conn (AuthPart _ _) = None"
| "uses_conn (ConnectSent c _) = Some c"
| "uses_conn (ConnectPart c _) = Some c"
| "uses_conn (PacketSent c _) = Some c"
| "uses_conn (HeartbeatSent c _) = Some c"

text \<open>A connection whose Authenticate command, with its own token, has been sent completely.\<close>

definition authed :: "'c exporter \<Rightarrow> bytes \<Rightarrow> bytes \<Rightarrow> 'c tuic_sent list \<Rightarrow> 'c \<Rightarrow> bool" where
  "authed export uuid password tr c \<longleftrightarrow>
     (\<exists>token. export c uuid password = Some token \<and> AuthSent c (encode_authenticate uuid token) \<in> set tr)"

fun auth_ordered :: "'c exporter \<Rightarrow> bytes \<Rightarrow> bytes \<Rightarrow> 'c tuic_sent list \<Rightarrow> 'c tuic_sent list \<Rightarrow> bool" where
  "auth_ordered export uuid password pre [] \<longleftrightarrow> True"
| "auth_ordered export uuid password pre (ev # evs) \<longleftrightarrow>
     (\<forall>c. uses_conn ev = Some c \<longrightarrow> authed export uuid password pre c) \<and>
     auth_ordered export uuid password (pre @ [ev]) evs"

lemma auth_ordered_append:
  "auth_ordered E i p pre (a @ b) \<longleftrightarrow> auth_ordered E i p pre a \<and> auth_ordered E i p (pre @ a) b"
  by (induction a arbitrary: pre) auto

lemma auth_ordered_split: "auth_ordered E i p [] (pre @ ev # post) \<Longrightarrow> uses_conn ev = Some c \<Longrightarrow> authed E i p pre c"
  by (simp add: auth_ordered_append)

lemma authed_append [simp]: "authed E i p (a @ b) c \<longleftrightarrow> authed E i p a c \<or> authed E i p b c"
  unfolding authed_def by auto

lemma auth_ordered_none: "\<forall>ev\<in>set evs. uses_conn ev = None \<Longrightarrow> auth_ordered E i p pre evs"
  by (induction evs arbitrary: pre) auto

lemma authenticate_sends:
  assumes "authenticate E q c i p = (r, out)"
  shows "(\<forall>ev\<in>set out. uses_conn ev = None) \<and> (r = Inr () \<longrightarrow> authed E i p out c)"
  using assms by (auto simp: authenticate_def authed_def Let_def split: option.splits stream_result.splits)

lemma handshake_1rtt_sends:
  assumes "handshake_1rtt E q i p = (r, out)"
  shows "(\<forall>ev\<in>set out. uses_conn ev = None) \<and> (\<forall>c. r = Inr c \<longrightarrow> authed E i p out c)"
  using assms authenticate_sends [of E q _ i p]
  by (auto simp: handshake_1rtt_def split: sum.splits prod.splits)

lemma try_0rtt_sends:
  assumes "try_0rtt E q i p = (r, out)"
  shows "(\<forall>ev\<in>set out. uses_conn ev = None) \<and> (\<forall>c. r = Some c \<longrightarrow> authed E i p out c)"
  using assms authenticate_sends [of E q _ i p]
  by (auto simp: try_0rtt_def split: option.splits sum.splits prod.splits)

lemma tuic_handshake_sends:
  assumes "tuic_handshake E q i p z = (r, out)"
  shows "(\<forall>ev\<in>set out. uses_conn ev = None) \<and> (\<forall>c. r = Inr c \<longrightarrow> authed E i p out c)"
proof -
  obtain x o1 where t: "(if z then try_0rtt E q i p else (None, [])) = (x, o1)" by fastforce
  have s1: "(\<forall>ev\<in>set o1. uses_conn ev = None) \<and> (\<forall>c. x = Some c \<longrightarrow> authed E i p o1 c)"
    using t try_0rtt_sends [of E q i p x o1] by (auto split: if_splits)
  obtain r2 o2 where h: "handshake_1rtt E q i p = (r2, o2)" by fastforce
  show ?thesis
    using assms s1 handshake_1rtt_sends [OF h] unfolding tuic_handshake_def t h
    by (cases x) auto
qed

lemma live_conn_sends:
  assumes "live_conn E q u = ((r, u'), out)"
  shows "(\<forall>ev\<in>set out. uses_conn ev = None) \<and> up_uuid u' = up_uuid u \<and> up_password u' = up_password u \<and>
    up_udp u' = up_udp u \<and> up_metrics u' = up_metrics u \<and>
    (case r of Inr c \<Rightarrow> up_conn u' = c \<and> (c = up_conn u \<or> authed E (up_uuid u) (up_password u) out c) | Inl _ \<Rightarrow> u' = u)"
proof -
  obtain r1 o1 where h: "tuic_handshake E q (up_uuid u) (up_password u) (up_zero_rtt u) = (r1, o1)" by fastforce
  have "\<forall>ev\<in>set (take k o1). uses_conn ev = None" for k
    using tuic_handshake_sends [OF h] by (meson in_set_takeD)
  with assms tuic_handshake_sends [OF h] show ?thesis
    by (auto simp: live_conn_def h split: if_splits sum.splits)
qed

text \<open>The connections in use have been authenticated.\<close>

definition conns_authed :: "'c exporter \<Rightarrow> bytes \<Rightarrow> bytes \<Rightarrow> 'c tuic_sent list \<Rightarrow> 'c tuic_upstream \<times> 'c driver \<Rightarrow> bool" where
  "conns_authed E i p tr s \<longleftrightarrow> up_uuid (fst s) = i \<and> up_password (fst s) = p \<and> authed E i p tr (up_conn (fst s)) \<and>
     (\<forall>c l. dr_phase (snd s) = Serving c l \<longrightarrow> authed E i p tr c)"

lemma conns_authedI:
  assumes "conns_authed E i p tr (u, d)" "up_uuid u' = up_uuid u" "up_password u' = up_password u"
    "up_conn u' = up_conn u \<or> authed E i p (tr @ out) (up_conn u')"
    "\<And>c l. dr_phase d' = Serving c l \<Longrightarrow> (\<exists>l'. dr_phase d = Serving c l') \<or> c = up_conn u'"
  shows "conns_authed E i p (tr @ out) (u', d')"
proof -
  have "authed E i p (tr @ out) (up_conn u')" using assms(1,4) by (auto simp: conns_authed_def)
  moreover have "authed E i p (tr @ out) c" if "dr_phase d' = Serving c l" for c l
    using assms(5) [OF that] assms(1) calculation by (auto simp: conns_authed_def)
  ultimately show ?thesis using assms(1-3) by (auto simp: conns_authed_def)
qed

lemma back_off_phase [simp]: "dr_phase (back_off d) \<noteq> Serving c l" "dr_readers (back_off d) = dr_readers d"
  "dr_chan (back_off d) = dr_chan d" "dr_open (back_off d) = dr_open d"
  by (simp_all add: back_off_def)

lemma driver_step_auth:
  assumes "driver_step E q ev (u, d) = Some ((u', d'), out)" "conns_authed E i p tr (u, d)"
  shows "auth_ordered E i p tr out \<and> conns_authed E i p (tr @ out) (u', d')"
proof (cases ev)
  case Connects
  obtain r u1 o1 where l: "live_conn E q u = ((r, u1), o1)" by (metis prod.collapse)
  note s = live_conn_sends [OF l]
  have o: "out = o1" "u' = u1" using assms(1) Connects l by (auto split: if_splits sum.splits)
  have i: "up_uuid u = i" "up_password u = p" using assms(2) by (auto simp: conns_authed_def)
  have "conns_authed E i p (tr @ o1) (u1, d')"
  proof (rule conns_authedI [OF assms(2)])
    show "up_conn u1 = up_conn u \<or> authed E i p (tr @ o1) (up_conn u1)"
      using s i by (auto split: sum.splits)
    show "(\<exists>l'. dr_phase d = Serving c l') \<or> c = up_conn u1" if "dr_phase d' = Serving c l" for c l
      using that assms(1) Connects l s by (auto split: if_splits sum.splits)
  qed (use s in auto)
  then show ?thesis using s o by (simp add: auth_ordered_none)
next
  case (HeartbeatTick now)
  then obtain c l where ph: "dr_phase d = Serving c l" using assms(1) by (auto split: driver_phase.splits)
  with assms(1) HeartbeatTick have "u' = u" "(d', out) = on_heartbeat q c now u d" by (cases "on_heartbeat q c now u d"; simp)+
  then have "u' = u" "(out = [] \<or> out = [HeartbeatSent c encode_heartbeat])" "d' = d \<or> d' = back_off d"
    by (auto simp: on_heartbeat_def split: if_splits)
  moreover have "authed E i p tr c" using assms(2) ph by (auto simp: conns_authed_def)
  ultimately show ?thesis using conns_authedI [OF assms(2), where u' = u and d' = d' and out = out] by auto
qed (use assms(1) in \<open>auto simp: on_datagram_def on_stream_def on_stream_read_def on_stats_def Let_def
    split: driver_phase.splits option.splits if_splits prod.splits intro!: conns_authedI [OF assms(2), where out = "[]", simplified]\<close>)

lemma tuic_step_auth:
  assumes "tuic_step E q call s = Some (s', out)" "conns_authed E i p tr s"
  shows "auth_ordered E i p tr out \<and> conns_authed E i p (tr @ out) s'"
proof -
  obtain u d where s: "s = (u, d)" by (cases s)
  have a: "authed E i p tr (up_conn u)" and ip: "up_uuid u = i" "up_password u = p" using assms(2) by (auto simp: s conns_authed_def)
  show ?thesis
  proof (cases call)
    case (OpenTcp target)
    obtain r u1 o1 where l: "live_conn E q u = ((r, u1), o1)" by (metis prod.collapse)
    note ls = live_conn_sends [OF l]
    obtain o2 where s': "s' = (u1, d)" and out: "out = o1 @ o2" and o2: "\<forall>ev\<in>set o2. \<exists>c. r = Inr c \<and> uses_conn ev = Some c" "length o2 \<le> 1"
      using assms(1) OpenTcp l s
      by (auto simp: tuic_open_tcp_def Let_def split: sum.splits if_splits stream_result.splits)
    have c: "authed E i p (tr @ o1) (up_conn u1)"
      using ls a ip by (cases r) auto
    have "auth_ordered E i p (tr @ o1) o2"
      using o2 ls c by (cases o2) (auto split: sum.splits)
    moreover have "conns_authed E i p (tr @ o1 @ o2) (u1, d)"
      using assms(2) unfolding s
      by (rule conns_authedI) (use ls c in auto)
    ultimately show ?thesis using ls by (simp add: s' out auth_ordered_append auth_ordered_none)
  next
    case (SendUdp locked clock dg)
    obtain o1 t where w: "send_udp (map_option (conn_view q) (current_conn q locked u)) clock dg (up_udp u) = (o1, t)" by fastforce
    have out: "s' = (u\<lparr> up_udp := t \<rparr>, d)" "out = (case current_conn q locked u of None \<Rightarrow> [] | Some c \<Rightarrow> map (PacketSent c) o1)"
      using assms(1) SendUdp s w by (auto simp: tuic_send_udp_def Let_def)
    have "auth_ordered E i p tr' (map (PacketSent c) ws)" if "authed E i p tr' c" for tr' c ws
      using that by (induction ws arbitrary: tr') auto
    then have "auth_ordered E i p tr out" using a by (auto simp: out current_conn_def)
    with conns_authedI [OF assms(2) [unfolded s], of "u\<lparr> up_udp := t \<rparr>" out d] show ?thesis by (auto simp: out(1))
  next
    case Probe
    obtain r u1 o1 where l: "live_conn E q u = ((r, u1), o1)" by (metis prod.collapse)
    note ls = live_conn_sends [OF l]
    have "s' = (u1, d)" "out = o1" using assms(1) Probe l s by (auto simp: tuic_probe_def)
    moreover have "conns_authed E i p (tr @ o1) (u1, d)"
      using assms(2) unfolding s
      by (rule conns_authedI) (use ls ip in \<open>auto split: sum.splits\<close>)
    ultimately show ?thesis using ls by (simp add: auth_ordered_none)
  next
    case (Drive ev)
    then show ?thesis using assms driver_step_auth [of E q ev u d "fst s'" "snd s'"] by (simp add: s)
  qed
qed

lemma tuic_run_auth:
  "tuic_run E calls s = Some (s', out) \<Longrightarrow> conns_authed E i p tr s \<Longrightarrow>
   auth_ordered E i p tr out \<and> conns_authed E i p (tr @ out) s'"
proof (induction calls arbitrary: s tr out)
  case (Cons qc calls)
  obtain q call where qc: "qc = (q, call)" by (cases qc)
  from Cons.prems(1) obtain s1 o1 o2 where st: "tuic_step E q call s = Some (s1, o1)"
      and rest: "tuic_run E calls s1 = Some (s', o2)" and out: "out = o1 @ o2"
    by (auto simp: qc split: option.splits)
  from tuic_step_auth [OF st Cons.prems(2)] have a: "auth_ordered E i p tr o1" "conns_authed E i p (tr @ o1) s1" by auto
  from Cons.IH [OF rest a(2)] a(1) show ?case by (simp add: out auth_ordered_append)
qed simp

lemma tuic_connect_authed:
  assumes "tuic_connect E q pem root_ok bound cfg m = (Inr u, out)"
  shows "(\<forall>ev\<in>set out. uses_conn ev = None) \<and> conns_authed E (tc_uuid cfg) (tc_password cfg) out (u, driver_new)"
proof -
  obtain r o1 where h: "tuic_handshake E q (tc_uuid cfg) (tc_password cfg) (tc_zero_rtt cfg) = (r, o1)" by fastforce
  from assms tuic_handshake_sends [OF h] show ?thesis
    by (auto simp: tuic_connect_def h conns_authed_def driver_new_def split: prod.splits sum.splits)
qed

section \<open>The downlink\<close>

text \<open>What a call should put into the channel, the streams it takes on, and the packets it reads off streams.\<close>

fun call_delivers :: "tuic_call \<Rightarrow> bytes list" where
  "call_delivers (Drive (DatagramIn (Some b))) = [b]"
| "call_delivers (Drive (StreamRead i content)) = (case read_uni_packet content of Some p \<Rightarrow> [p] | None \<Rightarrow> [])"
| "call_delivers _ = []"

fun call_accepts :: "tuic_call \<Rightarrow> nat" where
  "call_accepts (Drive (StreamIn (Some i))) = 1"
| "call_accepts _ = 0"

fun call_packets :: "tuic_call \<Rightarrow> nat" where
  "call_packets (Drive (StreamRead i content)) = (case read_uni_packet content of Some p \<Rightarrow> 1 | None \<Rightarrow> 0)"
| "call_packets _ = 0"

definition downlink_step :: "tuic_call \<Rightarrow> 'c tuic_upstream \<times> 'c driver \<Rightarrow> 'c tuic_upstream \<times> 'c driver \<Rightarrow> bool" where
  "downlink_step call s s' \<longleftrightarrow> dr_open (snd s') \<and> dr_chan (snd s') = dr_chan (snd s) @ call_delivers call \<and>
     length (dr_readers (snd s')) \<le> MAX_CONCURRENT_DOWNLINK_STREAMS \<and>
     (\<exists>k. udp_drops_down (up_metrics (fst s')) = udp_drops_down (up_metrics (fst s)) + of_nat k \<and>
        length (dr_readers (snd s)) + call_accepts call = length (dr_readers (snd s')) + call_packets call + k)"

lemma downlink_stepI:
  "udp_drops_down (up_metrics u') = udp_drops_down (up_metrics u) + of_nat k \<Longrightarrow>
   length (dr_readers d) + call_accepts call = length (dr_readers d') + call_packets call + k \<Longrightarrow>
   dr_open d' \<Longrightarrow> dr_chan d' = dr_chan d @ call_delivers call \<Longrightarrow> length (dr_readers d') \<le> MAX_CONCURRENT_DOWNLINK_STREAMS \<Longrightarrow>
   downlink_step call (u, d) (u', d')"
  by (auto simp: downlink_step_def)

lemma live_conn_metrics: "live_conn E q u = ((r, u'), out) \<Longrightarrow> up_metrics u' = up_metrics u"
  using live_conn_sends by blast

lemma driver_step_downlink:
  assumes "driver_step E q ev (u, d) = Some ((u', d'), out)" "ev \<noteq> ReceiverGone" "dr_open d"
    "length (dr_readers d) \<le> MAX_CONCURRENT_DOWNLINK_STREAMS"
  shows "downlink_step (Drive ev) (u, d) (u', d')"
proof (cases ev)
  case Connects
  with assms show ?thesis
    by (intro downlink_stepI [where k = 0]) (auto dest!: live_conn_metrics split: if_splits sum.splits prod.splits)
next
  case (StreamIn st)
  with assms have "(u', d') = on_stream st u d" by (auto split: driver_phase.splits)
  with assms(3,4) StreamIn show ?thesis
    by (cases st; cases "length (dr_readers d) < MAX_CONCURRENT_DOWNLINK_STREAMS")
       (auto simp: on_stream_def inc_udp_drops_down_def intro: downlink_stepI [where k = 0] downlink_stepI [where k = 1])
next
  case (StreamRead i content)
  with assms have r: "(u', d') = on_stream_read i content u d" "i \<in> set (dr_readers d)" by (auto split: if_splits)
  then have "Suc (length (remove1 i (dr_readers d))) = length (dr_readers d)"
    using length_pos_if_in_set [of i "dr_readers d"] by (simp add: length_remove1)
  with r assms(3,4) StreamRead show ?thesis
    by (cases "read_uni_packet content")
       (auto simp: on_stream_read_def inc_udp_drops_down_def Let_def intro: downlink_stepI [where k = 0] downlink_stepI [where k = 1])
next
  case (HeartbeatTick now)
  then obtain c l where ph: "dr_phase d = Serving c l" using assms(1) by (auto split: driver_phase.splits)
  with assms(1) HeartbeatTick have "u' = u" "(d', out) = on_heartbeat q c now u d" by (cases "on_heartbeat q c now u d"; simp)+
  then have "u' = u" "d' = d \<or> d' = back_off d" by (auto simp: on_heartbeat_def split: if_splits)
  with assms(3,4) HeartbeatTick show ?thesis by (intro downlink_stepI [where k = 0]) auto
qed (use assms in \<open>auto simp: on_datagram_def on_stats_def inc_datagram_pressure_events_def Let_def
    split: driver_phase.splits option.splits if_splits prod.splits intro!: downlink_stepI [where k = 0]\<close>)

lemma tuic_step_downlink:
  assumes "tuic_step E q call s = Some (s', out)" "call \<noteq> Drive ReceiverGone" "dr_open (snd s)"
    "length (dr_readers (snd s)) \<le> MAX_CONCURRENT_DOWNLINK_STREAMS"
  shows "downlink_step call s s'"
proof -
  obtain u d where s: "s = (u, d)" by (cases s)
  obtain r u1 o1 where l: "live_conn E q u = ((r, u1), o1)" by (metis prod.collapse)
  note m = live_conn_metrics [OF l]
  show ?thesis
  proof (cases call)
    case (Drive ev)
    then show ?thesis using assms driver_step_downlink [of E q ev u d "fst s'" "snd s'"] by (simp add: s)
  next
    case (OpenTcp t)
    with assms s l have "s' = (u1, d)"
      by (auto simp: tuic_open_tcp_def Let_def split: sum.splits if_splits stream_result.splits)
    with assms(3,4) OpenTcp m show ?thesis unfolding s by (auto intro: downlink_stepI [where k = 0])
  next
    case (SendUdp locked clock dg)
    with assms s obtain t where "s' = (u\<lparr> up_udp := t \<rparr>, d)" by (auto simp: tuic_send_udp_def Let_def split: prod.splits)
    with assms(3,4) SendUdp show ?thesis unfolding s by (auto intro: downlink_stepI [where k = 0])
  next
    case Probe
    with assms s l have "s' = (u1, d)" by (auto simp: tuic_probe_def)
    with assms(3,4) Probe m show ?thesis unfolding s by (auto intro: downlink_stepI [where k = 0])
  qed
qed

lemma tuic_run_downlink:
  "tuic_run E calls s = Some (s', out) \<Longrightarrow> list_all (\<lambda>(q, call). call \<noteq> Drive ReceiverGone) calls \<Longrightarrow> dr_open (snd s) \<Longrightarrow>
   length (dr_readers (snd s)) \<le> MAX_CONCURRENT_DOWNLINK_STREAMS \<Longrightarrow>
   dr_chan (snd s') = dr_chan (snd s) @ concat (map (call_delivers \<circ> snd) calls) \<and>
   length (dr_readers (snd s')) \<le> MAX_CONCURRENT_DOWNLINK_STREAMS \<and>
   (\<exists>k. udp_drops_down (up_metrics (fst s')) = udp_drops_down (up_metrics (fst s)) + of_nat k \<and>
      length (dr_readers (snd s)) + sum_list (map (call_accepts \<circ> snd) calls) =
        length (dr_readers (snd s')) + sum_list (map (call_packets \<circ> snd) calls) + k)"
proof (induction calls arbitrary: s out)
  case Nil
  then show ?case by (auto intro: exI [of _ 0])
next
  case (Cons qc calls)
  obtain q call where qc: "qc = (q, call)" by (cases qc)
  from Cons.prems(1) obtain s1 o1 o2 where st: "tuic_step E q call s = Some (s1, o1)"
      and rest: "tuic_run E calls s1 = Some (s', o2)"
    by (auto simp: qc split: option.splits)
  have "call \<noteq> Drive ReceiverGone" using Cons.prems(2) by (simp add: qc)
  from tuic_step_downlink [OF st this Cons.prems(3,4)] have "downlink_step call s s1" .
  then obtain k where k: "dr_open (snd s1)" "dr_chan (snd s1) = dr_chan (snd s) @ call_delivers call"
      "length (dr_readers (snd s1)) \<le> MAX_CONCURRENT_DOWNLINK_STREAMS"
      "udp_drops_down (up_metrics (fst s1)) = udp_drops_down (up_metrics (fst s)) + of_nat k"
      "length (dr_readers (snd s)) + call_accepts call = length (dr_readers (snd s1)) + call_packets call + k"
    by (auto simp: downlink_step_def)
  have "list_all (\<lambda>(q, call). call \<noteq> Drive ReceiverGone) calls" using Cons.prems(2) by simp
  from Cons.IH [OF rest this k(1,3)] obtain k2 where k2:
      "dr_chan (snd s') = dr_chan (snd s1) @ concat (map (call_delivers \<circ> snd) calls)"
      "length (dr_readers (snd s')) \<le> MAX_CONCURRENT_DOWNLINK_STREAMS"
      "udp_drops_down (up_metrics (fst s')) = udp_drops_down (up_metrics (fst s1)) + of_nat k2"
      "length (dr_readers (snd s1)) + sum_list (map (call_accepts \<circ> snd) calls) =
        length (dr_readers (snd s')) + sum_list (map (call_packets \<circ> snd) calls) + k2" by blast
  have "udp_drops_down (up_metrics (fst s')) = udp_drops_down (up_metrics (fst s)) + of_nat (k + k2)"
    using k(4) k2(3) by simp
  moreover have "length (dr_readers (snd s)) + sum_list (map (call_accepts \<circ> snd) (qc # calls)) =
      length (dr_readers (snd s')) + sum_list (map (call_packets \<circ> snd) (qc # calls)) + (k + k2)"
    using k(5) k2(4) by (simp add: qc)
  moreover have "dr_chan (snd s') = dr_chan (snd s) @ concat (map (call_delivers \<circ> snd) (qc # calls))"
    using k(2) k2(1) by (simp add: qc)
  ultimately show ?case using k2(2) by blast
qed

section \<open>Reconnecting\<close>

text \<open>Rounds of the outer loop: waking up and calling \<open>live_conn\<close>.\<close>

definition retries :: "'c quinn list \<Rightarrow> ('c quinn \<times> tuic_call) list" where
  "retries qs = concat (map (\<lambda>q. [(q, Drive WakesUp), (q, Drive Connects)]) qs)"

text \<open>An attempt that fails: the connection is closed and no handshake succeeds in time.\<close>

definition attempt_fails :: "'c exporter \<Rightarrow> 'c quinn \<Rightarrow> 'c tuic_upstream \<Rightarrow> bool" where
  "attempt_fails export q u \<longleftrightarrow> (\<exists>e. fst (fst (live_conn export q u)) = Inl e)"

lemma next_attempt_small: "k < 2 ^ 32 - 1 \<Longrightarrow> next_attempt k = Suc k"
  by (simp add: next_attempt_def)

lemma retries_fail:
  "list_all (\<lambda>q. attempt_fails E q u) qs \<Longrightarrow> dr_phase d = Asleep ms \<Longrightarrow> dr_attempt d = Suc k \<Longrightarrow> ms = udp_reconnect_backoff k \<Longrightarrow>
   k + length qs < 2 ^ 32 - 1 \<Longrightarrow>
   \<exists>d' out. tuic_run E (retries qs) (u, d) = Some ((u, d'), out) \<and> dr_phase d' = Asleep (udp_reconnect_backoff (k + length qs)) \<and>
     dr_attempt d' = Suc (k + length qs) \<and> dr_readers d' = dr_readers d \<and> dr_chan d' = dr_chan d"
proof (induction qs arbitrary: d ms k)
  case Nil
  then show ?case by (simp add: retries_def)
next
  case (Cons q qs)
  obtain e u1 o1 where l: "live_conn E q u = ((Inl e, u1), o1)"
    using Cons.prems(1) by (cases "live_conn E q u"; cases "fst (live_conn E q u)") (auto simp: attempt_fails_def)
  have u1: "u1 = u" using live_conn_sends [OF l] by simp
  let ?d = "back_off (d\<lparr> dr_phase := Connecting \<rparr>)"
  have "dr_phase ?d = Asleep (udp_reconnect_backoff (Suc k))" "dr_attempt ?d = Suc (Suc k)"
    using Cons.prems(3,5) by (simp_all add: back_off_def next_attempt_small)
  from Cons.IH [OF _ this refl] Cons.prems obtain d' out where
    "tuic_run E (retries qs) (u, ?d) = Some ((u, d'), out)" "dr_phase d' = Asleep (udp_reconnect_backoff (Suc k + length qs))"
    "dr_attempt d' = Suc (Suc k + length qs)" "dr_readers d' = dr_readers ?d" "dr_chan d' = dr_chan ?d" by auto
  then show ?case using Cons.prems(2) l u1 by (simp add: retries_def)
qed

lemma retries_append: "retries (a @ b) = retries a @ retries b"
  by (simp add: retries_def)

lemma apsnd_append: "apsnd ((@) x) \<circ> apsnd ((@) y) = apsnd ((@) (x @ y))"
  by (auto simp: fun_eq_iff)

lemma tuic_run_append:
  "tuic_run E (a @ b) s =
     (case tuic_run E a s of None \<Rightarrow> None | Some (s', out) \<Rightarrow> map_option (apsnd ((@) out)) (tuic_run E b s'))"
proof (induction a arbitrary: s)
  case Nil
  then show ?case by (cases "tuic_run E b s") (auto simp: apsnd_def map_prod_def)
next
  case (Cons qc a)
  obtain q call where qc: "qc = (q, call)" by (cases qc)
  with Cons show ?case by (auto simp: apsnd_append option.map_comp split: option.splits)
qed

text \<open>A connection that breaks: the driver sleeps, and again after every attempt that fails.\<close>

lemma broken_then_retries:
  assumes "dr_phase d = Serving c l" "dr_attempt d = 0" "list_all (\<lambda>q. attempt_fails E q u) qs" "length qs < 2 ^ 32 - 1"
  shows "\<exists>d' out. tuic_run E ((q0, Drive (DatagramIn None)) # retries qs) (u, d) = Some ((u, d'), out) \<and>
    dr_phase d' = Asleep (udp_reconnect_backoff (length qs)) \<and> dr_readers d' = dr_readers d \<and> dr_chan d' = dr_chan d"
proof -
  have "dr_phase (back_off d) = Asleep (udp_reconnect_backoff 0)" "dr_attempt (back_off d) = Suc 0"
    using assms(2) by (simp_all add: back_off_def next_attempt_def)
  from retries_fail [OF assms(3) this refl] assms(1,4) show ?thesis by (auto simp: on_datagram_def)
qed

lemma wake_and_connect:
  assumes "dr_phase d = Asleep ms" "live_conn E q u = ((Inr c, u'), out)"
  shows "tuic_run E (retries [q]) (u, d) = Some ((u', d\<lparr> dr_phase := Serving c False, dr_attempt := 0 \<rparr>), out)"
  using assms by (simp add: retries_def)

section \<open>The upstream as a whole\<close>

text \<open>
  C2. Nothing is asked of a server that does not know who asks. After a successful start, in every order of
  opened flows, UDP packets, probes, steps of the driver and reconnects, and whatever the network does,
  every Connect, every packet and every heartbeat goes out on a connection on which an Authenticate command
  was written completely before, with the configured UUID and the token exported from that connection itself.
\<close>

theorem tuic_auth_first:
  assumes "tuic_connect export q pem root_ok bound cfg m = (Inr u, out0)"
    "tuic_run export calls (u, driver_new) = Some (s, out)"
    "out0 @ out = before @ command # behind" "uses_conn command = Some c"
  shows "\<exists>token. export c (tc_uuid cfg) (tc_password cfg) = Some token \<and>
    AuthSent c (encode_authenticate (tc_uuid cfg) token) \<in> set before"
proof -
  let ?i = "tc_uuid cfg" and ?p = "tc_password cfg"
  from tuic_connect_authed [OF assms(1)] have c: "auth_ordered export ?i ?p [] out0" "conns_authed export ?i ?p out0 (u, driver_new)"
    by (auto intro: auth_ordered_none)
  from tuic_run_auth [OF assms(2) c(2)] c(1) have "auth_ordered export ?i ?p [] (out0 @ out)" by (simp add: auth_ordered_append)
  from auth_ordered_split [OF this [unfolded assms(3)] assms(4)] show ?thesis unfolding authed_def .
qed

text \<open>Connections are numbers; the exporter gives the number of the connection; connection 1 has been closed.\<close>

definition demo_export :: "nat exporter" where
  "demo_export c uuid password = Some (replicate 32 (of_nat c))"

definition demo_quinn :: "nat \<Rightarrow> nat quinn" where
  "demo_quinn n = \<lparr> q_closed = (\<lambda>c. c \<noteq> n), q_early = None, q_dial = Inr n, q_in_time = True, q_writes = 0,
     q_uni = (\<lambda>_ _. StreamOk), q_bi = (\<lambda>_ _. StreamOk), q_bi_in_time = True, q_max_datagram = (\<lambda>_. Some 1200),
     q_send_datagram = (\<lambda>_ _. SendOk), q_space = (\<lambda>_. 5000), q_rx = (\<lambda>_. 0) \<rparr>"

definition demo_tuic_config :: tuic_client_config where
  "demo_tuic_config = \<lparr> tc_server = IpPort (V4 1) 443, tc_uuid = replicate 16 1, tc_password = [2], tc_sni = [], tc_ca_path = [],
     tc_alpn = str ''h3'', tc_congestion_control = str ''cubic'', tc_udp_relay_mode = str ''native'', tc_zero_rtt = False \<rparr>"

definition demo_tuic :: "nat \<Rightarrow> nat tuic_upstream" where
  "demo_tuic n = \<lparr> up_uuid = replicate 16 1, up_password = [2], up_zero_rtt = False,
     up_endpoint = \<lparr> ep_max_udp_payload = 1472, ep_client_config =
       \<lparr> qcl_crypto = \<lparr> tls_roots = [[3]], tls_alpn = [str ''h3''], tls_early_data = True \<rparr>, qcl_transport = quic_transport_config Cubic \<rparr> \<rparr>,
     up_conn = n, up_udp = \<lparr> tu_mode = Native, tu_drops = 0, tu_fallbacks = 0, tu_last_activity = 0 \<rparr>, up_metrics = metrics_new \<rparr>"

definition demo_auth :: "nat \<Rightarrow> nat tuic_sent" where
  "demo_auth n = AuthSent n (encode_authenticate (replicate 16 1) (replicate 32 (of_nat n)))"

lemma demo_authenticate: "authenticate demo_export (demo_quinn n) c (replicate 16 1) [2] = (Inr (), [demo_auth c])"
  by (simp add: authenticate_def demo_export_def demo_quinn_def demo_auth_def Let_def)

lemma demo_connects:
  "tuic_connect demo_export (demo_quinn n) (\<lambda>_. Inr [[3]]) (\<lambda>_. True) (Inr ()) demo_tuic_config metrics_new =
     (Inr (demo_tuic n), [demo_auth n])"
proof -
  have "parse_cc (str ''cubic'') = (Cubic, False)" "relay_mode_parse (str ''native'') = Some Native" by code_simp+
  moreover have "tuic_handshake demo_export (demo_quinn n) (replicate 16 1) [2] False = (Inr n, [demo_auth n])"
    using demo_authenticate [of n n] by (simp add: tuic_handshake_def handshake_1rtt_def demo_quinn_def)
  ultimately show ?thesis
    by (simp add: tuic_connect_def demo_tuic_config_def demo_tuic_def client_quic_config_alpn_def client_crypto_def load_certs_def
        finish_client_config_def client_endpoint_def QUIC_MAX_UDP_PAYLOAD_SIZE_def Let_def)
qed

lemma demo_live: "live_conn demo_export (demo_quinn n) (demo_tuic c) =
    (if c = n then ((Inr n, demo_tuic n), []) else ((Inr n, demo_tuic n), [demo_auth n]))"
  using demo_authenticate [of n n]
  by (simp add: live_conn_def tuic_handshake_def handshake_1rtt_def demo_quinn_def demo_tuic_def)

theorem tuic_auth_first_witness:
  "\<exists>s. tuic_run demo_export [(demo_quinn 1, Drive Connects), (demo_quinn 2, OpenTcp (DomainPort [65] 80))] (demo_tuic 1, driver_new) =
     Some (s, [demo_auth 2, ConnectSent 2 (encode_connect (DomainPort [65] 80))]) \<and>
   (\<exists>token. demo_export 2 (tc_uuid demo_tuic_config) (tc_password demo_tuic_config) = Some token \<and>
      AuthSent 2 (encode_authenticate (tc_uuid demo_tuic_config) token) \<in> set [demo_auth 1, demo_auth 2])"
proof -
  have "q_bi (demo_quinn n) c b = StreamOk" "q_bi_in_time (demo_quinn n)" for n c b by (simp_all add: demo_quinn_def)
  then have run: "\<exists>s. tuic_run demo_export [(demo_quinn 1, Drive Connects), (demo_quinn 2, OpenTcp (DomainPort [65] 80))] (demo_tuic 1, driver_new) =
     Some (s, [demo_auth 2, ConnectSent 2 (encode_connect (DomainPort [65] 80))])"
    by (simp add: driver_new_def demo_live tuic_open_tcp_def Let_def)
  then obtain s where s: "tuic_run demo_export [(demo_quinn 1, Drive Connects), (demo_quinn 2, OpenTcp (DomainPort [65] 80))] (demo_tuic 1, driver_new) =
     Some (s, [demo_auth 2, ConnectSent 2 (encode_connect (DomainPort [65] 80))])" ..
  have "[demo_auth 1] @ [demo_auth 2, ConnectSent 2 (encode_connect (DomainPort [65] 80))] =
      [demo_auth 1, demo_auth 2] @ ConnectSent 2 (encode_connect (DomainPort [65] 80)) # []" by simp
  from tuic_auth_first [OF demo_connects [of 1] s this] s show ?thesis by auto
qed

text \<open>
  C14. The downlink loses nothing without counting it. While the main loop holds its receiver, whatever else
  happens on the upstream, the channel carries exactly the datagrams and the readable streams, in the order
  in which they were received; at most 256 streams are read at a time; and every stream the server opened is
  still being read, was delivered as one packet, or is counted as a drop.
\<close>

theorem tuic_downlink_accounted:
  assumes "tuic_run export calls (u, driver_new) = Some ((u', d'), out)"
    "list_all (\<lambda>(q, call). call \<noteq> Drive ReceiverGone) calls"
  shows "dr_chan d' = concat (map (\<lambda>(q, call). call_delivers call) calls) \<and> length (dr_readers d') \<le> 256 \<and>
    (\<exists>k. udp_drops_down (up_metrics u') = udp_drops_down (up_metrics u) + of_nat k \<and>
       sum_list (map (\<lambda>(q, call). call_accepts call) calls) =
         length (dr_readers d') + sum_list (map (\<lambda>(q, call). call_packets call) calls) + k)"
proof -
  have f: "f \<circ> snd = (\<lambda>(q, call). f call)" for f :: "tuic_call \<Rightarrow> 'z" by auto
  from tuic_run_downlink [OF assms, unfolded f] show ?thesis by (simp add: driver_new_def MAX_CONCURRENT_DOWNLINK_STREAMS_def)
qed

theorem tuic_downlink_accounted_witness:
  "\<exists>u d out. tuic_run demo_export [(demo_quinn 1, Drive Connects), (demo_quinn 1, Drive (StreamIn (Some 7))),
       (demo_quinn 1, Drive (DatagramIn (Some [1]))), (demo_quinn 1, Drive (StreamRead 7 (Some [2, 3])))] (demo_tuic 1, driver_new) =
     Some ((u, d), out) \<and> dr_chan d = [[1], [2, 3]]"
proof -
  let ?calls = "[(demo_quinn 1, Drive Connects), (demo_quinn 1, Drive (StreamIn (Some 7))),
       (demo_quinn 1, Drive (DatagramIn (Some [1]))), (demo_quinn 1, Drive (StreamRead 7 (Some [2, 3])))]"
  have r: "read_uni_packet (Some [2, 3]) = Some [2, 3]" by (simp add: read_uni_packet_def MAX_TUIC_PACKET_BYTES_def)
  have "\<exists>u d out. tuic_run demo_export ?calls (demo_tuic 1, driver_new) = Some ((u, d), out)"
    by (simp add: driver_new_def demo_live on_stream_def on_datagram_def on_stream_read_def r MAX_CONCURRENT_DOWNLINK_STREAMS_def)
  then obtain u d out where run: "tuic_run demo_export ?calls (demo_tuic 1, driver_new) = Some ((u, d), out)" by blast
  from tuic_downlink_accounted [OF run] have "dr_chan d = [[1], [2, 3]]" by (simp add: r)
  with run show ?thesis by blast
qed

text \<open>
  C18. The driver comes back. When its connection breaks, then after every number of attempts that fail it
  sleeps half a second doubled once per failure and never longer than thirty seconds, without losing a
  packet or a reader; and the first attempt that succeeds makes it serve again, on the connection all other
  callers use, with the back-off starting over.
\<close>

theorem driver_recovers:
  assumes "dr_phase d = Serving c l" "dr_attempt d = 0" "list_all (\<lambda>q. attempt_fails export q u) qs" "length qs < 2 ^ 32 - 1"
    "live_conn export q u = ((Inr c', u'), sent)"
  shows "\<exists>d1 o1 d2 o2. tuic_run export ((q0, Drive (DatagramIn None)) # retries qs) (u, d) = Some ((u, d1), o1) \<and>
      dr_phase d1 = Asleep (min (500 * 2 ^ length qs) 30000) \<and>
      tuic_run export ((q0, Drive (DatagramIn None)) # retries (qs @ [q])) (u, d) = Some ((u', d2), o2) \<and>
      dr_phase d2 = Serving c' False \<and> up_conn u' = c' \<and> dr_attempt d2 = 0 \<and> dr_chan d2 = dr_chan d \<and> dr_readers d2 = dr_readers d"
proof -
  from broken_then_retries [OF assms(1-4)] obtain d1 o1 where r: "tuic_run export ((q0, Drive (DatagramIn None)) # retries qs) (u, d) = Some ((u, d1), o1)"
      "dr_phase d1 = Asleep (udp_reconnect_backoff (length qs))" "dr_readers d1 = dr_readers d" "dr_chan d1 = dr_chan d" by blast
  have "tuic_run export (((q0, Drive (DatagramIn None)) # retries qs) @ retries [q]) (u, d) =
      Some ((u', d1\<lparr> dr_phase := Serving c' False, dr_attempt := 0 \<rparr>), o1 @ sent)"
    unfolding tuic_run_append r(1) using wake_and_connect [OF r(2) assms(5)] by simp
  moreover have "udp_reconnect_backoff (length qs) = min (500 * 2 ^ length qs) 30000" using backoff_exact by blast
  moreover have "up_conn u' = c'" using live_conn_sends [OF assms(5)] by simp
  ultimately show ?thesis using r by (simp add: retries_append del: tuic_run.simps)
qed

theorem driver_recovers_witness:
  "\<exists>d2 o2. tuic_run demo_export ((demo_quinn 1, Drive (DatagramIn None)) #
       retries ([(demo_quinn 2)\<lparr> q_in_time := False \<rparr>] @ [demo_quinn 2])) (demo_tuic 1, driver_new\<lparr> dr_phase := Serving 1 False \<rparr>) =
     Some ((demo_tuic 2, d2), o2) \<and> dr_phase d2 = Serving 2 False"
proof -
  let ?d = "driver_new\<lparr> dr_phase := Serving 1 False \<rparr> :: nat driver" and ?q = "(demo_quinn 2)\<lparr> q_in_time := False \<rparr>"
  have d: "dr_phase ?d = Serving 1 False" "dr_attempt ?d = 0" by (simp_all add: driver_new_def)
  have "fst (fst (live_conn demo_export ?q (demo_tuic 1))) = Inl (Io ''tuic reconnect'')"
    by (simp add: live_conn_def demo_quinn_def demo_tuic_def split: prod.split)
  then have f: "list_all (\<lambda>q. attempt_fails demo_export q (demo_tuic 1)) [?q]" by (auto simp: attempt_fails_def)
  have l: "live_conn demo_export (demo_quinn 2) (demo_tuic 1) = ((Inr 2, demo_tuic 2), [demo_auth 2])" by (simp add: demo_live)
  from driver_recovers [OF d f _ l, of "demo_quinn 1"] show ?thesis by (simp del: tuic_run.simps) blast
qed

end
