(* ===== verification/LoopProfiler.thy ===== *)
theory LoopProfiler
  imports Prelude
begin

text \<open>
  The profiler of the main loop, \<^verbatim>\<open>src/loop_profiler.rs\<close>, and the places at which \<open>run_event_loop\<close> of
  \<^verbatim>\<open>src/client_tun.rs\<close> calls it. Instants and durations are nanoseconds; every callback that reads the clock has
  the reading as an argument. The percentages, which are rounded floating point numbers computed from a
  snapshot only to be printed, are not modelled.
\<close>

section \<open>Definitions\<close>

definition MIN_REPORT_WALL :: nat where "MIN_REPORT_WALL = 500000000"

record loop_profile_snapshot =
  ps_poll :: nat
  ps_relay :: nat
  ps_park :: nat
  ps_wall :: nat
  ps_iters :: u64

record loop_profiler =
  lp_period_start :: nat
  lp_poll :: nat
  lp_relay :: nat
  lp_park :: nat
  lp_iters :: u64
  lp_poll_mark :: "nat option"
  lp_relay_mark :: "nat option"
  lp_park_mark :: "nat option"

definition profiler_new :: "nat \<Rightarrow> loop_profiler" where
  "profiler_new now = \<lparr> lp_period_start = now, lp_poll = 0, lp_relay = 0, lp_park = 0, lp_iters = 0,
     lp_poll_mark = None, lp_relay_mark = None, lp_park_mark = None \<rparr>"

definition take_period :: "nat \<Rightarrow> loop_profiler \<Rightarrow> loop_profile_snapshot \<times> loop_profiler" where
  "take_period now p =
     (\<lparr> ps_poll = lp_poll p, ps_relay = lp_relay p, ps_park = lp_park p, ps_wall = now - lp_period_start p, ps_iters = lp_iters p \<rparr>,
      p\<lparr> lp_poll := 0, lp_relay := 0, lp_park := 0, lp_iters := 0, lp_period_start := now \<rparr>)"

definition enter_poll :: "nat \<Rightarrow> loop_profiler \<Rightarrow> loop_profiler" where
  "enter_poll now p = p\<lparr> lp_poll_mark := Some now \<rparr>"

definition leave_poll :: "nat \<Rightarrow> loop_profiler \<Rightarrow> loop_profiler" where
  "leave_poll now p =
     (case lp_poll_mark p of Some m \<Rightarrow> p\<lparr> lp_poll_mark := None, lp_poll := lp_poll p + (now - m) \<rparr> | None \<Rightarrow> p)"

definition enter_relay :: "nat \<Rightarrow> loop_profiler \<Rightarrow> loop_profiler" where
  "enter_relay now p = p\<lparr> lp_relay_mark := Some now \<rparr>"

definition leave_relay :: "nat \<Rightarrow> loop_profiler \<Rightarrow> loop_profiler" where
  "leave_relay now p =
     (case lp_relay_mark p of Some m \<Rightarrow> p\<lparr> lp_relay_mark := None, lp_relay := lp_relay p + (now - m) \<rparr> | None \<Rightarrow> p)"

definition loop_park_begin :: "nat \<Rightarrow> loop_profiler \<Rightarrow> loop_profiler" where
  "loop_park_begin now p = p\<lparr> lp_park_mark := Some now \<rparr>"

definition loop_park_end :: "nat \<Rightarrow> loop_profiler \<Rightarrow> loop_profiler" where
  "loop_park_end now p =
     (let p' = (case lp_park_mark p of Some m \<Rightarrow> p\<lparr> lp_park_mark := None, lp_park := lp_park p + (now - m) \<rparr> | None \<Rightarrow> p)
      in p'\<lparr> lp_iters := lp_iters p' + 1 \<rparr>)"

text \<open>\<open>report\<close>: what is printed, if anything.\<close>

definition profiler_report :: "nat \<Rightarrow> loop_profiler \<Rightarrow> loop_profile_snapshot option \<times> loop_profiler" where
  "profiler_report now p =
     (let (snap, p') = take_period now p in (if MIN_REPORT_WALL \<le> ps_wall snap then Some snap else None, p'))"

text \<open>
  The callbacks of one turn of the loop, by the arm of \<open>select!\<close> that runs, with their readings of the clock:
  the arms that poll the stack also run the relay section, one arm reports, and the others only mark where
  the waiting ends and begins.
\<close>

datatype arm_times =
    PollArm nat nat nat nat nat nat
  | ReportArm nat nat nat
  | OtherArm nat nat

fun profile_turn :: "arm_times \<Rightarrow> loop_profiler \<Rightarrow> loop_profile_snapshot option \<times> loop_profiler" where
  "profile_turn (PollArm t0 t1 t2 t3 t4 t5) p =
     (None, loop_park_begin t5 (leave_relay t4 (enter_relay t3 (leave_poll t2 (enter_poll t1 (loop_park_end t0 p))))))"
| "profile_turn (ReportArm t0 t1 t2) p =
     (let (printed, p') = profiler_report t1 (loop_park_end t0 p) in (printed, loop_park_begin t2 p'))"
| "profile_turn (OtherArm t0 t1) p = (None, loop_park_begin t1 (loop_park_end t0 p))"

fun profile_run :: "arm_times list \<Rightarrow> loop_profiler \<Rightarrow> loop_profile_snapshot option list \<times> loop_profiler" where
  "profile_run [] p = ([], p)"
| "profile_run (a # as) p =
     (let (x, p') = profile_turn a p; (xs, p'') = profile_run as p' in (x # xs, p''))"

section \<open>Properties\<close>

text \<open>The clock of the process does not go back.\<close>

fun readings :: "arm_times \<Rightarrow> nat list" where
  "readings (PollArm t0 t1 t2 t3 t4 t5) = [t0, t1, t2, t3, t4, t5]"
| "readings (ReportArm t0 t1 t2) = [t0, t1, t2]"
| "readings (OtherArm t0 t1) = [t0, t1]"

text \<open>
  Between two turns: no section is open but the waiting, which began by \<open>now\<close>, and what has been counted
  since the start of the period fits into it.
\<close>

definition profiler_ok :: "nat \<Rightarrow> nat \<Rightarrow> loop_profiler \<Rightarrow> bool" where
  "profiler_ok n now p \<longleftrightarrow> lp_poll_mark p = None \<and> lp_relay_mark p = None \<and> lp_iters p = of_nat n \<and>
     lp_period_start p \<le> now \<and>
     (case lp_park_mark p of
        None \<Rightarrow> lp_poll p + lp_relay p + lp_park p \<le> now - lp_period_start p
      | Some m \<Rightarrow> lp_period_start p \<le> m \<and> m \<le> now \<and> lp_poll p + lp_relay p + lp_park p \<le> m - lp_period_start p)"

lemmas profiler_simps = loop_park_begin_def loop_park_end_def enter_poll_def leave_poll_def enter_relay_def leave_relay_def
  profiler_report_def take_period_def Let_def

fun turns_since :: "arm_times \<Rightarrow> nat \<Rightarrow> nat" where
  "turns_since (ReportArm _ _ _) n = 0"
| "turns_since _ n = Suc n"

definition snapshot_ok :: "nat \<Rightarrow> loop_profile_snapshot \<Rightarrow> bool" where
  "snapshot_ok n s \<longleftrightarrow> ps_poll s + ps_relay s + ps_park s \<le> ps_wall s \<and> MIN_REPORT_WALL \<le> ps_wall s \<and> ps_iters s = of_nat n"

lemma profile_turn_ok:
  assumes "profiler_ok n now p" "sorted (now # readings a)" "profile_turn a p = (x, p')"
  shows "profiler_ok (turns_since a n) (last (readings a)) p' \<and> (\<forall>s. x = Some s \<longrightarrow> snapshot_ok (Suc n) s)"
  using assms
  by (cases a; cases "lp_park_mark p") (auto simp: profiler_ok_def snapshot_ok_def profiler_simps split: if_splits)

text \<open>The turns since the last report, when the \<open>i\<close>th turn ends.\<close>

fun turn_count :: "arm_times list \<Rightarrow> nat \<Rightarrow> nat \<Rightarrow> nat" where
  "turn_count (a # as) 0 n = Suc n"
| "turn_count (a # as) (Suc i) n = turn_count as i (turns_since a n)"
| "turn_count [] i n = n"

lemma profile_run_ok:
  "profiler_ok n now p \<Longrightarrow> sorted (now # concat (map readings as)) \<Longrightarrow> profile_run as p = (xs, p') \<Longrightarrow>
   i < length as \<Longrightarrow> xs ! i = Some s \<Longrightarrow> snapshot_ok (turn_count as i n) s"
proof (induction as arbitrary: n now p xs i)
  case (Cons a as)
  obtain x p1 where t: "profile_turn a p = (x, p1)" by fastforce
  obtain ys where r: "profile_run as p1 = (ys, p')" and xs: "xs = x # ys"
    using Cons.prems(3) t by (auto simp: Let_def split: prod.splits)
  have "sorted (now # readings a)" using Cons.prems(2) by (auto simp: sorted_append)
  note ok = profile_turn_ok [OF Cons.prems(1) this t]
  have "last (readings a) \<in> set (readings a)" by (cases a) auto
  then have "sorted (last (readings a) # concat (map readings as))" using Cons.prems(2) by (auto simp: sorted_append)
  from Cons.IH [OF conjunct1 [OF ok] this r] ok Cons.prems(4,5) xs show ?case by (cases i) auto
qed simp

text \<open>
  C39. The profile adds up. For every sequence of turns of the main loop and every clock that does not go back,
  each line the profiler prints accounts for a period of at least half a second: the time in the stack, the
  time in the relay section and the time spent waiting are disjoint parts of that period, so that their sum
  does not exceed it, and the number of iterations is the number of turns since the previous report.
\<close>

theorem profile_adds_up:
  assumes "sorted (start # concat (map readings as))" "profile_run as (profiler_new start) = (printed, p)"
    "i < length as" "printed ! i = Some s"
  shows "ps_poll s + ps_relay s + ps_park s \<le> ps_wall s \<and> 500000000 \<le> ps_wall s \<and> ps_iters s = of_nat (turn_count as i 0)"
proof -
  have "profiler_ok 0 start (profiler_new start)" by (simp add: profiler_ok_def profiler_new_def)
  from profile_run_ok [OF this assms] show ?thesis by (simp add: snapshot_ok_def MIN_REPORT_WALL_def)
qed

theorem profile_adds_up_witness:
  "let (printed, p) = profile_run [OtherArm 5 6, PollArm 10 11 20 21 30 31, ReportArm 600000000 600000001 600000002] (profiler_new 1)
   in printed = [None, None, Some \<lparr> ps_poll = 9, ps_relay = 9, ps_park = 599999973, ps_wall = 600000000, ps_iters = 3 \<rparr>] \<and>
      9 + 9 + 599999973 \<le> (600000000 :: nat)"
proof -
  let ?as = "[OtherArm 5 6, PollArm 10 11 20 21 30 31, ReportArm 600000000 600000001 600000002]"
  let ?s = "\<lparr> ps_poll = 9, ps_relay = 9, ps_park = 599999973, ps_wall = 600000000, ps_iters = 3 \<rparr>"
  obtain printed p where r: "profile_run ?as (profiler_new 1) = (printed, p)" by fastforce
  have run: "printed = [None, None, Some ?s]"
    using r by (auto simp: profiler_simps profiler_new_def MIN_REPORT_WALL_def)
  then have "printed ! 2 = Some ?s" by simp
  from profile_adds_up [OF _ r _ this] r run show ?thesis by simp
qed

end
