(* ===== verification/Harness.thy ===== *)
theory Harness
  imports Frag "HOL-Library.Multiset"
begin

text \<open>
  The stand-in server of \<^verbatim>\<open>src/harness.rs\<close>, for UDP: it echoes a packet, whole or cut into fragments the way a
  server in native mode does. (Above 255 fragments a debug build asserts; the definition is what a release
  build does.) The rest of that file drives the main loop under load for measurements and is not modelled.
\<close>

text \<open>\<open>payload.chunks(n)\<close>.\<close>

function chunks :: "nat \<Rightarrow> bytes \<Rightarrow> bytes list" where
  "chunks n b = (if n = 0 \<or> b = [] then [] else take n b # chunks n (drop n b))"
  by pat_completeness auto
termination
  by (relation "measure (\<lambda>(n, b). length b)") auto

declare chunks.simps [simp del]

definition downlink_frame :: "u16 \<Rightarrow> u8 \<Rightarrow> nat \<Rightarrow> bytes \<Rightarrow> bytes" where
  "downlink_frame assoc frag_total i data =
     [0x05, 0x02] @ be16 assoc @ be16 0 @ [frag_total, of_nat i] @ be16 (of_nat (length data)) @ [0xff] @ data"

definition fragment_downlink :: "u16 \<Rightarrow> bytes \<Rightarrow> nat \<Rightarrow> bytes list" where
  "fragment_downlink assoc payload chunk0 =
     (let chunk = max chunk0 1;
          cs = (if payload = [] then [payload] else chunks chunk payload);
          frag_total = of_nat (min (length cs) 255)
      in map (\<lambda>(i, data). downlink_frame assoc frag_total i data) (take 255 (enumerate 0 cs)))"

text \<open>\<open>MockUpstream::send_udp\<close>: what goes into the downlink channel, and the counter.\<close>

definition mock_send_udp :: "nat option \<Rightarrow> bytes \<Rightarrow> u64 \<Rightarrow> bytes list \<times> u64" where
  "mock_send_udp frag_chunk datagram udp_uplinks =
     (case frag_chunk of
        None \<Rightarrow> [datagram]
      | Some chunk \<Rightarrow> (case decode_packet datagram of None \<Rightarrow> [] | Some (assoc, payload) \<Rightarrow> fragment_downlink assoc payload chunk),
      udp_uplinks + 1)"

section \<open>Properties\<close>

lemma concat_chunks: "0 < n \<Longrightarrow> concat (chunks n b) = b"
  by (induction n b rule: chunks.induct) (subst chunks.simps, auto)

lemma chunks_length: "c \<in> set (chunks n b) \<Longrightarrow> length c \<le> length b"
proof (induction n b rule: chunks.induct)
  case (1 n b)
  have "chunks n b = (if n = 0 \<or> b = [] then [] else take n b # chunks n (drop n b))" by (rule chunks.simps)
  with 1(2) have "\<not> (n = 0 \<or> b = [])" "c = take n b \<or> c \<in> set (chunks n (drop n b))" by (auto split: if_splits)
  with 1(1) have "length c \<le> length b \<or> length c \<le> length (drop n b)" by auto
  then show ?case by auto
qed

lemma chunks_count: "0 < n \<Longrightarrow> length b \<le> k * n \<Longrightarrow> length (chunks n b) \<le> k"
proof (induction n b arbitrary: k rule: chunks.induct)
  case (1 n b)
  show ?case
  proof (cases "b = []")
    case False
    with 1(3) obtain k' where k: "k = Suc k'" by (cases k) auto
    with 1(3) have "length (drop n b) \<le> k' * n" by simp
    with 1(1) [of k'] 1(2) False k show ?thesis by (subst chunks.simps) simp
  qed (simp add: chunks.simps)
qed

lemma downlink_frame_decodes:
  assumes "length data < 65536"
  shows "decode_packet_meta (downlink_frame assoc tot i data) =
    Some \<lparr> pm_assoc_id = assoc, pm_pkt_id = 0, pm_frag_total = tot, pm_frag_id = of_nat i, pm_data = data \<rparr>"
proof -
  define b where "b = downlink_frame assoc tot i data"
  define n :: u16 where "n = of_nat (length data)"
  have n: "unat n = length data" using assms unfolding n_def by (intro unat_of_nat_small) simp
  have b: "b = [0x05, 0x02] @ be16 assoc @ be16 0 @ [tot, of_nat i] @ be16 n @ [0xff] @ data"
    by (simp add: b_def downlink_frame_def n_def)
  have "from_be16 (b ! 8) (b ! 9) = n" "from_be16 (b ! 2) (b ! 3) = assoc" "from_be16 (b ! 4) (b ! 5) = 0"
    "b ! 6 = tot" "b ! 7 = of_nat i" "drop 11 b = data" "length b = 11 + length data"
    unfolding b by (simp_all add: be16_def from_be16_be16) (simp add: from_be16_def)
  moreover have "address_len b 10 = Some 1"
    unfolding b by (simp add: be16_def address_len_def get_at_def tuic_consts)
  ultimately show ?thesis
    using n unfolding b_def [symmetric] decode_packet_meta_def Let_def by simp
qed

definition frames_of :: "u16 \<Rightarrow> bytes list \<Rightarrow> bytes list" where
  "frames_of assoc cs = map (\<lambda>i. downlink_frame assoc (of_nat (length cs)) i (cs ! i)) [0..<length cs]"

lemma fragment_downlink_frames:
  assumes "length payload \<le> 255 * max 1 chunk"
  obtains cs where "fragment_downlink assoc payload chunk = frames_of assoc cs" "concat cs = payload"
    "cs \<noteq> []" "length cs \<le> 255" "\<forall>c\<in>set cs. length c \<le> length payload"
proof
  let ?n = "max chunk 1"
  let ?cs = "if payload = [] then [payload] else chunks ?n payload"
  show cc: "concat ?cs = payload" using concat_chunks [of ?n payload] by (cases "payload = []") simp_all
  show "?cs \<noteq> []" using concat_chunks [of ?n payload] by (cases "payload = []") force+
  have "length payload \<le> 255 * ?n" using assms by (simp only: max.commute)
  then have "length (chunks ?n payload) \<le> 255" by (intro chunks_count) simp_all
  then show len: "length ?cs \<le> 255" by (cases "payload = []") simp_all
  show "\<forall>c\<in>set ?cs. length c \<le> length payload"
    using chunks_length [of _ ?n payload] by (cases "payload = []") auto
  show "fragment_downlink assoc payload chunk = frames_of assoc ?cs"
    unfolding fragment_downlink_def Let_def frames_of_def using len
    by (intro nth_equalityI) (auto simp: min_absorb1 nth_enumerate_eq)
qed

definition frame_meta :: "u16 \<Rightarrow> bytes list \<Rightarrow> nat \<Rightarrow> packet_meta" where
  "frame_meta assoc cs i =
     \<lparr> pm_assoc_id = assoc, pm_pkt_id = 0, pm_frag_total = of_nat (length cs), pm_frag_id = of_nat i, pm_data = cs ! i \<rparr>"

lemma frames_decode:
  assumes "\<forall>c\<in>set cs. length c < 65536"
  shows "map decode_packet_meta (frames_of assoc cs) = map (\<lambda>i. Some (frame_meta assoc cs i)) [0..<length cs]"
  using assms by (auto simp: frames_of_def frame_meta_def downlink_frame_decodes)

lemma frame_meta_chunk:
  assumes "length cs \<le> 255" "i < length cs"
  shows "chunk_of cs (assoc, 0) (frame_meta assoc cs i)" "unat (pm_frag_id (frame_meta assoc cs i)) = i"
proof -
  have "unat (of_nat i :: u8) = i" "unat (of_nat (length cs) :: u8) = length cs"
    using assms by (auto intro: unat_of_nat_small)
  then show "chunk_of cs (assoc, 0) (frame_meta assoc cs i)" "unat (pm_frag_id (frame_meta assoc cs i)) = i"
    using assms by (simp_all add: frame_meta_def chunk_of_def key_of_def)
qed

abbreviation of_packet :: "frag_key \<Rightarrow> (packet_meta \<times> nat) list \<Rightarrow> packet_meta list" where
  "of_packet k ms \<equiv> map fst (filter (\<lambda>(m, _). key_of m = k) ms)"

lemma reassemble_frames:
  assumes "frag_inv r" "fmlookup (fr_partials r) (assoc, 0) = None" "fmdom (fr_partials r) |\<subseteq>| K" "fcard K \<le> fr_cap r"
    "\<forall>(m, t)\<in>set (ms @ [(m1, t1)]). key_of m |\<in>| K" "key_of m1 = (assoc, 0)" "cs \<noteq> []" "length cs \<le> 255"
    "mset (of_packet (assoc, 0) (ms @ [(m1, t1)])) = mset (map (frame_meta assoc cs) [0..<length cs])"
  shows "fst (frag_accept m1 t1 (feed ms r)) = Some (concat cs)"
proof (cases "2 \<le> length cs")
  case False
  then obtain c where cs: "cs = [c]" using assms(7) by (cases cs) (auto simp: Suc_le_eq)
  have "set (of_packet (assoc, 0) (ms @ [(m1, t1)])) = {frame_meta assoc cs 0}"
    using mset_eq_setD [OF assms(9)] cs by simp
  then have "m1 = frame_meta assoc cs 0" using assms(6) by auto
  then show ?thesis by (simp add: frag_accept_def cs frame_meta_def)
next
  case True
  let ?k = "(assoc, 0) :: frag_key"
  have each: "chunk_of cs ?k m" if "(m, t) \<in> set (ms @ [(m1, t1)])" "key_of m = ?k" for m t
  proof -
    have "m \<in> set (of_packet ?k (ms @ [(m1, t1)]))" using that by force
    then have "m \<in> set (map (frame_meta assoc cs) [0..<length cs])" by (simp only: mset_eq_setD [OF assms(9)])
    then show ?thesis using frame_meta_chunk(1) [OF assms(8)] by auto
  qed
  have "chunk_ids ?k (ms @ [(m1, t1)]) = map (unat \<circ> pm_frag_id) (of_packet ?k (ms @ [(m1, t1)]))"
    unfolding chunk_ids_def by (simp only: map_map) (simp add: case_prod_beta)
  then have "mset (chunk_ids ?k (ms @ [(m1, t1)])) = mset (map (unat \<circ> pm_frag_id) (map (frame_meta assoc cs) [0..<length cs]))"
    by (simp only: mset_map [of "unat \<circ> pm_frag_id"] assms(9))
  also have "map (unat \<circ> pm_frag_id) (map (frame_meta assoc cs) [0..<length cs]) = [0..<length cs]"
    using frame_meta_chunk(2) [OF assms(8)] by (intro nth_equalityI) simp_all
  finally have ids: "mset (chunk_ids ?k (ms @ [(m1, t1)])) = mset [0..<length cs]" .
  show ?thesis
  proof (rule reassembly_correct [OF assms(1,2) True _ assms(6) _ _ assms(3,4)])
    show "distinct (chunk_ids ?k (ms @ [(m1, t1)]))" using mset_eq_imp_distinct_iff [OF ids] by simp
    show "set (chunk_ids ?k (ms @ [(m1, t1)])) = {..<length cs}" using mset_eq_setD [OF ids] by auto
    show "\<forall>(m, t)\<in>set (ms @ [(m1, t1)]). key_of m |\<in>| K \<and> (key_of m = ?k \<longrightarrow> chunk_of cs ?k m)"
      using each assms(5) by blast
  qed
qed

text \<open>
  C17. UDP through a fragmenting server is lossless. An uplink packet for any target, echoed by the server in
  fragments of any size that needs at most 255 of them, is decoded by the client frame by frame. Once
  its frames have all arrived, in any order, at any times and interleaved with arbitrary fragments and packets
  of others, the last one makes the reassembler return exactly the payload that was sent. No packet of
  that association may be in progress before, and the packets in play have to fit the cap.
\<close>

theorem fragmented_echo:
  assumes "frag_inv r" "fmlookup (fr_partials r) (assoc, 0) = None" "fmdom (fr_partials r) |\<subseteq>| K" "fcard K \<le> fr_cap r"
    "\<forall>(m, t)\<in>set (ms @ [(m1, t1)]). key_of m |\<in>| K" "key_of m1 = (assoc, 0)"
    "length payload < 65536" "length payload \<le> 255 * max 1 chunk"
    "mset (map Some (of_packet (assoc, 0) (ms @ [(m1, t1)]))) =
       mset (map decode_packet_meta (fst (mock_send_udp (Some chunk) (encode_packet assoc target payload) n)))"
  shows "fst (frag_accept m1 t1 (feed ms r)) = Some payload"
proof -
  obtain cs where cs: "fragment_downlink assoc payload chunk = frames_of assoc cs" "concat cs = payload"
    "cs \<noteq> []" "length cs \<le> 255" "\<forall>c\<in>set cs. length c \<le> length payload"
    using assms(8) by (rule fragment_downlink_frames)
  have "fst (mock_send_udp (Some chunk) (encode_packet assoc target payload) n) = frames_of assoc cs"
    using assms(7) cs(1) by (simp add: mock_send_udp_def decode_packet_def encode_packet_decodes)
  moreover have "map decode_packet_meta (frames_of assoc cs) = map Some (map (frame_meta assoc cs) [0..<length cs])"
    using frames_decode [of cs assoc] cs(5) assms(7) by fastforce
  ultimately have "image_mset Some (mset (of_packet (assoc, 0) (ms @ [(m1, t1)]))) =
      image_mset Some (mset (map (frame_meta assoc cs) [0..<length cs]))"
    using assms(9) by (simp only: mset_map [of Some])
  then have "mset (of_packet (assoc, 0) (ms @ [(m1, t1)])) = mset (map (frame_meta assoc cs) [0..<length cs])"
    by (rule injD [OF multiset.inj_map [OF inj_Some]])
  then show ?thesis using reassemble_frames [OF assms(1-6) cs(3,4)] cs(2) by simp
qed

text \<open>Three fragments of a five-byte payload, delivered last first, and a fragment of another packet between them.\<close>

theorem fragmented_echo_witness:
  "fst (frag_accept (frame_meta 9 [[1, 2], [3, 4], [5]] 0) 12
     (feed [(frame_meta 9 [[1, 2], [3, 4], [5]] 2, 10), (frame_meta 8 [[6], [7]] 1, 10), (frame_meta 9 [[1, 2], [3, 4], [5]] 1, 11)]
       (frag_with_cap 4))) = Some [1, 2, 3, 4, 5]"
proof -
  have chunked: "chunks (Suc (Suc 0)) [1, 2, 3, 4, 5] = [[1, 2], [3, 4], [5 :: u8]]" by (simp add: chunks.simps)
  have "fragment_downlink 9 [1, 2, 3, 4, 5] 2 = frames_of 9 [[1, 2], [3, 4], [5]]"
    by (simp add: fragment_downlink_def Let_def chunked frames_of_def upt_rec)
  then have "map decode_packet_meta (fst (mock_send_udp (Some 2) (encode_packet 9 (DomainPort (str ''a.b'') 53) [1, 2, 3, 4, 5]) 0)) =
    map (\<lambda>i. Some (frame_meta 9 [[1, 2], [3, 4], [5]] i)) [0, 1, 2]"
    using frames_decode [of "[[1, 2], [3, 4], [5]]" 9]
    by (simp add: mock_send_udp_def decode_packet_def encode_packet_decodes numeral_2_eq_2)
  moreover have key: "key_of (frame_meta a cs i) = (a, 0)" for a cs i by (simp add: frame_meta_def key_of_def)
  ultimately show ?thesis
    using frag_with_cap_inv [of 4]
    by (intro fragmented_echo [where assoc = 9 and chunk = 2 and target = "DomainPort (str ''a.b'') 53" and n = 0 and K = "{|(8, 0), (9, 0)|}"])
      (simp_all add: frag_with_cap_def add_mset_commute fcard.rep_eq key)
qed

end
