(* ===== verification/Device.thy ===== *)
theory Device
  imports Shared
begin

text \<open>
  The TUN device of \<^verbatim>\<open>src/device.rs\<close>: a one-packet receive slot and a transmit queue between the
  operating system's device and the TCP stack. The two variants the code compiles to differ by a
  four-byte header in front of every packet; \<open>macos\<close> says which one is meant. The operating system's
  device is a parameter: what a read returns, and how each write ends.
\<close>

definition UTUN_IPV4_HEADER :: bytes where
  "UTUN_IPV4_HEADER = [0, 0, 0, 2]"

record tun_device =
  dev_mtu :: nat
  rx_buffer :: "bytes option"
  tx_queue :: "bytes list"

definition device_new :: "nat \<Rightarrow> tun_device" where
  "device_new mtu = \<lparr> dev_mtu = mtu, rx_buffer = None, tx_queue = [] \<rparr>"

definition tun_packet_header_len :: "bool \<Rightarrow> nat" where
  "tun_packet_header_len macos = (if macos then length UTUN_IPV4_HEADER else 0)"

definition rx_buffer_capacity_for_mtu :: "bool \<Rightarrow> nat \<Rightarrow> nat" where
  "rx_buffer_capacity_for_mtu macos mtu = mtu + tun_packet_header_len macos"

text \<open>\<open>os_read cap\<close> is what the operating system's \<open>read\<close> puts into a buffer of \<open>cap\<close> bytes.\<close>

definition wait_for_rx :: "bool \<Rightarrow> (nat \<Rightarrow> bytes result) \<Rightarrow> tun_device \<Rightarrow> unit result \<times> tun_device" where
  "wait_for_rx macos os_read d =
     (case os_read (rx_buffer_capacity_for_mtu macos (dev_mtu d)) of
        Inl e \<Rightarrow> (Inl e, d)
      | Inr buf \<Rightarrow>
          if macos then
            (if length buf < length UTUN_IPV4_HEADER then (Inl (Io ''short utun packet''), d)
             else (Inr (), d\<lparr> rx_buffer := Some (drop (length UTUN_IPV4_HEADER) buf) \<rparr>))
          else (Inr (), d\<lparr> rx_buffer := Some buf \<rparr>))"

text \<open>
  The loop of \<open>flush_tx\<close>: \<open>os_write i\<close> is how the write of the \<open>i\<close>-th packet of the queue ends. The result,
  the packets written, and what stays in the queue; the packet whose write fails has left it.
\<close>

fun flush_queue :: "(nat \<Rightarrow> unit result) \<Rightarrow> nat \<Rightarrow> bytes list \<Rightarrow> unit result \<times> bytes list \<times> bytes list" where
  "flush_queue os_write i [] = (Inr (), [], [])"
| "flush_queue os_write i (packet # q) =
     (case os_write i of
        Inl e \<Rightarrow> (Inl e, [], q)
      | Inr _ \<Rightarrow> (let (r, ws, rest) = flush_queue os_write (Suc i) q in (r, packet # ws, rest)))"

definition flush_tx :: "(nat \<Rightarrow> unit result) \<Rightarrow> tun_device \<Rightarrow> unit result \<times> bytes list \<times> tun_device" where
  "flush_tx os_write d =
     (let (r, ws, rest) = flush_queue os_write 0 (tx_queue d) in (r, ws, d\<lparr> tx_queue := rest \<rparr>))"

definition push_injected :: "bool \<Rightarrow> bytes list \<Rightarrow> bytes \<Rightarrow> bytes list" where
  "push_injected macos queue pkt =
     (let framed = (if macos then UTUN_IPV4_HEADER else []) in queue @ [framed @ pkt])"

definition inject_ip_packet :: "bool \<Rightarrow> bytes \<Rightarrow> tun_device \<Rightarrow> tun_device" where
  "inject_ip_packet macos pkt d = d\<lparr> tx_queue := push_injected macos (tx_queue d) pkt \<rparr>"

definition rx_peek :: "tun_device \<Rightarrow> bytes option" where
  "rx_peek d = rx_buffer d"

definition rx_take :: "tun_device \<Rightarrow> bytes option \<times> tun_device" where
  "rx_take d = (rx_buffer d, d\<lparr> rx_buffer := None \<rparr>)"

text \<open>
  The side the TCP stack sees. \<open>receive\<close> hands out the packet of the receive slot; consuming a transmit
  token makes a zeroed buffer of the length asked for, lets the stack fill it with \<open>f\<close>, and queues it.
\<close>

definition receive :: "tun_device \<Rightarrow> bytes option \<times> tun_device" where
  "receive d = (rx_buffer d, d\<lparr> rx_buffer := None \<rparr>)"

definition tx_consume :: "bool \<Rightarrow> nat \<Rightarrow> (bytes \<Rightarrow> bytes) \<Rightarrow> tun_device \<Rightarrow> tun_device" where
  "tx_consume macos len f d =
     d\<lparr> tx_queue := tx_queue d @ [(if macos then [0, 0, 0, 2] else []) @ f (replicate len 0)] \<rparr>"

datatype checksum = ChecksumBoth | ChecksumTx

record device_capabilities =
  cap_mtu :: nat
  cap_ipv4 :: checksum
  cap_udp :: checksum
  cap_tcp :: checksum
  cap_icmpv4 :: checksum

definition device_capabilities_for_mtu :: "nat \<Rightarrow> device_capabilities" where
  "device_capabilities_for_mtu mtu =
     \<lparr> cap_mtu = mtu, cap_ipv4 = ChecksumTx, cap_udp = ChecksumBoth, cap_tcp = ChecksumTx,
       cap_icmpv4 = ChecksumTx \<rparr>"

section \<open>Properties\<close>

text \<open>What the loop writes is a prefix of the queue; at most the packet that fails is lost.\<close>

lemma flush_loop_spec:
  "flush_queue w i q = (r, ws, rest) \<Longrightarrow>
   (\<forall>j<length ws. w (i + j) = Inr ()) \<and>
   (case r of
      Inr _ \<Rightarrow> ws = q \<and> rest = []
    | Inl e \<Rightarrow> w (i + length ws) = Inl e \<and> (\<exists>lost. q = ws @ [lost] @ rest))"
proof (induction w i q arbitrary: r ws rest rule: flush_queue.induct)
  case (2 w i packet q)
  show ?case
  proof (cases "w i")
    case (Inl e)
    with "2.prems" have "r = Inl e" "ws = []" "rest = q" by auto
    with Inl show ?thesis by simp
  next
    case (Inr u)
    obtain r' ws' rest' where f: "flush_queue w (Suc i) q = (r', ws', rest')" by (metis prod_cases3)
    with Inr "2.prems" have e: "r = r'" "ws = packet # ws'" "rest = rest'" by auto
    have "\<forall>j<length ws. w (i + j) = Inr ()"
      using "2.IH" [OF Inr f] Inr by (auto simp: e less_Suc_eq_0_disj)
    with "2.IH" [OF Inr f] show ?thesis by (auto simp: e split: sum.splits)
  qed
qed simp

text \<open>The header a packet gets on its way out is the one a read takes off.\<close>

definition framed :: "bool \<Rightarrow> bytes \<Rightarrow> bytes" where
  "framed macos pkt = (if macos then UTUN_IPV4_HEADER else []) @ pkt"

lemma queue_framed:
  "tx_queue (inject_ip_packet macos pkt d) = tx_queue d @ [framed macos pkt]"
  "tx_queue (tx_consume macos len f d) = tx_queue d @ [framed macos (f (replicate len 0))]"
  by (simp_all add: inject_ip_packet_def push_injected_def tx_consume_def framed_def UTUN_IPV4_HEADER_def)

lemma read_framed:
  "wait_for_rx macos (\<lambda>cap. Inr (take cap (framed macos pkt))) d =
     (Inr (), d\<lparr> rx_buffer := Some (take (dev_mtu d) pkt) \<rparr>)"
  by (auto simp: wait_for_rx_def rx_buffer_capacity_for_mtu_def tun_packet_header_len_def framed_def
      UTUN_IPV4_HEADER_def)

text \<open>
  The queue of the device is first in, first out, on both platforms: after packets were injected by
  the main loop or filled by the TCP stack, a flush hands exactly them to the operating system in
  their order, or, if a write fails, the ones before it, losing only the packet that failed and keeping
  the rest queued; and a device that reads such a frame back finds the packet without its header, cut
  only by the MTU.
\<close>

lemma device_fifo:
  assumes "tx_queue d = []"
  shows "flush_tx os_write (fold (\<lambda>p d. if fst p then inject_ip_packet macos (snd p) d
             else tx_consume macos (length (snd p)) (\<lambda>_. snd p) d) ps d) = (r, written, d') \<Longrightarrow>
    (\<exists>lost. map (\<lambda>p. framed macos (snd p)) ps = written @ lost @ tx_queue d' \<and>
        length lost = (case r of Inl _ \<Rightarrow> 1 | Inr _ \<Rightarrow> 0) \<and> (r = Inr () \<longrightarrow> tx_queue d' = [])) \<and>
    (\<forall>p\<in>set ps. rx_peek (snd (wait_for_rx macos (\<lambda>cap. Inr (take cap (framed macos (snd p)))) d')) =
        Some (take (dev_mtu d') (snd p)))"
proof -
  let ?push = "\<lambda>p d. if fst p then inject_ip_packet macos (snd p) d
             else tx_consume macos (length (snd p)) (\<lambda>_. snd p) d"
  assume fl: "flush_tx os_write (fold ?push ps d) = (r, written, d')"
  have q: "tx_queue (fold ?push ps d) = tx_queue d @ map (\<lambda>p. framed macos (snd p)) ps" for ps d
    by (induction ps arbitrary: d) (simp_all add: queue_framed)
  let ?q = "map (\<lambda>p. framed macos (snd p)) ps"
  obtain rest where f: "flush_queue os_write 0 ?q = (r, written, rest)" and d': "tx_queue d' = rest"
    using fl assms by (auto simp: flush_tx_def q split: prod.splits)
  have "\<exists>lost. ?q = written @ lost @ rest \<and> length lost = (case r of Inl _ \<Rightarrow> 1 | Inr _ \<Rightarrow> 0) \<and>
      (r = Inr () \<longrightarrow> rest = [])"
  proof (cases r)
    case (Inl e)
    with flush_loop_spec [OF f] obtain lost where "?q = written @ [lost] @ rest" by auto
    with Inl show ?thesis by (intro exI [of _ "[lost]"]) simp
  next
    case (Inr u)
    with flush_loop_spec [OF f] show ?thesis by (intro exI [of _ "[]"]) simp
  qed
  then show ?thesis by (simp add: d' read_framed rx_peek_def)
qed

end
