(* ===== verification/Relay.thy ===== *)
theory Relay
  imports Shared "HOL-Library.Sublist"
begin

text \<open>
  The relay task of \<^verbatim>\<open>src/client_tun.rs\<close> (\<open>run_relay\<close>): the pump between the channel a listener slot
  fills and the stream to the remote side. One round of its \<open>select!\<close> is a function of the arm that is
  ready and of how the operations of that arm end; the stream and the channel back to the main loop are
  parameters of the round. The channel from the slot is a bounded queue that belongs to the task: the
  task is its only reader, so when the task has ended the channel is closed.
\<close>

section \<open>Definitions\<close>

type_synonym handle = nat

definition RELAY_CHANNEL_CAPACITY :: nat where "RELAY_CHANNEL_CAPACITY = 1024"
definition RELAY_IDLE_TIMEOUT :: nat where "RELAY_IDLE_TIMEOUT = 90"

record relay_task_diag =
  rd_uplink_bytes :: u64
  rd_remote_to_global_rx_bytes :: u64
  rd_remote_reads :: u64
  rd_local_writes :: u64
  rd_global_rx_wait_max_micros :: nat
  rd_global_rx_pressure_events :: u64

definition relay_diag_new :: relay_task_diag where
  "relay_diag_new =
     \<lparr> rd_uplink_bytes = 0, rd_remote_to_global_rx_bytes = 0, rd_remote_reads = 0, rd_local_writes = 0,
       rd_global_rx_wait_max_micros = 0, rd_global_rx_pressure_events = 0 \<rparr>"

definition note_uplink_write :: "nat \<Rightarrow> relay_task_diag \<Rightarrow> relay_task_diag" where
  "note_uplink_write n d =
     d\<lparr> rd_local_writes := rd_local_writes d + 1, rd_uplink_bytes := rd_uplink_bytes d + of_nat n \<rparr>"

definition note_remote_read :: "nat \<Rightarrow> relay_task_diag \<Rightarrow> relay_task_diag" where
  "note_remote_read n d =
     d\<lparr> rd_remote_reads := rd_remote_reads d + 1,
        rd_remote_to_global_rx_bytes := rd_remote_to_global_rx_bytes d + of_nat n \<rparr>"

definition note_global_rx_wait :: "nat \<Rightarrow> nat \<Rightarrow> relay_task_diag \<Rightarrow> relay_task_diag" where
  "note_global_rx_wait elapsed threshold d0 =
     (let d = d0\<lparr> rd_global_rx_wait_max_micros := max (rd_global_rx_wait_max_micros d0) elapsed \<rparr>
      in if elapsed \<ge> threshold
         then d\<lparr> rd_global_rx_pressure_events := rd_global_rx_pressure_events d + 1 \<rparr> else d)"

record 'r relay_task =
  rt_handle :: handle
  rt_stream :: 'r
  rt_rx :: "bytes list"
  rt_since :: nat
  rt_diag :: relay_task_diag
  rt_closed :: "(string \<times> string) option"

definition relay_new :: "handle \<Rightarrow> 'r \<Rightarrow> bytes list \<Rightarrow> nat \<Rightarrow> 'r relay_task" where
  "relay_new h stream rx now =
     \<lparr> rt_handle = h, rt_stream = stream, rt_rx = rx, rt_since = now, rt_diag = relay_diag_new, rt_closed = None \<rparr>"

text \<open>\<open>try_reserve\<close> of the sending side, and sending on the permit.\<close>

datatype reserve = Permit | ChanFull | ChanClosed

definition try_reserve :: "'r relay_task \<Rightarrow> reserve" where
  "try_reserve t =
     (if rt_closed t \<noteq> None then ChanClosed
      else if length (rt_rx t) < RELAY_CHANNEL_CAPACITY then Permit else ChanFull)"

definition permit_send :: "bytes \<Rightarrow> 'r relay_task \<Rightarrow> 'r relay_task" where
  "permit_send payload t = t\<lparr> rt_rx := rt_rx t @ [payload] \<rparr>"

text \<open>
  The arms: \<open>rx.recv()\<close> with the outcome of \<open>write_all\<close>; \<open>stream.read\<close> with the bytes read (none at the end of
  the stream) or its error, the time spent waiting for the channel to the main loop and whether that
  channel took the message; the idle timer.
\<close>

datatype relay_input =
    LocalReady "unit result"
  | RemoteReady "bytes result" nat bool
  | IdleFired

definition relay_close :: "string \<Rightarrow> string \<Rightarrow> 'r relay_task \<Rightarrow> 'r relay_task" where
  "relay_close dir reason t = t\<lparr> rt_closed := Some (dir, reason) \<rparr>"

text \<open>
  One round at time \<open>now\<close>; \<open>sender\<close> says whether the slot still holds its sender. The result is what was
  written to the stream and sent to the main loop; \<open>None\<close> if the arm is not ready. Every round starts a
  new timer.
\<close>

fun run_relay :: "nat \<Rightarrow> bool \<Rightarrow> relay_input \<Rightarrow> 'r relay_task \<Rightarrow>
    (bytes list \<times> (handle \<times> bytes) list \<times> 'r relay_task) option" where
  "run_relay now sender (LocalReady wr) t =
     (case rt_rx t of
        payload # q \<Rightarrow>
          (let t' = t\<lparr> rt_rx := q, rt_since := now \<rparr> in
           case wr of
             Inr _ \<Rightarrow> Some ([payload], [], t'\<lparr> rt_diag := note_uplink_write (length payload) (rt_diag t') \<rparr>)
           | Inl _ \<Rightarrow> Some ([], [], relay_close ''local_to_remote'' ''remote_write_failed'' t'))
      | [] \<Rightarrow> if sender then None
              else Some ([], [], relay_close ''local_to_remote'' ''local_channel_closed'' t))"
| "run_relay now sender (RemoteReady rd waited accepted) t =
     (case rd of
        Inl _ \<Rightarrow> Some ([], [], relay_close ''remote_to_local'' ''remote_read_failed'' t)
      | Inr data \<Rightarrow>
          if data = [] then
            (if accepted then Some ([], [(rt_handle t, [])], relay_close ''remote_to_local'' ''remote_eof'' t)
             else Some ([], [], relay_close ''remote_to_local'' ''global_rx_closed_on_eof'' t))
          else
            (let t' = t\<lparr> rt_since := now,
                  rt_diag := note_global_rx_wait waited 5000 (note_remote_read (length data) (rt_diag t)) \<rparr>
             in if accepted then Some ([], [(rt_handle t, data)], t')
                else Some ([], [], relay_close ''remote_to_local'' ''global_rx_closed'' t')))"
| "run_relay now sender IdleFired t =
     (if now \<ge> rt_since t + RELAY_IDLE_TIMEOUT then Some ([], [], relay_close ''timer'' ''idle_timeout'' t)
      else None)"

section \<open>Runs of the task\<close>

text \<open>
  The life of a relay: the slot sends when it gets a permit, and the task makes rounds until it closes.
\<close>

datatype relay_op = Send bytes | Round nat bool relay_input

fun relay_op_step :: "relay_op \<Rightarrow> 'r relay_task \<Rightarrow> (bytes list \<times> (handle \<times> bytes) list \<times> 'r relay_task) option" where
  "relay_op_step (Send payload) t =
     (if try_reserve t = Permit then Some ([], [], permit_send payload t) else None)"
| "relay_op_step (Round now sender inp) t =
     (if rt_closed t = None then run_relay now sender inp t else None)"

fun relay_run :: "relay_op list \<Rightarrow> 'r relay_task \<Rightarrow> (bytes list \<times> (handle \<times> bytes) list \<times> 'r relay_task) option" where
  "relay_run [] t = Some ([], [], t)"
| "relay_run (x # xs) t =
     (case relay_op_step x t of
        None \<Rightarrow> None
      | Some (ws, bs, t') \<Rightarrow>
          (case relay_run xs t' of
             None \<Rightarrow> None
           | Some (ws', bs', t'') \<Rightarrow> Some (ws @ ws', bs @ bs', t'')))"

fun sent_in :: "relay_op \<Rightarrow> bytes list" where
  "sent_in (Send p) = [p]"
| "sent_in _ = []"

fun read_in :: "relay_op \<Rightarrow> bytes list" where
  "read_in (Round _ _ (RemoteReady (Inr d) _ True)) = [d]"
| "read_in _ = []"

abbreviation sent_by :: "relay_op list \<Rightarrow> bytes list" where "sent_by ops \<equiv> concat (map sent_in ops)"
abbreviation read_by :: "relay_op list \<Rightarrow> bytes list" where "read_by ops \<equiv> concat (map read_in ops)"

definition at_eof :: "'r relay_task \<Rightarrow> bool" where
  "at_eof t \<longleftrightarrow> rt_closed t = Some (''remote_to_local'', ''remote_eof'')"

text \<open>
  What one operation does, in every case: the slot's messages are written first in, first out; the chunks
  read go to the main loop unchanged; the empty message marks the end of the stream and nothing else.
\<close>

definition step_fifo :: "relay_op \<Rightarrow> 'r relay_task \<Rightarrow> bytes list \<Rightarrow> (handle \<times> bytes) list \<Rightarrow> 'r relay_task \<Rightarrow> bool" where
  "step_fifo x t ws bs t' \<longleftrightarrow>
     rt_closed t = None \<and> rt_handle t' = rt_handle t \<and> length (rt_rx t') \<le> RELAY_CHANNEL_CAPACITY \<and>
     bs = map (Pair (rt_handle t)) (read_in x) \<and>
     (\<exists>lost. rt_rx t @ sent_in x = ws @ lost @ rt_rx t' \<and> (rt_closed t' = None \<longrightarrow> lost = [])) \<and>
     (at_eof t' \<longleftrightarrow> [] \<in> set (read_in x)) \<and>
     rd_uplink_bytes (rt_diag t') = rd_uplink_bytes (rt_diag t) + of_nat (length (concat ws))"

lemma note_wait_uplink [simp]:
  "rd_uplink_bytes (note_global_rx_wait a b d) = rd_uplink_bytes d"
  "rd_uplink_bytes (note_remote_read n d) = rd_uplink_bytes d"
  "rd_uplink_bytes (note_uplink_write n d) = rd_uplink_bytes d + of_nat n"
  by (simp_all add: note_global_rx_wait_def note_remote_read_def note_uplink_write_def Let_def)

lemma round_fifo:
  assumes "run_relay now sender inp t = Some (ws, bs, t')" "rt_closed t = None"
    "length (rt_rx t) \<le> RELAY_CHANNEL_CAPACITY"
  shows "step_fifo (Round now sender inp) t ws bs t'"
proof (cases inp)
  case (LocalReady wr)
  with assms show ?thesis
    by (cases "rt_rx t"; cases wr)
      (auto simp: step_fifo_def relay_close_def at_eof_def Let_def split: if_splits)
next
  case (RemoteReady rd waited accepted)
  with assms show ?thesis
    by (cases rd; cases accepted) (auto simp: step_fifo_def relay_close_def at_eof_def Let_def split: if_splits)
next
  case IdleFired
  with assms show ?thesis
    by (auto simp: step_fifo_def relay_close_def at_eof_def split: if_splits)
qed

lemma relay_step_fifo:
  assumes "relay_op_step x t = Some (ws, bs, t')" "length (rt_rx t) \<le> RELAY_CHANNEL_CAPACITY"
  shows "step_fifo x t ws bs t'"
proof (cases x)
  case (Send p)
  with assms show ?thesis
    by (cases "rt_closed t") (auto simp: step_fifo_def try_reserve_def permit_send_def at_eof_def split: if_splits)
next
  case (Round now sender inp)
  with assms show ?thesis by (auto intro!: round_fifo split: if_splits)
qed

definition run_fifo :: "relay_op list \<Rightarrow> 'r relay_task \<Rightarrow> bytes list \<Rightarrow> (handle \<times> bytes) list \<Rightarrow> 'r relay_task \<Rightarrow> bool" where
  "run_fifo ops t ws bs t' \<longleftrightarrow>
     rt_handle t' = rt_handle t \<and> length (rt_rx t') \<le> RELAY_CHANNEL_CAPACITY \<and>
     bs = map (Pair (rt_handle t)) (read_by ops) \<and>
     (\<exists>lost. rt_rx t @ sent_by ops = ws @ lost @ rt_rx t' \<and> (rt_closed t' = None \<longrightarrow> lost = [])) \<and>
     [] \<notin> set (butlast (read_by ops)) \<and> (at_eof t' \<longleftrightarrow> [] \<in> set (read_by ops)) \<and>
     rd_uplink_bytes (rt_diag t') = rd_uplink_bytes (rt_diag t) + of_nat (length (concat ws))"

lemma closed_run: "relay_run ops t = Some (ws, bs, t') \<Longrightarrow> rt_closed t \<noteq> None \<Longrightarrow> ops = []"
  by (cases ops; cases "hd ops") (auto simp: try_reserve_def split: option.splits if_splits)

lemma relay_run_fifo:
  "relay_run ops t = Some (ws, bs, t') \<Longrightarrow> length (rt_rx t) \<le> RELAY_CHANNEL_CAPACITY \<Longrightarrow>
   rt_closed t = None \<Longrightarrow> run_fifo ops t ws bs t'"
proof (induction ops arbitrary: t ws bs t')
  case Nil
  then show ?case by (simp add: run_fifo_def at_eof_def)
next
  case (Cons x ops)
  then obtain ws1 bs1 t1 ws2 bs2 where st: "relay_op_step x t = Some (ws1, bs1, t1)"
    and rest: "relay_run ops t1 = Some (ws2, bs2, t')" and r: "ws = ws1 @ ws2" "bs = bs1 @ bs2"
    by (auto split: option.splits)
  note one = relay_step_fifo [OF st Cons.prems(2), unfolded step_fifo_def]
  show ?case
  proof (cases "rt_closed t1")
    case None
    with one Cons.IH [OF rest] have two: "run_fifo ops t1 ws2 bs2 t'" by blast
    have q: "rt_rx t @ sent_in x = ws1 @ rt_rx t1" and e: "[] \<notin> set (read_in x)"
      using one None by (auto simp: at_eof_def)
    from e have "[] \<notin> set (butlast (read_by (x # ops)))" "[] \<in> set (read_by (x # ops)) \<longleftrightarrow> [] \<in> set (read_by ops)"
      using two by (auto simp: run_fifo_def butlast_append dest: in_set_butlastD)
    moreover have "\<exists>lost. rt_rx t @ sent_by (x # ops) = ws @ lost @ rt_rx t' \<and> (rt_closed t' = None \<longrightarrow> lost = [])"
    proof -
      from two obtain lost where "rt_rx t1 @ sent_by ops = ws2 @ lost @ rt_rx t'" "rt_closed t' = None \<longrightarrow> lost = []"
        by (auto simp: run_fifo_def)
      moreover from q have "rt_rx t @ sent_in x @ sent_by ops = ws1 @ rt_rx t1 @ sent_by ops"
        by (metis append_assoc)
      ultimately show ?thesis by (auto simp: r)
    qed
    ultimately show ?thesis using one two by (auto simp: run_fifo_def r)
  next
    case (Some c)
    with closed_run [OF rest] have "ops = []" by simp
    moreover have "length (read_in x) \<le> 1" by (cases x rule: read_in.cases) auto
    ultimately show ?thesis using rest one
      by (cases "read_in x") (auto simp: run_fifo_def r)
  qed
qed

section \<open>Properties\<close>

text \<open>When the idle timer may close the relay: 90 seconds after the last round that moved data.\<close>

fun moves_data :: "relay_input \<Rightarrow> bool" where
  "moves_data (LocalReady _) = True"
| "moves_data (RemoteReady (Inr d) _ _) = (d \<noteq> [])"
| "moves_data _ = False"

fun last_active :: "nat \<Rightarrow> relay_op list \<Rightarrow> nat" where
  "last_active start [] = start"
| "last_active start (Round now _ inp # ops) = last_active (if moves_data inp then now else start) ops"
| "last_active start (Send _ # ops) = last_active start ops"

lemma idle_close:
  "relay_run ops t = Some (ws, bs, t') \<Longrightarrow> rt_closed t = None \<Longrightarrow>
   rt_closed t' = Some (''timer'', ''idle_timeout'') \<Longrightarrow>
   \<exists>pre now sender. ops = pre @ [Round now sender IdleFired] \<and> last_active (rt_since t) pre + 90 \<le> now"
proof (induction ops arbitrary: t ws bs t')
  case (Cons x ops)
  then obtain ws1 bs1 t1 ws2 bs2 where st: "relay_op_step x t = Some (ws1, bs1, t1)"
    and rest: "relay_run ops t1 = Some (ws2, bs2, t')"
    by (auto split: option.splits)
  show ?case
  proof (cases "rt_closed t1")
    case None
    from Cons.IH [OF rest None Cons.prems(3)] obtain pre now sender where
      ih: "ops = pre @ [Round now sender IdleFired]" "last_active (rt_since t1) pre + 90 \<le> now" by blast
    have "last_active (rt_since t) (x # pre) = last_active (rt_since t1) pre"
      using st None
      by (cases x rule: read_in.cases; auto simp: permit_send_def relay_close_def Let_def
          split: if_splits list.splits sum.splits)
    with ih show ?thesis by (intro exI [of _ "x # pre"]) auto
  next
    case (Some c)
    with closed_run [OF rest] rest Cons.prems(3) have "ops = []" "rt_closed t1 = Some (''timer'', ''idle_timeout'')"
      by auto
    with st Cons.prems(2) show ?thesis
      by (cases x rule: read_in.cases; auto simp: try_reserve_def permit_send_def relay_close_def Let_def
          RELAY_IDLE_TIMEOUT_def intro!: exI [of _ "[]"] split: if_splits list.splits sum.splits)
  qed
qed simp

text \<open>
  A relay moves bytes in both directions first in, first out. In every run of the task, from its
  start with the messages the slot has already queued: what has been written to the remote stream and
  what is still in the channel are, in order, exactly the messages the slot sent, as long as the
  relay is open, and when it has closed only messages from the end are missing, apart from one whose
  write failed; the channel never holds more than its capacity; every chunk read from the stream that
  the main loop's channel takes is sent to it unchanged, in order and under the slot's own handle; the
  empty message that makes the main loop tear the slot down is sent if and only if the stream ended,
  and nothing follows it; the relay closes itself for silence only 90 seconds after the last activity;
  and the byte counter of its closing report is the number of bytes written.
\<close>

lemma relay_pump:
  assumes "relay_run ops (relay_new h stream first now0) = Some (written, back, t)"
    "length first \<le> RELAY_CHANNEL_CAPACITY"
  shows "(\<exists>lost. first @ sent_by ops = written @ lost @ rt_rx t \<and> (rt_closed t = None \<longrightarrow> lost = [])) \<and>
    length (rt_rx t) \<le> RELAY_CHANNEL_CAPACITY \<and>
    back = map (Pair h) (read_by ops) \<and>
    [] \<notin> set (butlast (map snd back)) \<and> ([] \<in> set (map snd back) \<longleftrightarrow> at_eof t) \<and>
    (rt_closed t = Some (''timer'', ''idle_timeout'') \<longrightarrow>
      (\<exists>pre now sender. ops = pre @ [Round now sender IdleFired] \<and> last_active now0 pre + 90 \<le> now)) \<and>
    rd_uplink_bytes (rt_diag t) = of_nat (length (concat written))"
proof -
  have "run_fifo ops (relay_new h stream first now0) written back t"
    using assms by (intro relay_run_fifo) (simp_all add: relay_new_def)
  moreover have "rt_closed t = Some (''timer'', ''idle_timeout'') \<longrightarrow>
      (\<exists>pre now sender. ops = pre @ [Round now sender IdleFired] \<and> last_active now0 pre + 90 \<le> now)"
    using idle_close [OF assms(1)] by (simp add: relay_new_def)
  ultimately show ?thesis
    by (auto simp: run_fifo_def relay_new_def relay_diag_new_def comp_def map_butlast [symmetric])
qed

end
