(* ===== verification/Slots.thy ===== *)
theory Slots
  imports DnsBlock Metrics Device Relay
begin

text \<open>
  The listener slots of \<^verbatim>\<open>src/client_tun.rs\<close>: the registry that grows a pool of listening sockets per
  intercepted port, the context every slot keeps about its connection, and the handlers of the main
  loop that move a slot through its life: local activity, completion of a spawned handshake, bytes from
  the remote side, rearming, and the reaping of dead slots.

  The TCP stack (smoltcp) is the parameter \<open>api\<close>: a record of the socket operations the code calls, over a
  type \<open>'s\<close> of sockets, and the handle its socket set gives to a new socket. What the code relies on is
  \<open>tcp_contract\<close>. The upstream is a record of the answers of \<open>open_is_cheap\<close> and \<open>open_tcp\<close>, over a type
  \<open>'r\<close> of streams. A handler returns \<open>None\<close> where the code panics: on a handle that is not in the socket
  set, and where it unwraps an error of the stack. The field \<open>trace\<close> lists what the handlers do to the
  sockets, channels and tasks, in order.
\<close>

section \<open>The TCP stack and the upstream\<close>

datatype tcp_state =
    TcpClosed | TcpListen | TcpSynSent | TcpSynReceived | TcpEstablished | TcpFinWait1 | TcpFinWait2
  | TcpCloseWait | TcpClosing | TcpLastAck | TcpTimeWait

type_synonym ip_endpoint = "ip_addr \<times> u16"

record 's tcp_api =
  tcp_new :: 's
  tcp_listen :: "u16 \<Rightarrow> 's \<Rightarrow> 's option"
  tcp_abort :: "'s \<Rightarrow> 's"
  tcp_state_of :: "'s \<Rightarrow> tcp_state"
  tcp_is_active :: "'s \<Rightarrow> bool"
  tcp_can_recv :: "'s \<Rightarrow> bool"
  tcp_can_send :: "'s \<Rightarrow> bool"
  tcp_recv :: "'s \<Rightarrow> (bytes \<times> 's) option"
  tcp_send_slice :: "bytes \<Rightarrow> 's \<Rightarrow> (nat \<times> 's) option"
  tcp_local_endpoint :: "'s \<Rightarrow> ip_endpoint option"
  set_handle :: "(handle, 's) fmap \<Rightarrow> handle"

text \<open>
  What smoltcp documents: a closed socket can be told to listen on any port but 0 and then listens, while
  listening on port 0 is an error; a
  socket that can receive returns data; a send accepts at most what it is given; a socket set gives a
  new socket a handle that is not in use.
\<close>

definition tcp_contract :: "'s tcp_api \<Rightarrow> bool" where
  "tcp_contract api \<longleftrightarrow>
     (\<forall>s. tcp_listen api 0 s = None) \<and>
     (\<forall>port. port \<noteq> 0 \<longrightarrow> tcp_listen api port (tcp_new api) \<noteq> None) \<and>
     (\<forall>port s. port \<noteq> 0 \<longrightarrow> tcp_listen api port (tcp_abort api s) \<noteq> None) \<and>
     (\<forall>port s s'. tcp_listen api port s = Some s' \<longrightarrow> tcp_state_of api s' = TcpListen) \<and>
     (\<forall>s. tcp_can_recv api s \<longrightarrow> tcp_recv api s \<noteq> None) \<and>
     (\<forall>d s n s'. tcp_send_slice api d s = Some (n, s') \<longrightarrow> n \<le> length d) \<and>
     (\<forall>m. fmlookup m (set_handle api m) = None)"

record 'r upstream =
  open_is_cheap :: bool
  open_tcp :: "handle \<Rightarrow> target_addr \<Rightarrow> 'r result"

section \<open>Slot contexts\<close>

datatype socket_state = Listening | OpeningRemote | HandshakePending | Relaying | SlotClosing | Rearming

record tcp_downlink_diag =
  dd_remote_to_global_rx_bytes :: u64
  dd_downlink_pending_high_water :: nat
  dd_send_slice_calls :: u64
  dd_send_slice_accepted_bytes :: u64
  dd_send_slice_zero :: u64
  dd_send_slice_errors :: u64
  dd_tun_flush_tx_calls :: u64
  dd_tun_flush_tx_failures :: u64

definition downlink_diag_new :: tcp_downlink_diag where
  "downlink_diag_new =
     \<lparr> dd_remote_to_global_rx_bytes = 0, dd_downlink_pending_high_water = 0, dd_send_slice_calls = 0,
       dd_send_slice_accepted_bytes = 0, dd_send_slice_zero = 0, dd_send_slice_errors = 0,
       dd_tun_flush_tx_calls = 0, dd_tun_flush_tx_failures = 0 \<rparr>"

definition note_pending :: "nat \<Rightarrow> tcp_downlink_diag \<Rightarrow> tcp_downlink_diag" where
  "note_pending pending d =
     d\<lparr> dd_downlink_pending_high_water := max (dd_downlink_pending_high_water d) pending \<rparr>"

definition note_remote_payload :: "nat \<Rightarrow> nat \<Rightarrow> tcp_downlink_diag \<Rightarrow> tcp_downlink_diag" where
  "note_remote_payload n pending d =
     note_pending pending (d\<lparr> dd_remote_to_global_rx_bytes := dd_remote_to_global_rx_bytes d + of_nat n \<rparr>)"

definition note_send_slice_ok :: "nat \<Rightarrow> nat \<Rightarrow> tcp_downlink_diag \<Rightarrow> tcp_downlink_diag" where
  "note_send_slice_ok accepted pending d =
     note_pending pending
       (d\<lparr> dd_send_slice_calls := dd_send_slice_calls d + 1,
           dd_send_slice_accepted_bytes := dd_send_slice_accepted_bytes d + of_nat accepted,
           dd_send_slice_zero := dd_send_slice_zero d + (if accepted = 0 then 1 else 0) \<rparr>)"

definition note_send_slice_error :: "tcp_downlink_diag \<Rightarrow> tcp_downlink_diag" where
  "note_send_slice_error d =
     d\<lparr> dd_send_slice_calls := dd_send_slice_calls d + 1, dd_send_slice_errors := dd_send_slice_errors d + 1 \<rparr>"

definition note_tun_flush :: "bool \<Rightarrow> tcp_downlink_diag \<Rightarrow> tcp_downlink_diag" where
  "note_tun_flush ok d =
     d\<lparr> dd_tun_flush_tx_calls := dd_tun_flush_tx_calls d + 1,
        dd_tun_flush_tx_failures := dd_tun_flush_tx_failures d + (if ok then 0 else 1) \<rparr>"

text \<open>\<open>uplink_tx\<close> is the sending end of a relay's channel; channels are numbered in the order of creation.\<close>

record socket_ctx =
  local_port :: u16
  slot_state :: socket_state
  uplink_tx :: "nat option"
  downlink_pending :: bytes
  slot_fake_ip :: "u32 option"
  conn_epoch :: u64
  uplink_buffer :: bytes
  downlink_diag :: tcp_downlink_diag

definition socket_ctx_new :: "u16 \<Rightarrow> socket_ctx" where
  "socket_ctx_new port =
     \<lparr> local_port = port, slot_state = Listening, uplink_tx = None, downlink_pending = [], slot_fake_ip = None,
       conn_epoch = 0, uplink_buffer = [], downlink_diag = downlink_diag_new \<rparr>"

definition MAX_UPLINK_BUFFER :: nat where "MAX_UPLINK_BUFFER = 256 * 1024"

definition buffer_uplink :: "bytes \<Rightarrow> socket_ctx \<Rightarrow> bool \<times> socket_ctx" where
  "buffer_uplink payload ctx =
     (if length (uplink_buffer ctx) + length payload > MAX_UPLINK_BUFFER then (False, ctx)
      else (True, ctx\<lparr> uplink_buffer := uplink_buffer ctx @ payload \<rparr>))"

section \<open>The state of the slots\<close>

definition MAX_INTERCEPTED_PORTS :: nat where "MAX_INTERCEPTED_PORTS = 64"
definition MAX_TOTAL_LISTENERS :: nat where "MAX_TOTAL_LISTENERS = 4096"
definition MIN_SPARE_LISTENERS :: nat where "MIN_SPARE_LISTENERS = 2"

datatype registry_error = Capped

record listener_registry =
  ports :: "(u16, handle list) fmap"
  pool_slots :: nat
  max_total :: nat
  total_listeners :: nat

definition registry_new :: "nat \<Rightarrow> listener_registry" where
  "registry_new n = \<lparr> ports = fmempty, pool_slots = n, max_total = MAX_TOTAL_LISTENERS, total_listeners = 0 \<rparr>"

datatype 'r action =
    LocalRecv handle bytes          \<comment> \<open>bytes taken from the socket of a slot\<close>
  | LocalSent handle bytes          \<comment> \<open>bytes its socket accepted\<close>
  | LocalLost handle bytes          \<comment> \<open>bytes discarded because the socket cannot send any more\<close>
  | UplinkSend nat bytes            \<comment> \<open>a message put into a relay's channel\<close>
  | UplinkLost handle bytes         \<comment> \<open>bytes taken from the socket and dropped\<close>
  | RemoteRecv handle bytes         \<comment> \<open>bytes from the remote side accepted for a slot\<close>
  | RelayStart handle nat 'r        \<comment> \<open>a relay task spawned for a slot, with its channel\<close>
  | HandshakeStart handle u64 target_addr
  | Rearmed handle string string
  | StreamWrite nat bytes           \<comment> \<open>a message the relay of a channel wrote to its stream\<close>
  | StreamRead nat bytes            \<comment> \<open>a chunk it read and sent to the main loop\<close>
  | TunWritten "bytes list"         \<comment> \<open>packets handed to the operating system\<close>

record ('s, 'r) slots =
  sockets :: "(handle, 's) fmap"
  socket_ctxs :: "(handle, socket_ctx) fmap"
  registry :: listener_registry
  fake_pool :: fake_ip_pool
  device :: tun_device
  loop_metrics :: metrics
  relays :: "(nat, 'r relay_task) fmap"
  next_chan :: nat
  handshakes :: "(handle \<times> u64 \<times> target_addr) list"
  trace :: "'r action list"

text \<open>What \<open>run_event_loop\<close> starts with.\<close>

definition slots_init :: "nat \<Rightarrow> nat \<Rightarrow> ('s, 'r) slots" where
  "slots_init n mtu =
     \<lparr> sockets = fmempty, socket_ctxs = fmempty, registry = registry_new n, fake_pool = pool_new,
       device = device_new mtu, loop_metrics = metrics_new, relays = fmempty, next_chan = 0, handshakes = [], trace = [] \<rparr>"

definition put_slot :: "handle \<Rightarrow> 's \<Rightarrow> socket_ctx \<Rightarrow> ('s, 'r) slots \<Rightarrow> ('s, 'r) slots" where
  "put_slot h s ctx st =
     st\<lparr> sockets := fmupd h s (sockets st), socket_ctxs := fmupd h ctx (socket_ctxs st) \<rparr>"

definition put_ctx :: "handle \<Rightarrow> socket_ctx \<Rightarrow> ('s, 'r) slots \<Rightarrow> ('s, 'r) slots" where
  "put_ctx h ctx st = st\<lparr> socket_ctxs := fmupd h ctx (socket_ctxs st) \<rparr>"

definition emit :: "'r action list \<Rightarrow> ('s, 'r) slots \<Rightarrow> ('s, 'r) slots" where
  "emit es st = st\<lparr> trace := trace st @ es \<rparr>"

section \<open>The registry\<close>

text \<open>\<open>build_listener_socket\<close>, \<open>sockets.add\<close> and the insertion of the new context.\<close>

definition build_listener_socket :: "'s tcp_api \<Rightarrow> u16 \<Rightarrow> 's option" where
  "build_listener_socket api port = tcp_listen api port (tcp_new api)"

definition add_listener ::
    "'s tcp_api \<Rightarrow> u16 \<Rightarrow> ('s, 'r) slots \<Rightarrow> (handle \<times> ('s, 'r) slots) option" where
  "add_listener api port st =
     (case build_listener_socket api port of
        None \<Rightarrow> None
      | Some s \<Rightarrow> (let h = set_handle api (sockets st) in Some (h, put_slot h s (socket_ctx_new port) st)))"

fun add_listeners ::
    "'s tcp_api \<Rightarrow> u16 \<Rightarrow> nat \<Rightarrow> ('s, 'r) slots \<Rightarrow> (handle list \<times> ('s, 'r) slots) option" where
  "add_listeners api port 0 st = Some ([], st)"
| "add_listeners api port (Suc n) st =
     (case add_listener api port st of
        None \<Rightarrow> None
      | Some (h, st1) \<Rightarrow> map_option (\<lambda>(hs, st2). (h # hs, st2)) (add_listeners api port n st1))"

definition ensure_port ::
    "'s tcp_api \<Rightarrow> u16 \<Rightarrow> ('s, 'r) slots \<Rightarrow>
     ((registry_error + unit) \<times> ('s, 'r) slots) option" where
  "ensure_port api port st =
     (let reg = registry st in
      if fmlookup (ports reg) port \<noteq> None then Some (Inr (), st)
      else if fcard (fmdom (ports reg)) \<ge> MAX_INTERCEPTED_PORTS then Some (Inl Capped, st)
      else case add_listeners api port (pool_slots reg) st of
             None \<Rightarrow> None
           | Some (hs, st1) \<Rightarrow>
               Some (Inr (), st1\<lparr> registry := reg\<lparr> ports := fmupd port hs (ports reg),
                                                   total_listeners := total_listeners reg + pool_slots reg \<rparr> \<rparr>))"

definition handles_for_port :: "u16 \<Rightarrow> listener_registry \<Rightarrow> handle list" where
  "handles_for_port port reg = (case fmlookup (ports reg) port of Some hs \<Rightarrow> hs | None \<Rightarrow> [])"

definition all_handles :: "listener_registry \<Rightarrow> handle list" where
  "all_handles reg = concat (map (\<lambda>port. handles_for_port port reg) (sorted_list_of_fset (fmdom (ports reg))))"

text \<open>The loop that adds listeners until the spare number is reached or the global cap.\<close>

fun add_spares ::
    "'s tcp_api \<Rightarrow> u16 \<Rightarrow> nat \<Rightarrow> ('s, 'r) slots \<Rightarrow>
     ((registry_error + unit) \<times> ('s, 'r) slots) option" where
  "add_spares api port 0 st = Some (Inr (), st)"
| "add_spares api port (Suc n) st =
     (if total_listeners (registry st) \<ge> max_total (registry st) then Some (Inl Capped, st)
      else case add_listener api port st of
             None \<Rightarrow> None
           | Some (h, st1) \<Rightarrow>
               (let reg = registry st1 in
                add_spares api port n
                  (st1\<lparr> registry := reg\<lparr> ports := fmupd port (handles_for_port port reg @ [h]) (ports reg),
                                          total_listeners := total_listeners reg + 1 \<rparr> \<rparr>)))"

definition listening_count :: "'s tcp_api \<Rightarrow> handle list \<Rightarrow> (handle, 's) fmap \<Rightarrow> nat option" where
  "listening_count api hs ss =
     (if list_all (\<lambda>h. fmlookup ss h \<noteq> None) hs
      then Some (length (filter (\<lambda>h. tcp_state_of api (the (fmlookup ss h)) = TcpListen) hs)) else None)"

definition ensure_spare_listeners ::
    "'s tcp_api \<Rightarrow> u16 \<Rightarrow> nat \<Rightarrow> ('s, 'r) slots \<Rightarrow>
     ((registry_error + unit) \<times> ('s, 'r) slots) option" where
  "ensure_spare_listeners api port min_spare st =
     (case fmlookup (ports (registry st)) port of
        None \<Rightarrow> Some (Inr (), st)
      | Some hs \<Rightarrow>
          (case listening_count api hs (sockets st) of
             None \<Rightarrow> None
           | Some listening \<Rightarrow>
               if listening \<ge> min_spare then Some (Inr (), st)
               else add_spares api port (min_spare - listening) st))"

section \<open>Rearming and flushing\<close>

definition rearm_socket :: "'s tcp_api \<Rightarrow> nat \<Rightarrow> 's \<Rightarrow> socket_ctx \<Rightarrow> fake_ip_pool \<Rightarrow> ('s \<times> socket_ctx \<times> fake_ip_pool) option" where
  "rearm_socket api now s ctx p =
     (let ctx1 = ctx\<lparr> slot_state := SlotClosing \<rparr>;
          s1 = tcp_abort api s;
          ctx2 = ctx1\<lparr> uplink_tx := None, downlink_pending := [], downlink_diag := downlink_diag_new,
                       uplink_buffer := [], conn_epoch := conn_epoch ctx1 + 1 \<rparr>;
          p' = (case slot_fake_ip ctx2 of Some ip \<Rightarrow> release ip now p | None \<Rightarrow> p);
          ctx3 = ctx2\<lparr> slot_fake_ip := None, slot_state := Rearming \<rparr>
      in case tcp_listen api (local_port ctx3) s1 of
           None \<Rightarrow> None
         | Some s2 \<Rightarrow> Some (s2, ctx3\<lparr> slot_state := Listening \<rparr>, p'))"

definition rearm_socket_with_reason ::
    "'s tcp_api \<Rightarrow> handle \<Rightarrow> nat \<Rightarrow> string \<Rightarrow> string \<Rightarrow> 's \<Rightarrow> socket_ctx \<Rightarrow>
     ('s, 'r) slots \<Rightarrow> ('s, 'r) slots option" where
  "rearm_socket_with_reason api h now direction reason s ctx st =
     map_option (\<lambda>(s', ctx', p'). emit [Rearmed h direction reason] ((put_slot h s' ctx' st)\<lparr> fake_pool := p' \<rparr>))
       (rearm_socket api now s ctx (fake_pool st))"

text \<open>Looking up the socket, which panics if it is missing, and rearming the slot if it has a context.\<close>

definition rearm_slot ::
    "'s tcp_api \<Rightarrow> handle \<Rightarrow> nat \<Rightarrow> string \<Rightarrow> string \<Rightarrow> ('s, 'r) slots \<Rightarrow> ('s, 'r) slots option" where
  "rearm_slot api h now direction reason st =
     (case fmlookup (sockets st) h of
        None \<Rightarrow> None
      | Some s \<Rightarrow>
          (case fmlookup (socket_ctxs st) h of
             None \<Rightarrow> Some st
           | Some ctx \<Rightarrow> rearm_socket_with_reason api h now direction reason s ctx st))"

definition flush_downlink ::
    "'s tcp_api \<Rightarrow> handle \<Rightarrow> 's \<Rightarrow> socket_ctx \<Rightarrow> ('s \<times> socket_ctx \<times> 'r action list) option" where
  "flush_downlink api h s ctx =
     (if downlink_pending ctx = [] then Some (s, ctx, [])
      else
        let pend = downlink_pending ctx;
            ctx1 = ctx\<lparr> downlink_diag := note_pending (length pend) (downlink_diag ctx) \<rparr>
        in if \<not> tcp_can_send api s then Some (s, ctx1, [])
           else case tcp_send_slice api pend s of
                  Some (n, s') \<Rightarrow>
                    if n = 0 then
                      Some (s', ctx1\<lparr> downlink_diag := note_send_slice_ok 0 (length pend) (downlink_diag ctx1) \<rparr>, [])
                    else if n > length pend then None
                    else Some (s', ctx1\<lparr> downlink_pending := drop n pend,
                                         downlink_diag := note_send_slice_ok n (length (drop n pend)) (downlink_diag ctx1) \<rparr>,
                               [LocalSent h (take n pend)])
                | None \<Rightarrow>
                    Some (s, ctx1\<lparr> downlink_pending := [],
                                   downlink_diag := note_pending 0 (note_send_slice_error (downlink_diag ctx1)) \<rparr>,
                          [LocalLost h pend]))"

definition flush_slot ::
    "'s tcp_api \<Rightarrow> handle \<Rightarrow> ('s, 'r) slots \<Rightarrow> ('s, 'r) slots option" where
  "flush_slot api h st =
     (case fmlookup (sockets st) h of
        None \<Rightarrow> None
      | Some s \<Rightarrow>
          (case fmlookup (socket_ctxs st) h of
             None \<Rightarrow> Some st
           | Some ctx \<Rightarrow>
               map_option (\<lambda>(s', ctx', es). emit es (put_slot h s' ctx' st)) (flush_downlink api h s ctx)))"

section \<open>Local activity\<close>

definition extract_socket_payload :: "'s tcp_api \<Rightarrow> 's \<Rightarrow> (bytes option \<times> 's) option" where
  "extract_socket_payload api s =
     (if \<not> tcp_can_recv api s then Some (None, s)
      else map_option (\<lambda>(data, s'). (Some data, s')) (tcp_recv api s))"

definition recv_slot ::
    "'s tcp_api \<Rightarrow> handle \<Rightarrow> ('s, 'r) slots \<Rightarrow> (bytes option \<times> ('s, 'r) slots) option" where
  "recv_slot api h st =
     (case fmlookup (sockets st) h of
        None \<Rightarrow> None
      | Some s \<Rightarrow>
          map_option (\<lambda>(payload, s').
              (payload, emit (case payload of Some p \<Rightarrow> [LocalRecv h p] | None \<Rightarrow> [])
                         (st\<lparr> sockets := fmupd h s' (sockets st) \<rparr>)))
            (extract_socket_payload api s))"

datatype target_resolve = Direct target_addr "u32 option" | Refuse | Block

definition target_from_endpoint :: "ip_endpoint \<Rightarrow> target_addr" where
  "target_from_endpoint ep = IpPort (fst ep) (snd ep)"

definition resolve_target :: "ip_endpoint \<Rightarrow> fake_ip_pool \<Rightarrow> target_resolve" where
  "resolve_target ep p =
     (if is_dns_relay_port (snd ep) then Block
      else case fst ep of
             V6 _ \<Rightarrow> Direct (target_from_endpoint ep) None
           | V4 v4 \<Rightarrow>
               if is_fake v4 p then
                 (case resolve v4 p of
                    Some domain \<Rightarrow>
                      if snd ep = 443 \<and> is_doh_domain domain then Block
                      else Direct (DomainPort domain (snd ep)) (Some v4)
                  | None \<Rightarrow> Refuse)
               else if snd ep = 443 \<and> is_doh_ip v4 then Block
               else Direct (target_from_endpoint ep) None)"

definition spawn_remote_relay ::
    "handle \<Rightarrow> 'r \<Rightarrow> nat \<Rightarrow> bytes list \<Rightarrow> nat \<Rightarrow> ('s, 'r) slots \<Rightarrow> ('s, 'r) slots" where
  "spawn_remote_relay h stream c rx now st =
     emit [RelayStart h c stream]
       (st\<lparr> loop_metrics := inc_relays_spawned (loop_metrics st), next_chan := Suc c,
            relays := fmupd c (relay_new h stream rx now) (relays st) \<rparr>)"

text \<open>\<open>try_send\<close> on a channel that was just created with \<open>rx\<close> in it and whose receiver is alive.\<close>

definition try_send_new :: "bytes \<Rightarrow> bytes list \<Rightarrow> bytes list option" where
  "try_send_new payload rx = (if length rx < RELAY_CHANNEL_CAPACITY then Some (rx @ [payload]) else None)"

definition acquire_for :: "u32 option \<Rightarrow> nat \<Rightarrow> handle \<Rightarrow> ('s, 'r) slots \<Rightarrow> ('s, 'r) slots" where
  "acquire_for fake_ip now h st =
     (case fake_ip of
        None \<Rightarrow> st
      | Some ip \<Rightarrow>
          st\<lparr> fake_pool := acquire ip now (fake_pool st),
              socket_ctxs := fmupd h ((the (fmlookup (socket_ctxs st) h))\<lparr> slot_fake_ip := Some ip \<rparr>) (socket_ctxs st) \<rparr>)"

text \<open>The cheap upstream: the remote side is opened in the main loop.\<close>

definition open_inline ::
    "'s tcp_api \<Rightarrow> 'r upstream \<Rightarrow> nat \<Rightarrow> handle \<Rightarrow> bytes \<Rightarrow> target_addr \<Rightarrow> u32 option \<Rightarrow> socket_ctx \<Rightarrow>
     ('s, 'r) slots \<Rightarrow> (unit result \<times> ('s, 'r) slots) option" where
  "open_inline api up now h payload target fake_ip ctx st =
     (let st1 = put_ctx h (ctx\<lparr> slot_state := OpeningRemote \<rparr>) st in
      case open_tcp up h target of
        Inl e \<Rightarrow> Some (Inl e, emit [UplinkLost h payload] st1)
      | Inr stream \<Rightarrow>
          (case try_send_new payload [] of
             None \<Rightarrow> map_option (Pair (Inr ())) (rearm_slot api h now ''local_to_remote'' ''initial_uplink_send_failed'' st1)
           | Some rx \<Rightarrow>
               (let c = next_chan st1;
                    st2 = emit [UplinkSend c payload]
                            (put_ctx h (ctx\<lparr> uplink_tx := Some c, slot_state := Relaying \<rparr>) st1)
                in Some (Inr (), spawn_remote_relay h stream c rx now (acquire_for fake_ip now h st2)))))"

text \<open>The expensive upstream: the handshake is spawned and its task recorded as in flight.\<close>

definition spawn_handshake ::
    "nat \<Rightarrow> handle \<Rightarrow> bytes \<Rightarrow> target_addr \<Rightarrow> u32 option \<Rightarrow> socket_ctx \<Rightarrow>
     ('s, 'r) slots \<Rightarrow> ('s, 'r) slots" where
  "spawn_handshake now h payload target fake_ip ctx st =
     (let epoch = conn_epoch ctx + 1;
          st1 = acquire_for fake_ip now h
                  (put_ctx h (ctx\<lparr> slot_state := HandshakePending, conn_epoch := epoch \<rparr>) st);
          (ok, ctx') = buffer_uplink payload (the (fmlookup (socket_ctxs st1) h));
          st2 = emit ((if ok then [] else [UplinkLost h payload]) @ [HandshakeStart h epoch target])
                  (put_ctx h ctx' st1)
      in st2\<lparr> handshakes := handshakes st2 @ [(h, epoch, target)] \<rparr>)"

definition handle_local_payload ::
    "'s tcp_api \<Rightarrow> 'r upstream \<Rightarrow> nat \<Rightarrow> handle \<Rightarrow> bytes \<Rightarrow> target_addr option \<Rightarrow> u32 option \<Rightarrow>
     ('s, 'r) slots \<Rightarrow> (unit result \<times> ('s, 'r) slots) option" where
  "handle_local_payload api up now h payload target fake_ip st =
     (case fmlookup (socket_ctxs st) h of
        None \<Rightarrow> Some (Inr (), st)
      | Some ctx \<Rightarrow>
          if slot_state ctx = HandshakePending then
            (let (ok, ctx') = buffer_uplink payload ctx in
             Some (Inr (), emit (if ok then [] else [UplinkLost h payload]) (put_ctx h ctx' st)))
          else
            (case target of
               None \<Rightarrow> Some (Inr (), emit [UplinkLost h payload] st)
             | Some tgt \<Rightarrow>
                 if open_is_cheap up then open_inline api up now h payload tgt fake_ip ctx st
                 else Some (Inr (), spawn_handshake now h payload tgt fake_ip ctx st)))"

text \<open>The first payload of a connection, and every payload that arrives before the relay runs.\<close>

definition first_payload ::
    "'s tcp_api \<Rightarrow> 'r upstream \<Rightarrow> nat \<Rightarrow> handle \<Rightarrow>
     ('s, 'r) slots \<Rightarrow> (unit result \<times> ('s, 'r) slots) option" where
  "first_payload api up now h st =
     (case recv_slot api h st of
        None \<Rightarrow> None
      | Some (None, st1) \<Rightarrow> Some (Inr (), st1)
      | Some (Some payload, st1) \<Rightarrow>
          (case Option.bind (fmlookup (sockets st1) h) (tcp_local_endpoint api) of
             None \<Rightarrow> Some (Inr (), emit [UplinkLost h payload] st1)
           | Some ep \<Rightarrow>
               (case resolve_target ep (fake_pool st1) of
                  Direct target fake_ip \<Rightarrow> handle_local_payload api up now h payload (Some target) fake_ip st1
                | Refuse \<Rightarrow> map_option (Pair (Inr ())) (rearm_slot api h now ''target'' ''fake_ip_refuse'' st1)
                | Block \<Rightarrow> map_option (Pair (Inr ())) (rearm_slot api h now ''policy'' ''encrypted_dns_block'' st1))))"

definition reserve_of :: "nat \<Rightarrow> ('s, 'r) slots \<Rightarrow> reserve" where
  "reserve_of c st = (case fmlookup (relays st) c of Some t \<Rightarrow> try_reserve t | None \<Rightarrow> ChanClosed)"

text \<open>A slot whose relay runs: with a permit in hand, its bytes go into the channel.\<close>

definition uplink_slot ::
    "'s tcp_api \<Rightarrow> handle \<Rightarrow> socket_ctx \<Rightarrow> nat \<Rightarrow> ('s, 'r) slots \<Rightarrow> ('s, 'r) slots option" where
  "uplink_slot api h ctx c st =
     (case recv_slot api h st of
        None \<Rightarrow> None
      | Some (None, st1) \<Rightarrow> Some st1
      | Some (Some payload, st1) \<Rightarrow>
          Some (emit [UplinkSend c payload]
            ((put_ctx h (ctx\<lparr> slot_state := Relaying \<rparr>) st1)
               \<lparr> relays := fmupd c (permit_send payload (the (fmlookup (relays st1) c))) (relays st1) \<rparr>)))"

definition process_listener_activity ::
    "'s tcp_api \<Rightarrow> 'r upstream \<Rightarrow> nat \<Rightarrow> handle \<Rightarrow>
     ('s, 'r) slots \<Rightarrow> (unit result \<times> ('s, 'r) slots) option" where
  "process_listener_activity api up now h st =
     (case flush_slot api h st of
        None \<Rightarrow> None
      | Some st1 \<Rightarrow>
          (case fmlookup (socket_ctxs st1) h of
             None \<Rightarrow> Some (Inr (), st1)
           | Some ctx \<Rightarrow>
               (case uplink_tx ctx of
                  Some c \<Rightarrow>
                    (case reserve_of c st1 of
                       Permit \<Rightarrow> map_option (Pair (Inr ())) (uplink_slot api h ctx c st1)
                     | ChanFull \<Rightarrow> Some (Inr (), st1)
                     | ChanClosed \<Rightarrow>
                         map_option (Pair (Inr ()))
                           (rearm_slot api h now ''local_to_remote'' ''uplink_channel_closed'' st1))
                | None \<Rightarrow> first_payload api up now h st1)))"

section \<open>Remote activity\<close>

text \<open>The completion of a spawned handshake.\<close>

definition handle_handshake_done ::
    "'s tcp_api \<Rightarrow> nat \<Rightarrow> handle \<Rightarrow> u64 \<Rightarrow> 'r result \<Rightarrow> ('s, 'r) slots \<Rightarrow> ('s, 'r) slots option" where
  "handle_handshake_done api now h epoch res st =
     (case fmlookup (socket_ctxs st) h of
        None \<Rightarrow> Some st
      | Some ctx \<Rightarrow>
          if conn_epoch ctx \<noteq> epoch then Some st
          else if slot_state ctx \<noteq> HandshakePending then Some st
          else
            (case res of
               Inl e \<Rightarrow> rearm_slot api h now ''remote_open'' ''handshake_failed'' st
             | Inr stream \<Rightarrow>
                 (let buffered = uplink_buffer ctx;
                      ctx1 = (if buffered = [] then ctx else ctx\<lparr> uplink_buffer := [] \<rparr>);
                      rx = (if buffered = [] then Some [] else try_send_new buffered [])
                  in case rx of
                       None \<Rightarrow> rearm_slot api h now ''local_to_remote'' ''handshake_buffer_flush_failed'' (put_ctx h ctx1 st)
                     | Some q \<Rightarrow>
                         (let c = next_chan st;
                              st1 = emit (map (UplinkSend c) q)
                                      (put_ctx h (ctx1\<lparr> uplink_tx := Some c, slot_state := Relaying \<rparr>) st)
                          in Some (spawn_remote_relay h stream c q now st1)))))"

text \<open>\<open>iface.poll\<close>: what the stack does with the device and the sockets is a parameter.\<close>

type_synonym 's poll_fun = "tun_device \<Rightarrow> (handle, 's) fmap \<Rightarrow> tun_device \<times> (handle, 's) fmap"

definition iface_poll :: "'s poll_fun \<Rightarrow> ('s, 'r) slots \<Rightarrow> ('s, 'r) slots" where
  "iface_poll poll st = (let (d, ss) = poll (device st) (sockets st) in st\<lparr> sockets := ss, device := d \<rparr>)"

definition device_flush ::
    "(nat \<Rightarrow> unit result) \<Rightarrow> ('s, 'r) slots \<Rightarrow> unit result \<times> ('s, 'r) slots" where
  "device_flush os_write st =
     (let (r, ws, d) = flush_tx os_write (device st) in (r, emit [TunWritten ws] (st\<lparr> device := d \<rparr>)))"

text \<open>The end of \<open>handle_remote_payload\<close>: the stack runs, its packets go out, and the flush is counted.\<close>

definition poll_and_flush ::
    "'s poll_fun \<Rightarrow> (nat \<Rightarrow> unit result) \<Rightarrow> handle \<Rightarrow> ('s, 'r) slots \<Rightarrow> unit result \<times> ('s, 'r) slots" where
  "poll_and_flush poll os_write h st =
     (let (r, st1) = device_flush os_write (iface_poll poll st)
      in (r, case fmlookup (socket_ctxs st1) h of
               None \<Rightarrow> st1
             | Some ctx \<Rightarrow>
                 put_ctx h (ctx\<lparr> downlink_diag := note_tun_flush (r = Inr ()) (downlink_diag ctx) \<rparr>) st1))"

definition handle_remote_payload ::
    "'s tcp_api \<Rightarrow> 's poll_fun \<Rightarrow> (nat \<Rightarrow> unit result) \<Rightarrow> nat \<Rightarrow> handle \<Rightarrow> bytes \<Rightarrow>
     ('s, 'r) slots \<Rightarrow> (unit result \<times> ('s, 'r) slots) option" where
  "handle_remote_payload api poll os_write now h payload st =
     (case fmlookup (sockets st) h of
        None \<Rightarrow> None
      | Some s \<Rightarrow>
          (case fmlookup (socket_ctxs st) h of
             None \<Rightarrow> Some (Inr (), st)
           | Some ctx \<Rightarrow>
               if payload = [] then
                 map_option (Pair (Inr ()))
                   (rearm_socket_with_reason api h now ''remote_to_local'' ''remote_eof'' s ctx st)
               else if uplink_tx ctx = None then Some (Inr (), st)
               else
                 (let pend = downlink_pending ctx @ payload;
                      ctx1 = ctx\<lparr> downlink_pending := pend,
                                  downlink_diag := note_remote_payload (length payload) (length pend) (downlink_diag ctx) \<rparr>
                  in case flush_downlink api h s ctx1 of
                       None \<Rightarrow> None
                     | Some (s', ctx2, es) \<Rightarrow>
                         Some (poll_and_flush poll os_write h
                           (emit (RemoteRecv h payload # es)
                             (put_slot h s' (ctx2\<lparr> slot_state := Relaying \<rparr>) st))))))"

section \<open>Reaping and reporting\<close>

definition slot_dead :: "'s tcp_api \<Rightarrow> 's \<Rightarrow> socket_ctx \<Rightarrow> bool" where
  "slot_dead api s ctx \<longleftrightarrow>
     slot_state ctx \<noteq> Listening \<and>
     (\<not> tcp_is_active api s \<or> tcp_state_of api s = TcpCloseWait \<or>
      (slot_state ctx = OpeningRemote \<and> uplink_tx ctx = None))"

fun reap_slots ::
    "'s tcp_api \<Rightarrow> nat \<Rightarrow> handle list \<Rightarrow> ('s, 'r) slots \<Rightarrow> (nat \<times> ('s, 'r) slots) option" where
  "reap_slots api now [] st = Some (0, st)"
| "reap_slots api now (h # hs) st =
     (case fmlookup (sockets st) h of
        None \<Rightarrow> None
      | Some s \<Rightarrow>
          (case fmlookup (socket_ctxs st) h of
             None \<Rightarrow> reap_slots api now hs st
           | Some ctx \<Rightarrow>
               if slot_dead api s ctx then
                 (case rearm_socket_with_reason api h now ''local'' ''dead_slot_reap'' s ctx st of
                    None \<Rightarrow> None
                  | Some st1 \<Rightarrow> map_option (\<lambda>(n, st2). (Suc n, st2)) (reap_slots api now hs st1))
               else reap_slots api now hs st))"

definition reap_dead_slots ::
    "'s tcp_api \<Rightarrow> nat \<Rightarrow> ('s, 'r) slots \<Rightarrow> (nat \<times> ('s, 'r) slots) option" where
  "reap_dead_slots api now st = reap_slots api now (all_handles (registry st)) st"

definition publish_gauges :: "u8 \<Rightarrow> ('s, 'r) slots \<Rightarrow> ('s, 'r) slots" where
  "publish_gauges leg st =
     (let hs = sorted_list_of_fset (fmdom (socket_ctxs st));
          active = length (filter (\<lambda>h. slot_state (the (fmlookup (socket_ctxs st) h)) = Relaying) hs);
          (tot, act) = pool_usage (fake_pool st)
      in st\<lparr> loop_metrics := set_failover_leg leg (set_fake_ip_gauges (of_nat tot) (of_nat act)
               (set_active_relays (of_nat active) (loop_metrics st))) \<rparr>)"

end
