(* ===== verification/SlotActs.thy ===== *)
theory SlotActs
  imports Slots
begin

text \<open>
  The elementary steps the slot handlers are made of. \<open>act\<close> is the abstract machine of the slots: it says
  which changes of a slot's context, of the channels and of the handshakes in flight can happen
  together, and what they add to the trace, but leaves open which socket does what. The lemmas of this
  theory show that every handler of \<open>Slots\<close> performs a sequence of such steps, so that an invariant of the
  steps is an invariant of the program.
\<close>

definition diag_counts :: "tcp_downlink_diag \<Rightarrow> u64 \<times> u64 \<times> u64" where
  "diag_counts d = (dd_remote_to_global_rx_bytes d, dd_send_slice_accepted_bytes d, dd_send_slice_errors d)"

definition rearmed_ctx :: "socket_ctx \<Rightarrow> socket_ctx" where
  "rearmed_ctx ctx =
     ctx\<lparr> slot_state := Listening, uplink_tx := None, downlink_pending := [], downlink_diag := downlink_diag_new,
          uplink_buffer := [], conn_epoch := conn_epoch ctx + 1, slot_fake_ip := None \<rparr>"

definition release_held :: "nat \<Rightarrow> socket_ctx \<Rightarrow> fake_ip_pool \<Rightarrow> fake_ip_pool" where
  "release_held now ctx p = (case slot_fake_ip ctx of Some ip \<Rightarrow> release ip now p | None \<Rightarrow> p)"

definition acquire_new :: "nat \<Rightarrow> u32 option \<Rightarrow> fake_ip_pool \<Rightarrow> fake_ip_pool" where
  "acquire_new now fake_ip p = (case fake_ip of Some ip \<Rightarrow> acquire ip now p | None \<Rightarrow> p)"

definition held_by :: "u32 option \<Rightarrow> socket_ctx \<Rightarrow> u32 option" where
  "held_by fake_ip ctx = (case fake_ip of Some ip \<Rightarrow> Some ip | None \<Rightarrow> slot_fake_ip ctx)"

text \<open>A slot before its relay runs.\<close>

definition unopened :: "socket_ctx \<Rightarrow> bool" where
  "unopened ctx \<longleftrightarrow> uplink_tx ctx = None \<and> slot_state ctx \<noteq> HandshakePending"

inductive act :: "('s, 'r) slots \<Rightarrow> ('s, 'r) slots \<Rightarrow> bool" where
  a_env: "fmdom ss = fmdom (sockets st) \<Longrightarrow> dev_mtu d = dev_mtu (device st) \<Longrightarrow>
    act st (emit (map TunWritten ws) (st\<lparr> sockets := ss, device := d, loop_metrics := m \<rparr>))"
| a_ctx: "fmlookup (socket_ctxs st) h = Some ctx \<Longrightarrow> diag_counts dg = diag_counts (downlink_diag ctx) \<Longrightarrow>
    b = slot_state ctx \<or> b = Relaying \<and> uplink_tx ctx \<noteq> None \<Longrightarrow>
    act st (put_ctx h (ctx\<lparr> slot_state := b, downlink_diag := dg \<rparr>) st)"
| a_sent: "fmlookup (socket_ctxs st) h = Some ctx \<Longrightarrow> fmlookup (sockets st) h \<noteq> None \<Longrightarrow> downlink_pending ctx = p @ q \<Longrightarrow>
    diag_counts dg = (case diag_counts (downlink_diag ctx) of (r, a, e) \<Rightarrow> (r, a + of_nat (length p), e)) \<Longrightarrow>
    act st (emit [LocalSent h p] (put_slot h s (ctx\<lparr> downlink_pending := q, downlink_diag := dg \<rparr>) st))"
| a_cleared: "fmlookup (socket_ctxs st) h = Some ctx \<Longrightarrow>
    diag_counts dg = (case diag_counts (downlink_diag ctx) of (r, a, e) \<Rightarrow> (r, a, e + 1)) \<Longrightarrow>
    act st (emit [LocalLost h (downlink_pending ctx)] (put_ctx h (ctx\<lparr> downlink_pending := [], downlink_diag := dg \<rparr>) st))"
| a_rearm: "fmlookup (socket_ctxs st) h = Some ctx \<Longrightarrow> fmlookup (sockets st) h \<noteq> None \<Longrightarrow>
    act st (emit [Rearmed h dir reason] ((put_slot h s (rearmed_ctx ctx) st)\<lparr> fake_pool := release_held now ctx (fake_pool st) \<rparr>))"
| a_uplink: "fmlookup (socket_ctxs st) h = Some ctx \<Longrightarrow> fmlookup (sockets st) h \<noteq> None \<Longrightarrow> uplink_tx ctx = Some c \<Longrightarrow>
    fmlookup (relays st) c = Some t \<Longrightarrow> try_reserve t = Permit \<Longrightarrow>
    act st (emit [LocalRecv h p, UplinkSend c p]
      ((put_slot h s (ctx\<lparr> slot_state := Relaying \<rparr>) st)\<lparr> relays := fmupd c (permit_send p t) (relays st) \<rparr>))"
| a_lost: "fmlookup (socket_ctxs st) h = Some ctx \<Longrightarrow> fmlookup (sockets st) h \<noteq> None \<Longrightarrow> uplink_tx ctx = None \<Longrightarrow>
    b = slot_state ctx \<or> b = OpeningRemote \<and> unopened ctx \<Longrightarrow>
    act st (emit [LocalRecv h p, UplinkLost h p] (put_slot h s (ctx\<lparr> slot_state := b \<rparr>) st))"
| a_buffer: "fmlookup (socket_ctxs st) h = Some ctx \<Longrightarrow> fmlookup (sockets st) h \<noteq> None \<Longrightarrow>
    uplink_tx ctx = None \<Longrightarrow> slot_state ctx = HandshakePending \<Longrightarrow>
    length (uplink_buffer ctx) + length p \<le> MAX_UPLINK_BUFFER \<Longrightarrow>
    act st (emit [LocalRecv h p] (put_slot h s (ctx\<lparr> uplink_buffer := uplink_buffer ctx @ p \<rparr>) st))"
| a_open: "fmlookup (socket_ctxs st) h = Some ctx \<Longrightarrow> fmlookup (sockets st) h \<noteq> None \<Longrightarrow> unopened ctx \<Longrightarrow>
    resolve_target ep (fake_pool st) = Direct tgt fip \<Longrightarrow>
    act st (spawn_remote_relay h stream (next_chan st) [p] now
      (emit [LocalRecv h p, UplinkSend (next_chan st) p]
        ((put_slot h s (ctx\<lparr> uplink_tx := Some (next_chan st), slot_state := Relaying, slot_fake_ip := held_by fip ctx \<rparr>) st)
           \<lparr> fake_pool := acquire_new now fip (fake_pool st) \<rparr>)))"
| a_spawn: "fmlookup (socket_ctxs st) h = Some ctx \<Longrightarrow> fmlookup (sockets st) h \<noteq> None \<Longrightarrow> unopened ctx \<Longrightarrow>
    resolve_target ep (fake_pool st) = Direct tgt fip \<Longrightarrow> e = conn_epoch ctx + 1 \<Longrightarrow>
    (es, buf) = (if length (uplink_buffer ctx) + length p \<le> MAX_UPLINK_BUFFER then ([], uplink_buffer ctx @ p)
                 else ([UplinkLost h p], uplink_buffer ctx)) \<Longrightarrow>
    act st (emit (LocalRecv h p # es @ [HandshakeStart h e tgt])
      ((put_slot h s (ctx\<lparr> slot_state := HandshakePending, conn_epoch := e, slot_fake_ip := held_by fip ctx, uplink_buffer := buf \<rparr>) st)
         \<lparr> fake_pool := acquire_new now fip (fake_pool st), handshakes := handshakes st @ [(h, e, tgt)] \<rparr>))"
| a_refused: "fmlookup (socket_ctxs st) h = Some ctx \<Longrightarrow> fmlookup (sockets st) h \<noteq> None \<Longrightarrow>
    act st (emit [LocalRecv h p, Rearmed h dir reason]
      ((put_slot h s (rearmed_ctx ctx) st)\<lparr> fake_pool := release_held now ctx (fake_pool st) \<rparr>))"
| a_stale: "handshakes st = xs @ (h, e, tgt) # ys \<Longrightarrow>
    (\<And>ctx. fmlookup (socket_ctxs st) h = Some ctx \<Longrightarrow> conn_epoch ctx \<noteq> e \<or> slot_state ctx \<noteq> HandshakePending) \<Longrightarrow>
    act st (st\<lparr> handshakes := xs @ ys \<rparr>)"
| a_failed: "handshakes st = xs @ (h, e, tgt) # ys \<Longrightarrow> fmlookup (socket_ctxs st) h = Some ctx \<Longrightarrow>
    fmlookup (sockets st) h \<noteq> None \<Longrightarrow> conn_epoch ctx = e \<Longrightarrow> slot_state ctx = HandshakePending \<Longrightarrow>
    act st (emit [Rearmed h dir reason]
      ((put_slot h s (rearmed_ctx ctx) st)\<lparr> fake_pool := release_held now ctx (fake_pool st), handshakes := xs @ ys \<rparr>))"
| a_installed: "handshakes st = xs @ (h, e, tgt) # ys \<Longrightarrow> fmlookup (socket_ctxs st) h = Some ctx \<Longrightarrow>
    conn_epoch ctx = e \<Longrightarrow> slot_state ctx = HandshakePending \<Longrightarrow>
    q = (if uplink_buffer ctx = [] then [] else [uplink_buffer ctx]) \<Longrightarrow>
    act st (spawn_remote_relay h stream (next_chan st) q now
      (emit (map (UplinkSend (next_chan st)) q)
        ((put_ctx h (ctx\<lparr> slot_state := Relaying, uplink_tx := Some (next_chan st), uplink_buffer := [] \<rparr>) st)
           \<lparr> handshakes := xs @ ys \<rparr>)))"
| a_remote: "fmlookup (socket_ctxs st) h = Some ctx \<Longrightarrow> uplink_tx ctx \<noteq> None \<Longrightarrow> p \<noteq> [] \<Longrightarrow>
    diag_counts dg = (case diag_counts (downlink_diag ctx) of (r, a, e) \<Rightarrow> (r + of_nat (length p), a, e)) \<Longrightarrow>
    act st (emit [RemoteRecv h p] (put_ctx h (ctx\<lparr> downlink_pending := downlink_pending ctx @ p, downlink_diag := dg \<rparr>) st))"
| a_relay: "fmlookup (relays st) c = Some t \<Longrightarrow> rt_closed t = None \<Longrightarrow> run_relay now sender inp t = Some (ws, bs, t') \<Longrightarrow>
    act st (emit (map (StreamWrite c) ws @ map (\<lambda>b. StreamRead c (snd b)) bs) (st\<lparr> relays := fmupd c t' (relays st) \<rparr>))"

text \<open>The registry adds slots and keeps its own books; nothing else does.\<close>

inductive grow :: "('s, 'r) slots \<Rightarrow> ('s, 'r) slots \<Rightarrow> bool" where
  g_listener: "fmlookup (sockets st) h = None \<Longrightarrow> port \<noteq> 0 \<Longrightarrow> grow st (put_slot h s (socket_ctx_new port) st)"
| g_registry: "grow st (st\<lparr> registry := reg \<rparr>)"

abbreviation grows :: "('s, 'r) slots \<Rightarrow> ('s, 'r) slots \<Rightarrow> bool" where "grows \<equiv> grow\<^sup>*\<^sup>*"

abbreviation acts :: "('s, 'r) slots \<Rightarrow> ('s, 'r) slots \<Rightarrow> bool" where "acts \<equiv> act\<^sup>*\<^sup>*"

lemmas act_trans = converse_rtranclp_into_rtranclp

section \<open>Normal forms of the updates\<close>

lemma slots_update_simps [simp]:
  "sockets (put_slot h s ctx st) = fmupd h s (sockets st)" "socket_ctxs (put_slot h s ctx st) = fmupd h ctx (socket_ctxs st)"
  "socket_ctxs (put_ctx h ctx st) = fmupd h ctx (socket_ctxs st)" "sockets (put_ctx h ctx st) = sockets st"
  "trace (emit es st) = trace st @ es" "sockets (emit es st) = sockets st" "socket_ctxs (emit es st) = socket_ctxs st"
  "trace (put_slot h s ctx st) = trace st" "trace (put_ctx h ctx st) = trace st"
  "registry (put_slot h s ctx st) = registry st" "registry (put_ctx h ctx st) = registry st" "registry (emit es st) = registry st"
  "fake_pool (put_slot h s ctx st) = fake_pool st" "fake_pool (put_ctx h ctx st) = fake_pool st" "fake_pool (emit es st) = fake_pool st"
  "device (put_slot h s ctx st) = device st" "device (put_ctx h ctx st) = device st" "device (emit es st) = device st"
  "loop_metrics (put_slot h s ctx st) = loop_metrics st" "loop_metrics (put_ctx h ctx st) = loop_metrics st" "loop_metrics (emit es st) = loop_metrics st"
  "relays (put_slot h s ctx st) = relays st" "relays (put_ctx h ctx st) = relays st" "relays (emit es st) = relays st"
  "next_chan (put_slot h s ctx st) = next_chan st" "next_chan (put_ctx h ctx st) = next_chan st" "next_chan (emit es st) = next_chan st"
  "handshakes (put_slot h s ctx st) = handshakes st" "handshakes (put_ctx h ctx st) = handshakes st" "handshakes (emit es st) = handshakes st"
  by (simp_all add: put_slot_def put_ctx_def emit_def)

lemma spawn_remote_relay_simps [simp]:
  "sockets (spawn_remote_relay h r c q now st) = sockets st"
  "socket_ctxs (spawn_remote_relay h r c q now st) = socket_ctxs st"
  "registry (spawn_remote_relay h r c q now st) = registry st"
  "fake_pool (spawn_remote_relay h r c q now st) = fake_pool st"
  "device (spawn_remote_relay h r c q now st) = device st"
  "handshakes (spawn_remote_relay h r c q now st) = handshakes st"
  "trace (spawn_remote_relay h r c q now st) = trace st @ [RelayStart h c r]"
  "next_chan (spawn_remote_relay h r c q now st) = Suc c"
  "relays (spawn_remote_relay h r c q now st) = fmupd c (relay_new h r q now) (relays st)"
  by (simp_all add: spawn_remote_relay_def)

lemma fmupd_twice [simp]: "fmupd k a (fmupd k b m) = fmupd k a m"
  by (rule fmap_ext) auto

lemma put_ctx_same: "fmlookup (socket_ctxs st) h = Some ctx \<Longrightarrow> put_ctx h ctx st = st"
  by (simp add: put_ctx_def fmupd_same)

lemma put_slot_ctx_same:
  "fmlookup (socket_ctxs st) h = Some ctx \<Longrightarrow> put_slot h s ctx st = st\<lparr> sockets := fmupd h s (sockets st) \<rparr>"
  by (simp add: put_slot_def fmupd_same)

section \<open>The handlers are sequences of steps\<close>

lemma acts_emit_Nil [simp]: "emit [] st = st"
  by (simp add: emit_def)

lemma acts_socket:
  assumes "fmlookup (sockets st) h \<noteq> None"
  shows "act st (st\<lparr> sockets := fmupd h s (sockets st) \<rparr>)"
proof -
  have "fmdom (fmupd h s (sockets st)) = fmdom (sockets st)"
    using assms by (simp add: finsert_absorb fmdom_member_iff)
  from a_env [OF this refl, of "[]" "loop_metrics st"] show ?thesis by simp
qed

lemma diag_counts_simps [simp]:
  "diag_counts (note_pending n d) = diag_counts d"
  "diag_counts (note_tun_flush ok d) = diag_counts d"
  "diag_counts (note_send_slice_ok k n d) = (case diag_counts d of (r, a, e) \<Rightarrow> (r, a + of_nat k, e))"
  "diag_counts (note_send_slice_error d) = (case diag_counts d of (r, a, e) \<Rightarrow> (r, a, e + 1))"
  "diag_counts (note_remote_payload k n d) = (case diag_counts d of (r, a, e) \<Rightarrow> (r + of_nat k, a, e))"
  by (simp_all add: diag_counts_def note_pending_def note_tun_flush_def note_send_slice_ok_def
      note_send_slice_error_def note_remote_payload_def)

lemma flush_downlink_eqs:
  fixes ctx :: socket_ctx
  defines "pend \<equiv> downlink_pending ctx"
  defines "dg \<equiv> note_pending (length pend) (downlink_diag ctx)"
  shows
    "pend = [] \<Longrightarrow> flush_downlink api h s ctx = Some (s, ctx, [])"
    "pend \<noteq> [] \<Longrightarrow> \<not> tcp_can_send api s \<Longrightarrow> flush_downlink api h s ctx = Some (s, ctx\<lparr> downlink_diag := dg \<rparr>, [])"
    "pend \<noteq> [] \<Longrightarrow> tcp_can_send api s \<Longrightarrow> tcp_send_slice api pend s = None \<Longrightarrow> flush_downlink api h s ctx =
       Some (s, ctx\<lparr> downlink_pending := [], downlink_diag := note_pending 0 (note_send_slice_error dg) \<rparr>, [LocalLost h pend])"
    "pend \<noteq> [] \<Longrightarrow> tcp_can_send api s \<Longrightarrow> tcp_send_slice api pend s = Some (0, s') \<Longrightarrow> flush_downlink api h s ctx =
       Some (s', ctx\<lparr> downlink_diag := note_send_slice_ok 0 (length pend) dg \<rparr>, [])"
    "pend \<noteq> [] \<Longrightarrow> tcp_can_send api s \<Longrightarrow> tcp_send_slice api pend s = Some (Suc n, s') \<Longrightarrow> flush_downlink api h s ctx =
       (if Suc n > length pend then None
        else Some (s', ctx\<lparr> downlink_pending := drop (Suc n) pend,
               downlink_diag := note_send_slice_ok (Suc n) (length pend - Suc n) dg \<rparr>, [LocalSent h (take (Suc n) pend)]))"
  by (simp_all add: flush_downlink_def Let_def pend_def dg_def)

lemma flush_downlink_acts:
  assumes fl: "flush_downlink api h s ctx = Some (s', ctx', es)"
    and s: "fmlookup (sockets st) h = Some s" and ctx: "fmlookup (socket_ctxs st) h = Some ctx"
  shows "acts st (emit es (put_slot h s' ctx' st))"
proof -
  let ?dg = "note_pending (length (downlink_pending ctx)) (downlink_diag ctx)"
  have same: "put_slot h s x st = put_ctx h x st" for x
    using s by (simp add: put_slot_def put_ctx_def fmupd_same)
  consider "downlink_pending ctx = []"
    | "downlink_pending ctx \<noteq> []" "\<not> tcp_can_send api s"
    | "downlink_pending ctx \<noteq> []" "tcp_can_send api s" "tcp_send_slice api (downlink_pending ctx) s = None"
    | s1 where "downlink_pending ctx \<noteq> []" "tcp_can_send api s" "tcp_send_slice api (downlink_pending ctx) s = Some (0, s1)"
    | n s1 where "downlink_pending ctx \<noteq> []" "tcp_can_send api s"
        "tcp_send_slice api (downlink_pending ctx) s = Some (Suc n, s1)"
    by (metis not0_implies_Suc option.exhaust surj_pair)
  then show ?thesis
  proof cases
    case 1
    with fl have "s' = s" "ctx' = ctx" "es = []" by (simp_all add: flush_downlink_eqs(1))
    then show ?thesis using ctx by (simp add: same put_ctx_same)
  next
    case 2
    with fl have "s' = s" "ctx' = ctx\<lparr> downlink_diag := ?dg \<rparr>" "es = []" by (simp_all add: flush_downlink_eqs(2))
    then show ?thesis using a_ctx [OF ctx, of ?dg "slot_state ctx"] by (simp add: same r_into_rtranclp)
  next
    case 3
    with fl have "s' = s" "es = [LocalLost h (downlink_pending ctx)]"
      "ctx' = ctx\<lparr> downlink_pending := [], downlink_diag := note_pending 0 (note_send_slice_error ?dg) \<rparr>" by (simp_all add: flush_downlink_eqs(3))
    then show ?thesis using a_cleared [OF ctx, of "note_pending 0 (note_send_slice_error ?dg)"]
      by (simp add: same r_into_rtranclp split: prod.splits)
  next
    case (4 s1)
    let ?st1 = "st\<lparr> sockets := fmupd h s1 (sockets st) \<rparr>"
    from fl 4 have r: "s' = s1" "es = []"
      "ctx' = ctx\<lparr> downlink_diag := note_send_slice_ok 0 (length (downlink_pending ctx)) ?dg \<rparr>" by (simp_all add: flush_downlink_eqs(4))
    have "act st ?st1" using s by (intro acts_socket) simp
    moreover have "act ?st1 (put_ctx h ctx' ?st1)"
      using a_ctx [of ?st1 h ctx "downlink_diag ctx'" "slot_state ctx"] ctx r by (simp split: prod.split)
    moreover have "put_ctx h ctx' ?st1 = put_slot h s1 ctx' st" by (simp add: put_ctx_def put_slot_def)
    ultimately have "acts st (put_slot h s1 ctx' st)"
      by (metis r_into_rtranclp rtranclp.rtrancl_into_rtrancl)
    then show ?thesis using r(1,2) by simp
  next
    case (5 n s1)
    from fl 5 have r: "s' = s1" "es = [LocalSent h (take (Suc n) (downlink_pending ctx))]"
      "ctx' = ctx\<lparr> downlink_pending := drop (Suc n) (downlink_pending ctx),
         downlink_diag := note_send_slice_ok (Suc n) (length (downlink_pending ctx) - Suc n) ?dg \<rparr>"
      "Suc n \<le> length (downlink_pending ctx)" by (simp_all add: flush_downlink_eqs(5) split: if_splits)
    then show ?thesis
      using a_sent [OF ctx, of "take (Suc n) (downlink_pending ctx)" "drop (Suc n) (downlink_pending ctx)"
          "downlink_diag ctx'" s1] s
      by (simp add: r_into_rtranclp min_absorb2 split: prod.split)
  qed
qed

lemma flush_slot_acts: "flush_slot api h st = Some st' \<Longrightarrow> acts st st'"
  by (auto simp: flush_slot_def intro: flush_downlink_acts split: option.splits)

lemma rearm_socket_eq:
  "rearm_socket api now s ctx p = Some (s', ctx', p') \<Longrightarrow> ctx' = rearmed_ctx ctx \<and> p' = release_held now ctx p"
  by (auto simp: rearm_socket_def rearmed_ctx_def release_held_def Let_def split: option.splits)

lemma rearm_with_reason_eq:
  "rearm_socket_with_reason api h now dir reason s ctx st = Some st' \<Longrightarrow>
   \<exists>s'. st' = emit [Rearmed h dir reason] ((put_slot h s' (rearmed_ctx ctx) st)\<lparr> fake_pool := release_held now ctx (fake_pool st) \<rparr>)"
  by (auto simp: rearm_socket_with_reason_def dest!: rearm_socket_eq)

lemma rearm_with_reason_act:
  assumes "rearm_socket_with_reason api h now dir reason s ctx st = Some st'"
    "fmlookup (sockets st) h \<noteq> None" "fmlookup (socket_ctxs st) h = Some ctx"
  shows "act st st'"
  using rearm_with_reason_eq [OF assms(1)] a_rearm [OF assms(3,2)] by blast

lemma rearm_slot_acts: "rearm_slot api h now dir reason st = Some st' \<Longrightarrow> acts st st'"
  by (auto simp: rearm_slot_def intro: rearm_with_reason_act split: option.splits)

lemma recv_slot_cases:
  assumes "recv_slot api h st = Some (r, st1)"
  obtains s s' where "fmlookup (sockets st) h = Some s" "r = None" "st1 = st\<lparr> sockets := fmupd h s' (sockets st) \<rparr>"
  | s s' p where "fmlookup (sockets st) h = Some s" "r = Some p"
      "st1 = emit [LocalRecv h p] (st\<lparr> sockets := fmupd h s' (sockets st) \<rparr>)"
  using assms
  by (cases r) (auto simp: recv_slot_def split: option.splits prod.splits)

lemma try_send_new_Nil [simp]: "try_send_new p [] = Some [p]"
  by (simp add: try_send_new_def RELAY_CHANNEL_CAPACITY_def)

lemma uplink_slot_acts:
  assumes "uplink_slot api h ctx c st = Some st'" "fmlookup (socket_ctxs st) h = Some ctx"
    "uplink_tx ctx = Some c" "reserve_of c st = Permit"
  shows "acts st st'"
proof -
  obtain t where t: "fmlookup (relays st) c = Some t" "try_reserve t = Permit"
    using assms(4) by (auto simp: reserve_of_def split: option.splits)
  obtain r st1 where r: "recv_slot api h st = Some (r, st1)"
    using assms(1) by (auto simp: uplink_slot_def split: option.splits)
  from r show ?thesis
  proof (cases rule: recv_slot_cases)
    case (1 s s')
    with assms(1) r acts_socket [of st h s'] show ?thesis by (auto simp: uplink_slot_def)
  next
    case (2 s s' p)
    have "st' = emit [LocalRecv h p, UplinkSend c p]
      ((put_slot h s' (ctx\<lparr> slot_state := Relaying \<rparr>) st)\<lparr> relays := fmupd c (permit_send p t) (relays st) \<rparr>)"
      using assms(1) r 2 t by (simp add: uplink_slot_def emit_def put_slot_def put_ctx_def)
    with a_uplink [OF assms(2) _ assms(3) t] 2(1) show ?thesis by auto
  qed
qed

text \<open>A payload taken from the socket of a slot whose relay does not run yet.\<close>

definition received :: "handle \<Rightarrow> 's \<Rightarrow> bytes \<Rightarrow> ('s, 'r) slots \<Rightarrow> ('s, 'r) slots" where
  "received h s p st = emit [LocalRecv h p] (st\<lparr> sockets := fmupd h s (sockets st) \<rparr>)"

lemmas slots_defs = received_def emit_def put_slot_def put_ctx_def

lemma recv_slot_received:
  "recv_slot api h st = Some (Some p, st1) \<Longrightarrow> fmlookup (sockets st) h \<noteq> None \<and> (\<exists>s. st1 = received h s p st)"
  by (auto simp: received_def elim!: recv_slot_cases)

lemma buffered_act:
  assumes "fmlookup (socket_ctxs st) h = Some ctx" "fmlookup (sockets st) h \<noteq> None" "uplink_tx ctx = None"
    "slot_state ctx = HandshakePending" "buffer_uplink p ctx = (ok, ctx')"
  shows "act st (emit (if ok then [] else [UplinkLost h p]) (put_ctx h ctx' (received h s p st)))"
proof (cases ok)
  case True
  with assms(5) have "ctx' = ctx\<lparr> uplink_buffer := uplink_buffer ctx @ p \<rparr>"
    "length (uplink_buffer ctx) + length p \<le> MAX_UPLINK_BUFFER"
    by (auto simp: buffer_uplink_def split: if_splits)
  with a_buffer [OF assms(1-4), of p s] True show ?thesis by (simp add: slots_defs)
next
  case False
  with assms(5) have "ctx' = ctx" by (auto simp: buffer_uplink_def split: if_splits)
  with a_lost [OF assms(1-3), of "slot_state ctx" p s] False show ?thesis by (simp add: slots_defs)
qed

lemma open_inline_act:
  assumes "fmlookup (socket_ctxs st) h = Some ctx" "fmlookup (sockets st) h \<noteq> None" "unopened ctx"
    "resolve_target ep (fake_pool st) = Direct tgt fip"
    "open_inline api up now h p tgt fip ctx (received h s p st) = Some (r, st')"
  shows "act st st'"
proof (cases "open_tcp up h tgt")
  case (Inl e)
  have "uplink_tx ctx = None" using assms(3) by (simp add: unopened_def)
  with a_lost [OF assms(1,2), of OpeningRemote p s] assms(3,5) Inl show ?thesis
    by (simp add: open_inline_def Let_def slots_defs)
next
  case (Inr stream)
  have "st' = spawn_remote_relay h stream (next_chan st) [p] now
      (emit [LocalRecv h p, UplinkSend (next_chan st) p]
        ((put_slot h s (ctx\<lparr> uplink_tx := Some (next_chan st), slot_state := Relaying, slot_fake_ip := held_by fip ctx \<rparr>) st)
           \<lparr> fake_pool := acquire_new now fip (fake_pool st) \<rparr>))"
    using Inr assms(5)
    by (cases fip) (auto simp: open_inline_def Let_def slots_defs acquire_for_def acquire_new_def held_by_def
        spawn_remote_relay_def intro!: slots.equality)
  with a_open [OF assms(1-4), of stream p now s] show ?thesis by simp
qed

lemma spawn_handshake_act:
  assumes "fmlookup (socket_ctxs st) h = Some ctx" "fmlookup (sockets st) h \<noteq> None" "unopened ctx"
    "resolve_target ep (fake_pool st) = Direct tgt fip"
  shows "act st (spawn_handshake now h p tgt fip ctx (received h s p st))"
proof -
  let ?fits = "length (uplink_buffer ctx) + length p \<le> MAX_UPLINK_BUFFER"
  let ?res = "emit (LocalRecv h p # (if ?fits then [] else [UplinkLost h p]) @ [HandshakeStart h (conn_epoch ctx + 1) tgt])
      ((put_slot h s (ctx\<lparr> slot_state := HandshakePending, conn_epoch := conn_epoch ctx + 1, slot_fake_ip := held_by fip ctx,
          uplink_buffer := (if ?fits then uplink_buffer ctx @ p else uplink_buffer ctx) \<rparr>) st)
         \<lparr> fake_pool := acquire_new now fip (fake_pool st), handshakes := handshakes st @ [(h, conn_epoch ctx + 1, tgt)] \<rparr>)"
  have "act st ?res" by (rule a_spawn [OF assms refl]) simp
  moreover have "spawn_handshake now h p tgt fip ctx (received h s p st) = ?res"
    by (cases fip) (auto simp: spawn_handshake_def Let_def slots_defs acquire_for_def acquire_new_def
        held_by_def buffer_uplink_def intro!: slots.equality)
  ultimately show ?thesis by simp
qed

lemma local_payload_act:
  assumes "fmlookup (socket_ctxs st) h = Some ctx" "fmlookup (sockets st) h \<noteq> None" "uplink_tx ctx = None"
    "resolve_target ep (fake_pool st) = Direct tgt fip"
    "handle_local_payload api up now h p (Some tgt) fip (received h s p st) = Some (r, st')"
  shows "act st st'"
proof -
  have ctx: "fmlookup (socket_ctxs (received h s p st)) h = Some ctx" using assms(1) by (simp add: received_def)
  show ?thesis
  proof (cases "slot_state ctx = HandshakePending")
    case True
    obtain ok ctx' where b: "buffer_uplink p ctx = (ok, ctx')" by (cases "buffer_uplink p ctx") simp
    with assms(5) ctx True have "st' = emit (if ok then [] else [UplinkLost h p]) (put_ctx h ctx' (received h s p st))"
      by (simp add: handle_local_payload_def)
    with buffered_act [OF assms(1-3) True b] show ?thesis by simp
  next
    case False
    then have "unopened ctx" using assms(3) by (simp add: unopened_def)
    with False assms(5) ctx open_inline_act [OF assms(1,2) _ assms(4)] spawn_handshake_act [OF assms(1,2) _ assms(4)]
    show ?thesis by (auto simp: handle_local_payload_def split: if_splits)
  qed
qed

lemma refused_acts:
  assumes "fmlookup (sockets st) h \<noteq> None" "rearm_slot api h now dir reason (received h s p st) = Some st'"
    "fmlookup (socket_ctxs st) h = Some ctx"
  shows "act st st'"
proof -
  from assms obtain s' where
    "st' = emit [Rearmed h dir reason] ((put_slot h s' (rearmed_ctx ctx) (received h s p st))
       \<lparr> fake_pool := release_held now ctx (fake_pool st) \<rparr>)"
    by (auto simp: rearm_slot_def received_def dest!: rearm_with_reason_eq)
  with a_refused [OF assms(3,1), where p = p and dir = dir and reason = reason and s = s' and now = now] show ?thesis by (simp add: slots_defs)
qed

lemma first_payload_acts:
  assumes "first_payload api up now h st = Some (r, st')" "fmlookup (socket_ctxs st) h = Some ctx" "uplink_tx ctx = None"
  shows "acts st st'"
proof -
  obtain p st1 where recv: "recv_slot api h st = Some (p, st1)"
    using assms(1) by (auto simp: first_payload_def split: option.splits)
  show ?thesis
  proof (cases p)
    case None
    from recv None show ?thesis
      using assms(1) acts_socket [of st h] by (auto simp: first_payload_def elim!: recv_slot_cases)
  next
    case (Some payload)
    with recv recv_slot_received [of api h st payload st1] obtain s where
      sock: "fmlookup (sockets st) h \<noteq> None" and st1: "st1 = received h s payload st" by auto
    have fields: "socket_ctxs st1 = socket_ctxs st" "fake_pool st1 = fake_pool st" "fmlookup (sockets st1) h = Some s"
      by (simp_all add: st1 received_def)
    show ?thesis
    proof (cases "tcp_local_endpoint api s")
      case None
      with assms(1) recv Some fields have "st' = emit [UplinkLost h payload] st1" by (simp add: first_payload_def)
      moreover have "act st (emit [UplinkLost h payload] st1)"
        using a_lost [OF assms(2) sock assms(3), of "slot_state ctx" payload s] assms(2)
        by (simp add: st1 slots_defs fmupd_same)
      ultimately show ?thesis by (simp add: r_into_rtranclp)
    next
      case ep: (Some ep)
      note unf = assms(1) [unfolded first_payload_def recv, simplified, unfolded Some, simplified, unfolded fields, simplified, unfolded ep, simplified]
      show ?thesis
      proof (cases "resolve_target ep (fake_pool st)")
        case (Direct tgt fip)
        with unf have "handle_local_payload api up now h payload (Some tgt) fip st1 = Some (r, st')" by simp
        then show ?thesis
          using local_payload_act [OF assms(2) sock assms(3) Direct] by (auto simp: st1)
      next
        case Refuse
        with unf refused_acts [OF sock _ assms(2)] show ?thesis by (auto simp: st1)
      next
        case Block
        with unf refused_acts [OF sock _ assms(2)] show ?thesis by (auto simp: st1)
      qed
    qed
  qed
qed

lemma process_listener_steps:
  assumes "process_listener_activity api up now h st = Some (r, st')"
  shows "\<exists>st1. flush_slot api h st = Some st1 \<and> acts st1 st'"
proof -
  obtain st1 where fl: "flush_slot api h st = Some st1"
    using assms by (auto simp: process_listener_activity_def split: option.splits)
  have "acts st1 st'"
  proof (cases "fmlookup (socket_ctxs st1) h")
    case None
    with assms fl show ?thesis by (simp add: process_listener_activity_def)
  next
    case (Some ctx)
    show ?thesis
    proof (cases "uplink_tx ctx")
      case None
      with assms fl Some first_payload_acts [of api up now h st1 r st'] show ?thesis
        by (simp add: process_listener_activity_def)
    next
      case (Some c)
      with assms fl \<open>fmlookup (socket_ctxs st1) h = Some ctx\<close> show ?thesis
        by (auto simp: process_listener_activity_def intro: uplink_slot_acts rearm_slot_acts split: reserve.splits)
    qed
  qed
  with fl show ?thesis by simp
qed

lemma process_listener_activity_acts: "process_listener_activity api up now h st = Some (r, st') \<Longrightarrow> acts st st'"
  using process_listener_steps flush_slot_acts by (metis rtranclp_trans)

lemma handshake_done_act:
  assumes "handshakes st = xs @ (h, e, tgt) # ys"
    "handle_handshake_done api now h e res (st\<lparr> handshakes := xs @ ys \<rparr>) = Some st'"
  shows "act st st'"
proof (cases "\<exists>ctx. fmlookup (socket_ctxs st) h = Some ctx \<and> conn_epoch ctx = e \<and> slot_state ctx = HandshakePending")
  case False
  with assms(2) have "st' = st\<lparr> handshakes := xs @ ys \<rparr>"
    by (auto simp: handle_handshake_done_def split: option.splits if_splits)
  with a_stale [OF assms(1)] False show ?thesis by auto
next
  case True
  then obtain ctx where ctx: "fmlookup (socket_ctxs st) h = Some ctx" "conn_epoch ctx = e"
    "slot_state ctx = HandshakePending" by blast
  show ?thesis
  proof (cases res)
    case (Inl err)
    with assms(2) ctx have r: "rearm_slot api h now ''remote_open'' ''handshake_failed'' (st\<lparr> handshakes := xs @ ys \<rparr>) = Some st'"
      by (simp add: handle_handshake_done_def)
    then have sock: "fmlookup (sockets st) h \<noteq> None" by (auto simp: rearm_slot_def split: option.splits)
    with r ctx obtain s' where "st' = emit [Rearmed h ''remote_open'' ''handshake_failed'']
        ((put_slot h s' (rearmed_ctx ctx) (st\<lparr> handshakes := xs @ ys \<rparr>))\<lparr> fake_pool := release_held now ctx (fake_pool st) \<rparr>)"
      by (auto simp: rearm_slot_def dest!: rearm_with_reason_eq)
    then have "st' = emit [Rearmed h ''remote_open'' ''handshake_failed'']
        ((put_slot h s' (rearmed_ctx ctx) st)\<lparr> fake_pool := release_held now ctx (fake_pool st), handshakes := xs @ ys \<rparr>)"
      by (auto simp: slots_defs intro!: slots.equality)
    with a_failed [OF assms(1) ctx(1) sock ctx(2,3)] show ?thesis by simp
  next
    case (Inr stream)
    let ?q = "if uplink_buffer ctx = [] then [] else [uplink_buffer ctx]"
    have "st' = spawn_remote_relay h stream (next_chan st) ?q now
      (emit (map (UplinkSend (next_chan st)) ?q)
        ((put_ctx h (ctx\<lparr> slot_state := Relaying, uplink_tx := Some (next_chan st), uplink_buffer := [] \<rparr>) st)
           \<lparr> handshakes := xs @ ys \<rparr>))"
      using Inr assms(2) ctx
      by (cases "uplink_buffer ctx = []")
        (auto simp: handle_handshake_done_def Let_def slots_defs spawn_remote_relay_def
          intro!: slots.equality arg_cong2 [where f = "\<lambda>c. fmupd h c"] socket_ctx.equality)
    with a_installed [OF assms(1) ctx refl] show ?thesis by simp
  qed
qed

text \<open>\<open>iface.poll\<close> neither adds nor removes sockets, and of the device it uses the packets only.\<close>

definition poll_contract :: "'s poll_fun \<Rightarrow> bool" where
  "poll_contract poll \<longleftrightarrow> (\<forall>d ss. fmdom (snd (poll d ss)) = fmdom ss \<and> dev_mtu (fst (poll d ss)) = dev_mtu d)"

lemma iface_poll_act:
  assumes "poll_contract poll"
  shows "act st (iface_poll poll st)"
  using a_env [of "snd (poll (device st) (sockets st))" st "fst (poll (device st) (sockets st))" "[]" "loop_metrics st"] assms
  by (simp add: iface_poll_def poll_contract_def Let_def case_prod_unfold)

lemma device_flush_act: "act st (snd (device_flush w st))"
  using a_env [of "sockets st" st "snd (snd (flush_tx w (device st)))" "[fst (snd (flush_tx w (device st)))]" "loop_metrics st"]
  by (simp add: device_flush_def flush_tx_def Let_def case_prod_unfold)

lemma metrics_act: "act st (st\<lparr> loop_metrics := m \<rparr>)"
  using a_env [of "sockets st" st "device st" "[]" m] by simp

lemma publish_gauges_act: "act st (publish_gauges leg st)"
  by (simp add: publish_gauges_def Let_def case_prod_unfold metrics_act)

lemma poll_and_flush_acts:
  assumes "poll_contract poll"
  shows "acts st (snd (poll_and_flush poll w h st))"
proof -
  obtain r st1 where fl: "device_flush w (iface_poll poll st) = (r, st1)" by fastforce
  have "acts st st1"
    using iface_poll_act [OF assms, of st] device_flush_act [of "iface_poll poll st" w] fl by simp
  moreover have "acts st1 (snd (poll_and_flush poll w h st))"
  proof (cases "fmlookup (socket_ctxs st1) h")
    case (Some ctx)
    with a_ctx [OF Some, of "note_tun_flush (r = Inr ()) (downlink_diag ctx)" "slot_state ctx"] fl
    show ?thesis by (simp add: poll_and_flush_def r_into_rtranclp)
  qed (simp add: poll_and_flush_def fl)
  ultimately show ?thesis by simp
qed

lemma handle_remote_payload_acts:
  fixes st :: "('s, 'r) slots"
  assumes "handle_remote_payload api poll w now h p st = Some (r, st')" "poll_contract poll"
  shows "acts st st'"
proof -
  obtain s where s: "fmlookup (sockets st) h = Some s"
    using assms(1) by (auto simp: handle_remote_payload_def split: option.splits)
  note unf = assms(1) [unfolded handle_remote_payload_def s, simplified]
  show ?thesis
  proof (cases "fmlookup (socket_ctxs st) h")
    case None
    with unf show ?thesis by simp
  next
    case (Some ctx)
    show ?thesis
    proof (cases "p = [] \<or> uplink_tx ctx = None")
      case True
      with unf Some s show ?thesis by (auto intro: rearm_with_reason_act split: if_splits)
    next
      case False
      let ?pend = "downlink_pending ctx @ p"
      let ?ctx1 = "ctx\<lparr> downlink_pending := ?pend, downlink_diag := note_remote_payload (length p) (length ?pend) (downlink_diag ctx) \<rparr>"
      obtain s' ctx2 and es :: "'r action list" where fl: "flush_downlink api h s ?ctx1 = Some (s', ctx2, es)"
        using unf Some False by (auto simp: Let_def split: option.splits)
      let ?st0 = "emit [RemoteRecv h p] (put_ctx h ?ctx1 st)"
      let ?st1 = "emit (RemoteRecv h p # es) (put_slot h s' (ctx2\<lparr> slot_state := Relaying \<rparr>) st)"
      let ?st2 = "emit es (put_slot h s' ctx2 ?st0)"
      have a1: "act st ?st0"
        by (rule a_remote [OF Some]) (use False in \<open>auto split: prod.split\<close>)
      have a2: "acts ?st0 ?st2"
        using fl s by (intro flush_downlink_acts) simp_all
      have up: "uplink_tx ctx2 = uplink_tx ctx"
        using fl by (auto simp: flush_downlink_def Let_def split: if_splits option.splits)
      have a3: "act ?st2 (put_ctx h (ctx2\<lparr> slot_state := Relaying, downlink_diag := downlink_diag ctx2 \<rparr>) ?st2)"
        by (rule a_ctx) (use up False in auto)
      have "put_ctx h (ctx2\<lparr> slot_state := Relaying, downlink_diag := downlink_diag ctx2 \<rparr>) ?st2 = ?st1"
        by (auto simp: slots_defs intro!: slots.equality)
      with rtranclp.rtrancl_into_rtrancl [OF act_trans [OF a1 a2] a3] have one: "acts st ?st1" by (simp only:)
      have "st' = snd (poll_and_flush poll w h ?st1)" using unf Some False fl by (auto simp: Let_def)
      with one poll_and_flush_acts [OF assms(2), of ?st1 w h] show ?thesis by (metis rtranclp_trans)
    qed
  qed
qed

lemma reap_slots_acts: "reap_slots api now hs st = Some (n, st') \<Longrightarrow> acts st st'"
proof (induction hs arbitrary: st n)
  case (Cons h hs)
  then obtain s where s: "fmlookup (sockets st) h = Some s" by (auto split: option.splits)
  show ?case
  proof (cases "fmlookup (socket_ctxs st) h")
    case None
    with Cons s show ?thesis by auto
  next
    case (Some ctx)
    show ?thesis
    proof (cases "slot_dead api s ctx")
      case True
      with Cons.prems s Some obtain st1 m where
        r: "rearm_socket_with_reason api h now ''local'' ''dead_slot_reap'' s ctx st = Some st1"
        and rest: "reap_slots api now hs st1 = Some (m, st')"
        by (auto split: option.splits)
      from rearm_with_reason_act [OF r _ Some] s have "act st st1" by simp
      from act_trans [OF this Cons.IH [OF rest]] show ?thesis .
    qed (use Cons s Some in auto)
  qed
qed simp

lemma add_listener_grow:
  assumes "tcp_contract api" "add_listener api port st = Some (h, st')"
  shows "grow st st'" "\<exists>s. st' = put_slot h s (socket_ctx_new port) st" "fmlookup (sockets st) h = None" "port \<noteq> 0"
proof -
  from assms(2) obtain s where s: "tcp_listen api port (tcp_new api) = Some s" and h: "h = set_handle api (sockets st)"
    and st': "st' = put_slot h s (socket_ctx_new port) st"
    by (auto simp: add_listener_def build_listener_socket_def Let_def split: option.splits)
  show "fmlookup (sockets st) h = None" and port: "port \<noteq> 0"
    using assms(1) s h by (auto simp: tcp_contract_def)
  then show "grow st st'" unfolding st' by (rule g_listener)
  show "\<exists>s. st' = put_slot h s (socket_ctx_new port) st" using st' by blast
qed

lemma add_listeners_grows:
  assumes "tcp_contract api"
  shows "add_listeners api port n st = Some (hs, st') \<Longrightarrow> grows st st'"
proof (induction n arbitrary: st hs)
  case (Suc n)
  then obtain h st1 hs' where "add_listener api port st = Some (h, st1)" "add_listeners api port n st1 = Some (hs', st')"
    by (auto split: option.splits)
  with Suc.IH add_listener_grow(1) [OF assms] show ?case by (blast intro: converse_rtranclp_into_rtranclp)
qed simp

lemma ensure_port_grows: "tcp_contract api \<Longrightarrow> ensure_port api port st = Some (r, st') \<Longrightarrow> grows st st'"
  by (auto simp: ensure_port_def Let_def dest!: add_listeners_grows intro: rtranclp.rtrancl_into_rtrancl g_registry
      split: if_splits option.splits)

lemma add_spares_grows:
  assumes "tcp_contract api"
  shows "add_spares api port n st = Some (r, st') \<Longrightarrow> grows st st'"
proof (induction n arbitrary: st)
  case (Suc n)
  show ?case
  proof (cases "total_listeners (registry st) \<ge> max_total (registry st)")
    case False
    with Suc.prems obtain h st1 where a: "add_listener api port st = Some (h, st1)"
      by (auto split: option.splits)
    with Suc.prems False Suc.IH have "grows (st1\<lparr> registry := (registry st1)
        \<lparr> ports := fmupd port (handles_for_port port (registry st1) @ [h]) (ports (registry st1)),
           total_listeners := total_listeners (registry st1) + 1 \<rparr> \<rparr>) st'"
      by (simp add: Let_def)
    with add_listener_grow(1) [OF assms a] show ?thesis
      by (blast intro: converse_rtranclp_into_rtranclp g_registry)
  qed (use Suc in auto)
qed simp

lemma ensure_spare_grows:
  "tcp_contract api \<Longrightarrow> ensure_spare_listeners api port k st = Some (r, st') \<Longrightarrow> grows st st'"
  by (auto simp: ensure_spare_listeners_def intro: add_spares_grows split: if_splits option.splits)

end
