(* ===== verification/SlotInv.thy ===== *)
theory SlotInv
  imports SlotActs
begin

text \<open>
  The invariant of the listener slots. The history of a slot is what the trace says about it since it was
  last rearmed, that is, about the connection it now carries. \<open>slots_good\<close> relates every slot's context,
  its relay and its history: which fields may be set in which state, that no byte of either direction
  is lost, duplicated or reordered without the trace saying so, that the diagnostic counters tell the
  truth, and that the epoch counts the connections and handshakes of the slot.
\<close>

section \<open>Histories\<close>

record 'r slot_hist =
  h_kept :: "bytes list"           \<comment> \<open>payloads taken from the socket and not dropped\<close>
  h_remote :: bytes                \<comment> \<open>bytes accepted from the remote side\<close>
  h_out :: bytes                   \<comment> \<open>bytes that left the backlog towards the socket, sent or discarded\<close>
  h_sent :: bytes                  \<comment> \<open>bytes the socket accepted\<close>
  h_lost :: nat                    \<comment> \<open>how often the backlog was discarded\<close>
  h_relay :: "(nat \<times> 'r) option"   \<comment> \<open>the relay started for the connection\<close>
  h_shake :: "(u64 \<times> target_addr) option"  \<comment> \<open>the handshake started for it\<close>

definition hist_new :: "'r slot_hist" where
  "hist_new = \<lparr> h_kept = [], h_remote = [], h_out = [], h_sent = [], h_lost = 0, h_relay = None, h_shake = None \<rparr>"

fun hist_step :: "handle \<Rightarrow> 'r action \<Rightarrow> 'r slot_hist \<Rightarrow> 'r slot_hist" where
  "hist_step h (LocalRecv j p) v = (if j = h then v\<lparr> h_kept := h_kept v @ [p] \<rparr> else v)"
| "hist_step h (UplinkLost j p) v = (if j = h then v\<lparr> h_kept := butlast (h_kept v) \<rparr> else v)"
| "hist_step h (RemoteRecv j p) v = (if j = h then v\<lparr> h_remote := h_remote v @ p \<rparr> else v)"
| "hist_step h (LocalSent j p) v = (if j = h then v\<lparr> h_out := h_out v @ p, h_sent := h_sent v @ p \<rparr> else v)"
| "hist_step h (LocalLost j p) v = (if j = h then v\<lparr> h_out := h_out v @ p, h_lost := Suc (h_lost v) \<rparr> else v)"
| "hist_step h (RelayStart j c r) v = (if j = h then v\<lparr> h_relay := Some (c, r) \<rparr> else v)"
| "hist_step h (HandshakeStart j e t) v = (if j = h then v\<lparr> h_shake := Some (e, t) \<rparr> else v)"
| "hist_step h (Rearmed j d r) v = (if j = h then hist_new else v)"
| "hist_step h (UplinkSend c p) v = v"
| "hist_step h (StreamWrite c p) v = v"
| "hist_step h (StreamRead c p) v = v"
| "hist_step h (TunWritten ws) v = v"

definition hist :: "handle \<Rightarrow> 'r action list \<Rightarrow> 'r slot_hist" where
  "hist h tr = fold (hist_step h) tr hist_new"

text \<open>The messages put into a channel and written to its stream.\<close>

fun send_on :: "nat \<Rightarrow> 'r action \<Rightarrow> bytes list" where
  "send_on c (UplinkSend d p) = (if d = c then [p] else [])"
| "send_on c _ = []"

fun write_on :: "nat \<Rightarrow> 'r action \<Rightarrow> bytes list" where
  "write_on c (StreamWrite d p) = (if d = c then [p] else [])"
| "write_on c _ = []"

definition sends :: "nat \<Rightarrow> 'r action list \<Rightarrow> bytes list" where
  "sends c tr = concat (map (send_on c) tr)"

definition writes :: "nat \<Rightarrow> 'r action list \<Rightarrow> bytes list" where
  "writes c tr = concat (map (write_on c) tr)"

fun bump :: "handle \<Rightarrow> 'r action \<Rightarrow> bool" where
  "bump h (Rearmed j d r) = (j = h)"
| "bump h (HandshakeStart j e t) = (j = h)"
| "bump h _ = False"

definition bumps :: "handle \<Rightarrow> 'r action list \<Rightarrow> nat" where
  "bumps h tr = length (filter (bump h) tr)"

fun about :: "'r action \<Rightarrow> handle option" where
  "about (LocalRecv j p) = Some j"
| "about (UplinkLost j p) = Some j"
| "about (RemoteRecv j p) = Some j"
| "about (LocalSent j p) = Some j"
| "about (LocalLost j p) = Some j"
| "about (RelayStart j c r) = Some j"
| "about (HandshakeStart j e t) = Some j"
| "about (Rearmed j d r) = Some j"
| "about _ = None"

lemma hist_simps [simp]:
  "hist h [] = hist_new" "hist h (tr @ es) = fold (hist_step h) es (hist h tr)"
  by (simp_all add: hist_def)

lemma sends_simps [simp]: "sends c [] = []" "sends c (tr @ es) = sends c tr @ sends c es" "sends c (a # es) = send_on c a @ sends c es"
  by (simp_all add: sends_def)

lemma writes_simps [simp]: "writes c [] = []" "writes c (tr @ es) = writes c tr @ writes c es" "writes c (a # es) = write_on c a @ writes c es"
  by (simp_all add: writes_def)

lemma bumps_simps [simp]:
  "bumps h [] = 0" "bumps h (tr @ es) = bumps h tr + bumps h es" "bumps h (a # es) = (if bump h a then 1 else 0) + bumps h es"
  by (simp_all add: bumps_def)

lemma hist_new_simps [simp]:
  "h_kept hist_new = []" "h_remote hist_new = []" "h_out hist_new = []" "h_sent hist_new = []" "h_lost hist_new = 0"
  "h_relay hist_new = None" "h_shake hist_new = None"
  by (simp_all add: hist_new_def)

lemma send_on_map [simp]:
  "sends c (map (UplinkSend d) q) = (if d = c then q else [])" "sends c (map (StreamWrite d) q) = []"
  by (induction q) simp_all

lemma write_on_map [simp]:
  "writes c (map (UplinkSend d) q) = []" "writes c (map (StreamWrite d) q) = (if d = c then q else [])"
  by (induction q) simp_all

lemma read_map [simp]:
  "sends c (map (\<lambda>b. StreamRead d (f b)) bs) = []" "writes c (map (\<lambda>b. StreamRead d (f b)) bs) = []"
  by (induction bs) simp_all

lemma tun_map [simp]: "sends c (map TunWritten ws) = []" "writes c (map TunWritten ws) = []"
  by (induction ws) simp_all

lemma hist_step_other: "about a \<noteq> Some h \<Longrightarrow> hist_step h a v = v"
  by (cases a) auto

lemma hist_other: "\<forall>a\<in>set es. about a \<noteq> Some h \<Longrightarrow> fold (hist_step h) es v = v"
  by (induction es arbitrary: v) (simp_all add: hist_step_other)

lemma bumps_other: "\<forall>a\<in>set es. about a \<noteq> Some h \<Longrightarrow> bumps h es = 0"
proof (induction es)
  case (Cons a es)
  then show ?case by (cases a) auto
qed simp

lemma bumps_length: "bumps h tr \<le> length tr"
  by (simp add: bumps_def)

section \<open>The invariant\<close>

definition slot_ok :: "socket_ctx \<Rightarrow> bool" where
  "slot_ok ctx \<longleftrightarrow> local_port ctx \<noteq> 0 \<and>
     (case slot_state ctx of
        HandshakePending \<Rightarrow>
          uplink_tx ctx = None \<and> downlink_pending ctx = [] \<and> length (uplink_buffer ctx) \<le> MAX_UPLINK_BUFFER
      | Relaying \<Rightarrow> uplink_tx ctx \<noteq> None \<and> uplink_buffer ctx = []
      | SlotClosing \<Rightarrow> False
      | Rearming \<Rightarrow> False
      | _ \<Rightarrow> uplink_tx ctx = None \<and> downlink_pending ctx = [] \<and> uplink_buffer ctx = [] \<and> slot_fake_ip ctx = None)"

text \<open>
  What a slot's context and the history of its connection say about each other; \<open>snt c\<close> are the messages
  sent into channel \<open>c\<close> so far, \<open>b\<close> is the number of times the slot's epoch was advanced.
\<close>

definition slot_good :: "socket_ctx \<Rightarrow> 'r slot_hist \<Rightarrow> (nat \<Rightarrow> bytes list) \<Rightarrow> nat \<Rightarrow> bool" where
  "slot_good ctx v snt b \<longleftrightarrow>
     slot_ok ctx \<and> conn_epoch ctx = of_nat b \<and>
     h_remote v = h_out v @ downlink_pending ctx \<and>
     diag_counts (downlink_diag ctx) = (of_nat (length (h_remote v)), of_nat (length (h_sent v)), of_nat (h_lost v)) \<and>
     (h_lost v = 0 \<longrightarrow> h_sent v = h_out v) \<and>
     (case slot_state ctx of
        HandshakePending \<Rightarrow>
          concat (h_kept v) = uplink_buffer ctx \<and> h_relay v = None \<and> (\<exists>tgt. h_shake v = Some (conn_epoch ctx, tgt))
      | Relaying \<Rightarrow>
          (\<exists>c r. uplink_tx ctx = Some c \<and> h_relay v = Some (c, r) \<and> concat (h_kept v) = concat (snt c))
      | _ \<Rightarrow> h_kept v = [] \<and> h_relay v = None \<and> h_shake v = None)"

definition owned :: "('s, 'r) slots \<Rightarrow> bool" where
  "owned st \<longleftrightarrow> (\<forall>h ctx c. fmlookup (socket_ctxs st) h = Some ctx \<longrightarrow> uplink_tx ctx = Some c \<longrightarrow>
     (\<exists>t. fmlookup (relays st) c = Some t \<and> rt_handle t = h))"

definition relay_good :: "nat \<Rightarrow> 'r relay_task \<Rightarrow> 'r action list \<Rightarrow> bool" where
  "relay_good c t tr \<longleftrightarrow> length (rt_rx t) \<le> RELAY_CHANNEL_CAPACITY \<and>
     (\<exists>lost. sends c tr = writes c tr @ lost @ rt_rx t \<and> (rt_closed t = None \<longrightarrow> lost = []))"

definition relays_good :: "('s, 'r) slots \<Rightarrow> bool" where
  "relays_good st \<longleftrightarrow>
     (\<forall>c t. fmlookup (relays st) c = Some t \<longrightarrow> c < next_chan st \<and> relay_good c t (trace st)) \<and>
     (\<forall>c. next_chan st \<le> c \<longrightarrow> sends c (trace st) = [] \<and> writes c (trace st) = [])"

definition known_handles :: "('s, 'r) slots \<Rightarrow> bool" where
  "known_handles st \<longleftrightarrow> (\<forall>a\<in>set (trace st). \<forall>h. about a = Some h \<longrightarrow> fmlookup (socket_ctxs st) h \<noteq> None)"

definition slots_good :: "('s, 'r) slots \<Rightarrow> bool" where
  "slots_good st \<longleftrightarrow> fmdom (sockets st) = fmdom (socket_ctxs st) \<and>
     (\<forall>h ctx. fmlookup (socket_ctxs st) h = Some ctx \<longrightarrow>
        slot_good ctx (hist h (trace st)) (\<lambda>c. sends c (trace st)) (bumps h (trace st))) \<and>
     owned st \<and> relays_good st \<and> known_handles st"

lemma slots_goodD:
  assumes "slots_good st"
  shows "fmdom (sockets st) = fmdom (socket_ctxs st)"
    "fmlookup (socket_ctxs st) h = Some ctx \<Longrightarrow>
       slot_good ctx (hist h (trace st)) (\<lambda>c. sends c (trace st)) (bumps h (trace st))"
    "owned st" "relays_good st" "known_handles st"
  using assms by (simp_all add: slots_good_def)

text \<open>A slot that relays owns its channel, so nobody else can send there.\<close>

lemma slot_good_cong:
  assumes "slot_good ctx v snt b" "\<And>c. uplink_tx ctx = Some c \<Longrightarrow> snt' c = snt c"
  shows "slot_good ctx v snt' b"
  using assms by (auto simp: slot_good_def split: socket_state.splits)

lemma owner_unique:
  "owned st \<Longrightarrow> fmlookup (socket_ctxs st) h = Some ctx \<Longrightarrow> uplink_tx ctx = Some c \<Longrightarrow>
   fmlookup (relays st) c = Some t \<Longrightarrow> rt_handle t = h"
  unfolding owned_def by fastforce

text \<open>
  How the invariant is carried through a step that changes one slot: the slot itself must be good again,
  the actions must be about it, and only its own channel may get messages.
\<close>

lemma slots_good_step:
  assumes good: "slots_good st" and ctx: "fmlookup (socket_ctxs st) h = Some ctx"
    and st': "socket_ctxs st' = fmupd h ctx' (socket_ctxs st)" "fmdom (sockets st') = fmdom (sockets st)"
      "trace st' = trace st @ es"
    and about: "\<forall>a\<in>set es. about a = None \<or> about a = Some h"
    and own: "\<And>c. uplink_tx ctx' = Some c \<Longrightarrow> \<exists>t. fmlookup (relays st') c = Some t \<and> rt_handle t = h"
    and handles: "\<And>c t. fmlookup (relays st) c = Some t \<Longrightarrow> \<exists>t'. fmlookup (relays st') c = Some t' \<and> rt_handle t' = rt_handle t"
    and quiet: "\<And>c t. fmlookup (relays st) c = Some t \<Longrightarrow> rt_handle t \<noteq> h \<Longrightarrow> sends c es = []"
    and slot: "slot_good ctx' (fold (hist_step h) es (hist h (trace st))) (\<lambda>c. sends c (trace st) @ sends c es)
       (bumps h (trace st) + bumps h es)"
    and rel: "relays_good st'"
  shows "slots_good st'"
  unfolding slots_good_def
proof (intro conjI allI impI)
  show "fmdom (sockets st') = fmdom (socket_ctxs st')"
    using slots_goodD(1) [OF good] ctx by (simp add: st' finsert_absorb fmdom_member_iff)
  show "relays_good st'" by (rule rel)
  show "known_handles st'"
    using slots_goodD(5) [OF good] about ctx by (auto simp: known_handles_def st' split: if_splits)
  show "owned st'"
    unfolding owned_def
  proof (intro allI impI)
    fix j x c assume j: "fmlookup (socket_ctxs st') j = Some x" "uplink_tx x = Some c"
    show "\<exists>t. fmlookup (relays st') c = Some t \<and> rt_handle t = j"
    proof (cases "j = h")
      case True
      with j own show ?thesis by (simp add: st')
    next
      case False
      with j slots_goodD(3) [OF good] handles show ?thesis by (fastforce simp: st' owned_def)
    qed
  qed
next
  fix j x assume j: "fmlookup (socket_ctxs st') j = Some x"
  show "slot_good x (hist j (trace st')) (\<lambda>c. sends c (trace st')) (bumps j (trace st'))"
  proof (cases "j = h")
    case True
    with j slot show ?thesis by (simp add: st')
  next
    case False
    with j have x: "fmlookup (socket_ctxs st) j = Some x" by (simp add: st')
    have "\<forall>a\<in>set es. about a \<noteq> Some j" using about False by auto
    then have "hist j (trace st') = hist j (trace st)" "bumps j (trace st') = bumps j (trace st)"
      by (simp_all add: st' hist_other bumps_other)
    moreover have "sends c es = []" if "uplink_tx x = Some c" for c
      using slots_goodD(3) [OF good] x that quiet False by (fastforce simp: owned_def)
    ultimately show ?thesis
      using slot_good_cong [OF slots_goodD(2) [OF good x]] by (simp add: st')
  qed
qed

text \<open>Steps that leave the channels alone.\<close>

lemma relays_good_quiet:
  assumes "relays_good st" "relays st' = relays st" "next_chan st' = next_chan st" "trace st' = trace st @ es"
    "\<And>c. sends c es = []" "\<And>c. writes c es = []"
  shows "relays_good st'"
  using assms by (simp add: relays_good_def relay_good_def)

lemma slots_good_quiet:
  assumes "slots_good st" "fmlookup (socket_ctxs st) h = Some ctx"
    "socket_ctxs st' = fmupd h ctx' (socket_ctxs st)" "fmdom (sockets st') = fmdom (sockets st)"
    "trace st' = trace st @ es" "relays st' = relays st" "next_chan st' = next_chan st"
    "\<forall>a\<in>set es. about a = Some h" "uplink_tx ctx' = None \<or> uplink_tx ctx' = uplink_tx ctx"
    "slot_good ctx' (fold (hist_step h) es (hist h (trace st))) (\<lambda>c. sends c (trace st)) (bumps h (trace st) + bumps h es)"
  shows "slots_good st'"
proof -
  have q: "sends c es = []" "writes c es = []" for c
    using assms(8) by (induction es) (auto, (case_tac a; simp)+)
  show ?thesis
    by (rule slots_good_step [OF assms(1-5)])
      (use assms slots_goodD(3) [OF assms(1)] relays_good_quiet [OF slots_goodD(4) [OF assms(1)] assms(6,7,5) q] in
        \<open>auto simp: q owned_def\<close>)
qed

section \<open>Every step keeps the invariant\<close>

text \<open>Steps that touch no slot.\<close>

lemma slots_good_frame:
  assumes "slots_good st" "socket_ctxs st' = socket_ctxs st" "fmdom (sockets st') = fmdom (sockets st)"
    "trace st' = trace st @ es" "\<forall>a\<in>set es. about a = None" "\<And>c. sends c es = []" "relays_good st'"
    "\<And>c t. fmlookup (relays st) c = Some t \<Longrightarrow> \<exists>t'. fmlookup (relays st') c = Some t' \<and> rt_handle t' = rt_handle t"
  shows "slots_good st'"
proof -
  have h: "hist j (trace st') = hist j (trace st)" "bumps j (trace st') = bumps j (trace st)"
    "(\<lambda>c. sends c (trace st')) = (\<lambda>c. sends c (trace st))" for j
    using assms(5,6) by (simp_all add: assms(4) hist_other bumps_other)
  have o: "owned st'"
    using slots_goodD(3) [OF assms(1)] assms(8) by (fastforce simp: owned_def assms(2))
  have k: "known_handles st'"
    using slots_goodD(5) [OF assms(1)] assms(5) by (fastforce simp: known_handles_def assms(2,4))
  show ?thesis
    using slots_goodD(1,2) [OF assms(1)] o k assms(7) unfolding slots_good_def h assms(2,3) by blast
qed

lemmas slot_good_simps = slot_good_def slot_ok_def

lemma rearmed_good:
  assumes "slot_good ctx v snt b"
  shows "slot_good (rearmed_ctx ctx) hist_new snt' (Suc b)"
  using assms by (simp add: slot_good_simps rearmed_ctx_def diag_counts_def downlink_diag_new_def add.commute)

lemma slots_good_rearm:
  assumes "slots_good st" "fmlookup (socket_ctxs st) h = Some ctx" "fmlookup (sockets st) h \<noteq> None"
    "socket_ctxs st' = fmupd h (rearmed_ctx ctx) (socket_ctxs st)" "sockets st' = fmupd h s (sockets st)"
    "trace st' = trace st @ es @ [Rearmed h dir reason]" "relays st' = relays st" "next_chan st' = next_chan st"
    "es = [] \<or> es = [LocalRecv h p]"
  shows "slots_good st'"
proof (rule slots_good_quiet [OF assms(1,2,4) _ assms(6-8)])
  show "fmdom (sockets st') = fmdom (sockets st)"
    using assms(3) by (simp add: assms(5) finsert_absorb fmdom_member_iff)
  show "\<forall>a\<in>set (es @ [Rearmed h dir reason]). about a = Some h" using assms(9) by auto
  show "uplink_tx (rearmed_ctx ctx) = None \<or> uplink_tx (rearmed_ctx ctx) = uplink_tx ctx"
    by (simp add: rearmed_ctx_def)
  have "bumps h (es @ [Rearmed h dir reason]) = 1" using assms(9) by auto
  then show "slot_good (rearmed_ctx ctx) (fold (hist_step h) (es @ [Rearmed h dir reason]) (hist h (trace st)))
      (\<lambda>c. sends c (trace st)) (bumps h (trace st) + bumps h (es @ [Rearmed h dir reason]))"
    using rearmed_good [OF slots_goodD(2) [OF assms(1,2)]] by simp
qed

text \<open>A channel that a slot fills.\<close>

lemma relays_good_upd:
  assumes "relays_good st" "relays st' = fmupd c t' (relays st)" "trace st' = trace st @ es"
    "next_chan st' = next_chan st" "c < next_chan st" "relay_good c t' (trace st @ es)"
    "\<And>d. d \<noteq> c \<Longrightarrow> sends d es = [] \<and> writes d es = []"
  shows "relays_good st'"
  using assms by (auto simp: relays_good_def relay_good_def split: if_splits)

lemma relays_good_new:
  assumes "relays_good st" "relays st' = fmupd (next_chan st) (relay_new h r q now) (relays st)"
    "trace st' = trace st @ es" "next_chan st' = Suc (next_chan st)" "length q \<le> RELAY_CHANNEL_CAPACITY"
    "\<And>d. sends d es = (if d = next_chan st then q else [])" "\<And>d. writes d es = []"
  shows "relays_good st'"
proof -
  have new: "relay_good (next_chan st) (relay_new h r q now) (trace st')"
    using assms(1,5,6,7) by (simp add: relays_good_def relay_good_def relay_new_def assms(3))
  have old: "relay_good c t (trace st')" "c < next_chan st'" if "fmlookup (relays st) c = Some t" for c t
  proof -
    from assms(1) that have c: "c < next_chan st" "relay_good c t (trace st)" by (auto simp: relays_good_def)
    then show "relay_good c t (trace st')" "c < next_chan st'"
      using assms(6,7) by (simp_all add: relay_good_def assms(3,4))
  qed
  have "sends c (trace st') = [] \<and> writes c (trace st') = []" if "next_chan st' \<le> c" for c
    using assms(1,6,7) that by (simp add: relays_good_def assms(3,4))
  with new old show ?thesis by (auto simp: relays_good_def assms(2,4) split: if_splits)
qed

lemma new_chan_unused: "relays_good st \<Longrightarrow> fmlookup (relays st) (next_chan st) = None"
  by (cases "fmlookup (relays st) (next_chan st)") (auto simp: relays_good_def)

text \<open>A relay started for a slot: its channel is new and holds the messages the slot sent.\<close>

lemma slots_good_start:
  assumes good: "slots_good st" and ctx: "fmlookup (socket_ctxs st) h = Some ctx"
    and st': "socket_ctxs st' = fmupd h ctx' (socket_ctxs st)" "fmdom (sockets st') = fmdom (sockets st)"
      "trace st' = trace st @ es @ [RelayStart h (next_chan st) r]"
      "relays st' = fmupd (next_chan st) (relay_new h r q now) (relays st)" "next_chan st' = Suc (next_chan st)"
    and es: "es = pre @ map (UplinkSend (next_chan st)) q" "\<forall>a\<in>set pre. about a = Some h" "length q \<le> 1"
    and ctx': "uplink_tx ctx' = Some (next_chan st)"
    and slot: "slot_good ctx' ((fold (hist_step h) pre (hist h (trace st)))\<lparr> h_relay := Some (next_chan st, r) \<rparr>)
      (\<lambda>c. sends c (trace st) @ (if c = next_chan st then q else [])) (bumps h (trace st) + bumps h pre)"
  shows "slots_good st'"
proof -
  have pre: "sends c pre = []" "writes c pre = []" for c
    using es(2) by (induction pre) (auto, (case_tac a; simp)+)
  have sn: "sends c (es @ [RelayStart h (next_chan st) r]) = (if c = next_chan st then q else [])" for c
    by (simp add: es(1) pre)
  have wr: "writes c (es @ [RelayStart h (next_chan st) r]) = []" for c by (simp add: es(1) pre)
  have hi: "fold (hist_step h) (map (UplinkSend d) q) v = v" "bumps h (map (UplinkSend d) q) = 0" for d v
    by (rule hist_other, auto) (rule bumps_other, auto)
  have new: "fmlookup (relays st) (next_chan st) = None" by (rule new_chan_unused [OF slots_goodD(4) [OF good]])
  show ?thesis
  proof (rule slots_good_step [OF good ctx st'(1-3)])
    show "\<forall>a\<in>set (es @ [RelayStart h (next_chan st) r]). about a = None \<or> about a = Some h"
      using es by auto
    show "relays_good st'"
      by (rule relays_good_new [OF slots_goodD(4) [OF good] st'(4,3,5) _ sn wr])
        (use es(3) in \<open>simp add: RELAY_CHANNEL_CAPACITY_def\<close>)
    show "slot_good ctx' (fold (hist_step h) (es @ [RelayStart h (next_chan st) r]) (hist h (trace st)))
        (\<lambda>c. sends c (trace st) @ sends c (es @ [RelayStart h (next_chan st) r]))
        (bumps h (trace st) + bumps h (es @ [RelayStart h (next_chan st) r]))"
      using slot unfolding sn by (simp add: es(1) hi)
  qed (use new ctx' in \<open>auto simp: st' relay_new_def es(1) pre\<close>)
qed

lemmas put_dom = finsert_absorb fmdom_member_iff

lemma act_slots_good:
  assumes "act st st'" "slots_good st"
  shows "slots_good st'"
  using assms(1)
proof cases
  case (a_env ss d ws m)
  then show ?thesis
    by (intro slots_good_frame [OF assms(2), where es = "map TunWritten ws"] relays_good_quiet [OF slots_goodD(4) [OF assms(2)], where es = "map TunWritten ws"])
      auto
next
  case (a_ctx h ctx dg b)
  have "slot_good (ctx\<lparr> slot_state := b, downlink_diag := dg \<rparr>) (hist h (trace st)) (\<lambda>c. sends c (trace st)) (bumps h (trace st))"
    using slots_goodD(2) [OF assms(2) a_ctx(2)] a_ctx(3,4)
    by (auto simp: slot_good_simps split: socket_state.splits)
  with a_ctx show ?thesis
    by (intro slots_good_quiet [OF assms(2) a_ctx(2), where es = "[]"]) auto
next
  case (a_sent h ctx p q dg s)
  have "slot_good (ctx\<lparr> downlink_pending := q, downlink_diag := dg \<rparr>) (hist_step h (LocalSent h p) (hist h (trace st)))
      (\<lambda>c. sends c (trace st)) (bumps h (trace st))"
    using slots_goodD(2) [OF assms(2) a_sent(2)] a_sent(4,5)
    by (auto simp: slot_good_simps split: socket_state.splits)
  with a_sent show ?thesis
    by (intro slots_good_quiet [OF assms(2) a_sent(2), where es = "[LocalSent h p]"]) (auto simp: put_dom)
next
  case (a_cleared h ctx dg)
  have "slot_good (ctx\<lparr> downlink_pending := [], downlink_diag := dg \<rparr>)
      (hist_step h (LocalLost h (downlink_pending ctx)) (hist h (trace st)))
      (\<lambda>c. sends c (trace st)) (bumps h (trace st))"
    using slots_goodD(2) [OF assms(2) a_cleared(2)] a_cleared(3)
    by (auto simp: slot_good_simps split: socket_state.splits)
  with a_cleared show ?thesis
    by (intro slots_good_quiet [OF assms(2) a_cleared(2), where es = "[LocalLost h (downlink_pending ctx)]"]) auto
next
  case (a_rearm h ctx dir reason s now)
  then show ?thesis
    by (intro slots_good_rearm [OF assms(2) a_rearm(2,3), where es = "[]"]) auto
next
  case (a_refused h ctx p dir reason s now)
  then show ?thesis
    by (intro slots_good_rearm [OF assms(2) a_refused(2,3), where es = "[LocalRecv h p]"]) auto
next
  case (a_failed xs h e tgt ys ctx dir reason s now)
  then show ?thesis
    by (intro slots_good_rearm [OF assms(2) a_failed(3,4), where es = "[]"]) auto
next
  case (a_uplink h ctx c t p s)
  note g = slots_goodD(2) [OF assms(2) a_uplink(2)]
  have t: "rt_handle t = h" by (rule owner_unique [OF slots_goodD(3) [OF assms(2)] a_uplink(2,4,5)])
  have c: "c < next_chan st" "relay_good c t (trace st)"
    using slots_goodD(4) [OF assms(2)] a_uplink(5) by (auto simp: relays_good_def)
  have "relay_good c (permit_send p t) (trace st @ [LocalRecv h p, UplinkSend c p])"
    using c(2) a_uplink(6) by (auto simp: relay_good_def permit_send_def try_reserve_def split: if_splits)
  then have rel: "relays_good st'"
    by (intro relays_good_upd [OF slots_goodD(4) [OF assms(2)], where c = c and t' = "permit_send p t"])
      (use c(1) a_uplink(1) in auto)
  show ?thesis
    by (rule slots_good_step [OF assms(2) a_uplink(2), where ctx' = "ctx\<lparr> slot_state := Relaying \<rparr>" and es = "[LocalRecv h p, UplinkSend c p]"])
      (use a_uplink t g rel in \<open>auto simp: put_dom permit_send_def slot_good_simps split: socket_state.splits\<close>)
next
  case (a_lost h ctx b p s)
  have "slot_good (ctx\<lparr> slot_state := b \<rparr>) (fold (hist_step h) [LocalRecv h p, UplinkLost h p] (hist h (trace st)))
      (\<lambda>c. sends c (trace st)) (bumps h (trace st))"
    using slots_goodD(2) [OF assms(2) a_lost(2)] a_lost(4,5)
    by (auto simp: slot_good_simps unopened_def split: socket_state.splits)
  with a_lost show ?thesis
    by (intro slots_good_quiet [OF assms(2) a_lost(2), where es = "[LocalRecv h p, UplinkLost h p]"]) (auto simp: put_dom)
next
  case (a_buffer h ctx p s)
  have "slot_good (ctx\<lparr> uplink_buffer := uplink_buffer ctx @ p \<rparr>) (hist_step h (LocalRecv h p) (hist h (trace st)))
      (\<lambda>c. sends c (trace st)) (bumps h (trace st))"
    using slots_goodD(2) [OF assms(2) a_buffer(2)] a_buffer(5,6)
    by (auto simp: slot_good_simps)
  with a_buffer show ?thesis
    by (intro slots_good_quiet [OF assms(2) a_buffer(2), where es = "[LocalRecv h p]"]) (auto simp: put_dom)
next
  case (a_open h ctx ep tgt fip stream p now s)
  have "slot_good (ctx\<lparr> uplink_tx := Some (next_chan st), slot_state := Relaying, slot_fake_ip := held_by fip ctx \<rparr>)
      ((hist_step h (LocalRecv h p) (hist h (trace st)))\<lparr> h_relay := Some (next_chan st, stream) \<rparr>)
      (\<lambda>c. sends c (trace st) @ (if c = next_chan st then [p] else [])) (bumps h (trace st))"
    using slots_goodD(2) [OF assms(2) a_open(2)] slots_goodD(4) [OF assms(2)] a_open(4)
    by (auto simp: slot_good_simps unopened_def relays_good_def split: socket_state.splits)
  with a_open show ?thesis
    by (intro slots_good_start [OF assms(2) a_open(2), where es = "[LocalRecv h p, UplinkSend (next_chan st) p]"
          and pre = "[LocalRecv h p]" and q = "[p]" and r = stream and now = now]) (auto simp: put_dom)
next
  case (a_spawn h ctx ep tgt fip e es buf p s now)
  have "slot_good (ctx\<lparr> slot_state := HandshakePending, conn_epoch := e, slot_fake_ip := held_by fip ctx, uplink_buffer := buf \<rparr>)
      (fold (hist_step h) (LocalRecv h p # es @ [HandshakeStart h e tgt]) (hist h (trace st)))
      (\<lambda>c. sends c (trace st)) (bumps h (trace st) + 1)"
    using slots_goodD(2) [OF assms(2) a_spawn(2)] a_spawn(4,6,7)
    by (auto simp: slot_good_simps unopened_def add.commute split: socket_state.splits if_splits)
  moreover have "bumps h (LocalRecv h p # es @ [HandshakeStart h e tgt]) = 1" "\<forall>a\<in>set es. about a = Some h"
    using a_spawn(7) by (auto split: if_splits)
  ultimately show ?thesis using a_spawn
    by (intro slots_good_quiet [OF assms(2) a_spawn(2), where es = "LocalRecv h p # es @ [HandshakeStart h e tgt]"])
      (auto simp: put_dom)
next
  case (a_stale xs h e tgt ys)
  then show ?thesis
    by (intro slots_good_frame [OF assms(2), where es = "[]"] relays_good_quiet [OF slots_goodD(4) [OF assms(2)], where es = "[]"])
      auto
next
  case (a_installed xs h e tgt ys ctx q stream now)
  have "slot_good (ctx\<lparr> slot_state := Relaying, uplink_tx := Some (next_chan st), uplink_buffer := [] \<rparr>)
      ((hist h (trace st))\<lparr> h_relay := Some (next_chan st, stream) \<rparr>)
      (\<lambda>c. sends c (trace st) @ (if c = next_chan st then q else [])) (bumps h (trace st))"
    using slots_goodD(2) [OF assms(2) a_installed(3)] slots_goodD(4) [OF assms(2)] a_installed(5,6)
    by (auto simp: slot_good_simps relays_good_def split: if_splits)
  with a_installed show ?thesis
    by (intro slots_good_start [OF assms(2) a_installed(3), where es = "map (UplinkSend (next_chan st)) q"
          and pre = "[]" and q = q and r = stream and now = now]) auto
next
  case (a_remote h ctx p dg)
  have "slot_good (ctx\<lparr> downlink_pending := downlink_pending ctx @ p, downlink_diag := dg \<rparr>)
      (hist_step h (RemoteRecv h p) (hist h (trace st))) (\<lambda>c. sends c (trace st)) (bumps h (trace st))"
    using slots_goodD(2) [OF assms(2) a_remote(2)] a_remote(3,5)
    by (auto simp: slot_good_simps split: socket_state.splits)
  with a_remote show ?thesis
    by (intro slots_good_quiet [OF assms(2) a_remote(2), where es = "[RemoteRecv h p]"]) auto
next
  case (a_relay c t now sender inp ws bs t')
  have c: "c < next_chan st" "relay_good c t (trace st)"
    using slots_goodD(4) [OF assms(2)] a_relay(2) by (auto simp: relays_good_def)
  from round_fifo [OF a_relay(4,3)] c(2) have f: "step_fifo (Round now sender inp) t ws bs t'"
    by (simp add: relay_good_def)
  let ?es = "map (StreamWrite c) ws @ map (\<lambda>b. StreamRead c (snd b)) bs"
  have es: "sends d ?es = []" "writes d ?es = (if c = d then ws else [])" for d by simp_all
  from f obtain lost where l: "rt_rx t = ws @ lost @ rt_rx t'" "rt_closed t' = None \<longrightarrow> lost = []"
    "rt_handle t' = rt_handle t" "length (rt_rx t') \<le> RELAY_CHANNEL_CAPACITY"
    by (auto simp: step_fifo_def)
  then have "relay_good c t' (trace st @ ?es)"
    using c(2) a_relay(3) by (auto simp: relay_good_def es)
  then have "relays_good st'"
    by (intro relays_good_upd [OF slots_goodD(4) [OF assms(2)], where c = c and t' = t' and es = ?es])
      (use c(1) a_relay(1) in auto)
  then show ?thesis
    by (intro slots_good_frame [OF assms(2), where es = ?es])
      (use l(3) a_relay in auto)
qed

lemma acts_slots_good: "acts st st' \<Longrightarrow> slots_good st \<Longrightarrow> slots_good st'"
  by (induction rule: rtranclp_induct) (auto intro: act_slots_good)

lemma unknown_hist:
  assumes "known_handles st" "fmlookup (socket_ctxs st) h = None"
  shows "hist h (trace st) = hist_new" "bumps h (trace st) = 0"
proof -
  have "\<forall>a\<in>set (trace st). about a \<noteq> Some h" using assms by (auto simp: known_handles_def)
  then show "hist h (trace st) = hist_new" "bumps h (trace st) = 0"
    by (simp_all add: hist_def hist_other bumps_other)
qed

lemma grow_slots_good:
  assumes "grow st st'" "slots_good st"
  shows "slots_good st'"
  using assms(1)
proof cases
  case (g_listener h port s)
  have none: "fmlookup (socket_ctxs st) h = None"
    using slots_goodD(1) [OF assms(2)] g_listener(2) by (metis fmdom_notD fmdom_notI)
  note new = unknown_hist [OF slots_goodD(5) [OF assms(2)] none]
  have "slot_good (socket_ctx_new port) (hist h (trace st)) (\<lambda>c. sends c (trace st)) (bumps h (trace st))"
    using g_listener(3) by (simp add: new slot_good_simps socket_ctx_new_def diag_counts_def downlink_diag_new_def)
  then show ?thesis
    using assms(2) none unfolding g_listener(1)
    by (auto simp: slots_good_def owned_def relays_good_def known_handles_def socket_ctx_new_def)
next
  case (g_registry reg)
  then show ?thesis using assms(2) by (simp add: slots_good_def owned_def relays_good_def known_handles_def)
qed

lemma grows_slots_good: "grows st st' \<Longrightarrow> slots_good st \<Longrightarrow> slots_good st'"
  by (induction rule: rtranclp_induct) (auto intro: grow_slots_good)

section \<open>Handshakes in flight\<close>

text \<open>
  The handshakes in flight for a slot have different epochs, none from the future; the one with the
  current epoch, if any, was started for the connection the slot carries now, which is waiting for it,
  and a slot that waits has one. The epoch is a 64-bit counter, so this holds as long as fewer than
  \<open>2 ^ 64\<close> actions have happened.
\<close>

definition flights :: "handle \<Rightarrow> (handle \<times> u64 \<times> target_addr) list \<Rightarrow> (u64 \<times> target_addr) list" where
  "flights h hs = map snd (filter (\<lambda>x. fst x = h) hs)"

definition waiting :: "socket_ctx option \<Rightarrow> bool" where
  "waiting x \<longleftrightarrow> (\<exists>ctx. x = Some ctx \<and> slot_state ctx = HandshakePending)"

definition shake_ok :: "(u64 \<times> target_addr) list \<Rightarrow> bool \<Rightarrow> (u64 \<times> target_addr) option \<Rightarrow> nat \<Rightarrow> bool" where
  "shake_ok fl w shake b \<longleftrightarrow>
     distinct (map fst fl) \<and>
     (\<forall>x\<in>set fl. unat (fst x) \<le> b \<and> (unat (fst x) = b \<longrightarrow> w \<and> shake = Some x)) \<and>
     (w \<longrightarrow> b \<in> (unat \<circ> fst) ` set fl)"

definition shakes_good :: "('s, 'r) slots \<Rightarrow> bool" where
  "shakes_good st \<longleftrightarrow> (length (trace st) < 2 ^ 64 \<longrightarrow>
     (\<forall>h. shake_ok (flights h (handshakes st)) (waiting (fmlookup (socket_ctxs st) h))
            (h_shake (hist h (trace st))) (bumps h (trace st))))"

lemma flights_simps [simp]:
  "flights h [] = []" "flights h (xs @ ys) = flights h xs @ flights h ys"
  "flights h (x # xs) = (if fst x = h then [snd x] else []) @ flights h xs"
  by (simp_all add: flights_def)

lemma shake_ok_bump: "shake_ok fl w v b \<Longrightarrow> shake_ok fl False v' (Suc b)"
  by (fastforce simp: shake_ok_def)

lemma shake_ok_remove:
  assumes "shake_ok (xs @ x # ys) w v b"
  shows "unat (fst x) \<noteq> b \<or> \<not> w \<Longrightarrow> shake_ok (xs @ ys) w v b" "unat (fst x) = b \<Longrightarrow> shake_ok (xs @ ys) False v b"
  using assms by (auto simp: shake_ok_def)

lemma shake_ok_spawn:
  assumes "shake_ok fl w v b" "unat e = Suc b"
  shows "shake_ok (fl @ [(e, t)]) True (Some (e, t)) (Suc b)"
proof -
  have "e \<notin> fst ` set fl" using assms by (fastforce simp: shake_ok_def)
  with assms show ?thesis by (fastforce simp: shake_ok_def)
qed

lemma epoch_bumps:
  assumes "slots_good st" "fmlookup (socket_ctxs st) h = Some ctx" "length (trace st) < 2 ^ 64"
  shows "unat (conn_epoch ctx) = bumps h (trace st)"
  using slots_goodD(2) [OF assms(1,2)] bumps_length [of h "trace st"] assms(3)
  by (simp add: slot_good_def unat_of_nat_small)

lemma shakes_good_step:
  assumes "shakes_good st" "trace st' = trace st @ es"
    "\<And>j. j \<noteq> h \<Longrightarrow> flights j (handshakes st') = flights j (handshakes st)"
    "\<And>j. j \<noteq> h \<Longrightarrow> fmlookup (socket_ctxs st') j = fmlookup (socket_ctxs st) j"
    "\<forall>a\<in>set es. about a = None \<or> about a = Some h"
    "length (trace st') < 2 ^ 64 \<Longrightarrow>
       shake_ok (flights h (handshakes st)) (waiting (fmlookup (socket_ctxs st) h)) (h_shake (hist h (trace st))) (bumps h (trace st)) \<Longrightarrow>
       shake_ok (flights h (handshakes st')) (waiting (fmlookup (socket_ctxs st') h))
         (h_shake (fold (hist_step h) es (hist h (trace st)))) (bumps h (trace st) + bumps h es)"
  shows "shakes_good st'"
  unfolding shakes_good_def
proof (intro impI allI)
  fix j assume len: "length (trace st') < 2 ^ 64"
  then have ok: "shake_ok (flights j (handshakes st)) (waiting (fmlookup (socket_ctxs st) j)) (h_shake (hist j (trace st))) (bumps j (trace st))"
    using assms(1) by (simp add: shakes_good_def assms(2))
  show "shake_ok (flights j (handshakes st')) (waiting (fmlookup (socket_ctxs st') j)) (h_shake (hist j (trace st'))) (bumps j (trace st'))"
  proof (cases "j = h")
    case True
    with assms(6) [OF len] ok show ?thesis by (simp add: assms(2))
  next
    case False
    then have "\<forall>a\<in>set es. about a \<noteq> Some j" using assms(5) by auto
    with ok assms(3,4) [OF False] show ?thesis by (simp add: assms(2) hist_other bumps_other)
  qed
qed

text \<open>Steps that neither start nor finish a handshake of the slot.\<close>

lemma shakes_good_quiet:
  assumes "shakes_good st" "fmlookup (socket_ctxs st) h = Some ctx"
    "socket_ctxs st' = fmupd h ctx' (socket_ctxs st)" "trace st' = trace st @ es" "handshakes st' = handshakes st"
    "\<forall>a\<in>set es. about a = None \<or> about a = Some h"
    "slot_state ctx' = HandshakePending \<longleftrightarrow> slot_state ctx = HandshakePending"
    "h_shake (fold (hist_step h) es (hist h (trace st))) = h_shake (hist h (trace st))" "bumps h es = 0"
  shows "shakes_good st'"
  using assms by (intro shakes_good_step [OF assms(1,4), of h]) (auto simp: waiting_def)

lemma shakes_good_rearm:
  assumes "shakes_good st" "socket_ctxs st' = fmupd h (rearmed_ctx ctx) (socket_ctxs st)"
    "trace st' = trace st @ es @ [Rearmed h dir reason]" "es = [] \<or> es = [LocalRecv h p]"
    "handshakes st' = handshakes st \<or> (\<exists>xs x ys. handshakes st = xs @ (h, x) # ys \<and> handshakes st' = xs @ ys)"
  shows "shakes_good st'"
proof (rule shakes_good_step [OF assms(1,3), of h])
  show "\<forall>a\<in>set (es @ [Rearmed h dir reason]). about a = None \<or> about a = Some h" using assms(4) by auto
  show "flights j (handshakes st') = flights j (handshakes st)" if "j \<noteq> h" for j using assms(5) that by auto
  show "fmlookup (socket_ctxs st') j = fmlookup (socket_ctxs st) j" if "j \<noteq> h" for j using that by (simp add: assms(2))
next
  let ?w = "waiting (fmlookup (socket_ctxs st') h)"
  assume ok: "shake_ok (flights h (handshakes st)) (waiting (fmlookup (socket_ctxs st) h)) (h_shake (hist h (trace st))) (bumps h (trace st))"
  have "shake_ok (flights h (handshakes st')) False None (Suc (bumps h (trace st)))"
    using assms(5) ok
  proof (elim disjE exE conjE)
    fix xs x ys assume "handshakes st = xs @ (h, x) # ys" "handshakes st' = xs @ ys"
    then show ?thesis
      using ok shake_ok_remove [of "flights h xs" x "flights h ys"] by (cases "unat (fst x) = bumps h (trace st)") (auto dest: shake_ok_bump)
  qed (auto intro: shake_ok_bump)
  moreover have "\<not> ?w" by (simp add: waiting_def assms(2) rearmed_ctx_def)
  moreover have "bumps h (es @ [Rearmed h dir reason]) = 1" using assms(4) by auto
  ultimately show "shake_ok (flights h (handshakes st')) ?w
      (h_shake (fold (hist_step h) (es @ [Rearmed h dir reason]) (hist h (trace st)))) (bumps h (trace st) + bumps h (es @ [Rearmed h dir reason]))"
    by simp
qed

lemma act_shakes_good:
  assumes "act st st'" "slots_good st" "shakes_good st"
  shows "shakes_good st'"
  using assms(1)
proof cases
  case (a_env ss d ws m)
  then show ?thesis
    by (intro shakes_good_step [OF assms(3), where es = "map TunWritten ws"]) (auto simp: hist_other bumps_other)
next
  case (a_ctx h ctx dg b)
  with slots_goodD(2) [OF assms(2) a_ctx(2)] show ?thesis
    by (intro shakes_good_quiet [OF assms(3) a_ctx(2), where es = "[]" and ctx' = "ctx\<lparr> slot_state := b, downlink_diag := dg \<rparr>"])
      (auto simp: slot_good_simps split: socket_state.splits)
next
  case (a_sent h ctx p q dg s)
  then show ?thesis by (intro shakes_good_quiet [OF assms(3) a_sent(2), where ctx' = "ctx\<lparr> downlink_pending := q, downlink_diag := dg \<rparr>"]) auto
next
  case (a_cleared h ctx dg)
  then show ?thesis by (intro shakes_good_quiet [OF assms(3) a_cleared(2), where ctx' = "ctx\<lparr> downlink_pending := [], downlink_diag := dg \<rparr>"]) auto
next
  case (a_rearm h ctx dir reason s now)
  then show ?thesis by (intro shakes_good_rearm [OF assms(3), where es = "[]"]) auto
next
  case (a_refused h ctx p dir reason s now)
  then show ?thesis by (intro shakes_good_rearm [OF assms(3), where es = "[LocalRecv h p]"]) auto
next
  case (a_failed xs h e tgt ys ctx dir reason s now)
  then show ?thesis by (intro shakes_good_rearm [OF assms(3), where es = "[]"]) auto
next
  case (a_uplink h ctx c t p s)
  with slots_goodD(2) [OF assms(2) a_uplink(2)] show ?thesis
    by (intro shakes_good_quiet [OF assms(3) a_uplink(2), where ctx' = "ctx\<lparr> slot_state := Relaying \<rparr>"
          and es = "[LocalRecv h p, UplinkSend c p]"]) (auto simp: slot_good_simps split: socket_state.splits)
next
  case (a_lost h ctx b p s)
  then show ?thesis by (intro shakes_good_quiet [OF assms(3) a_lost(2), where ctx' = "ctx\<lparr> slot_state := b \<rparr>"]) (auto simp: unopened_def)
next
  case (a_buffer h ctx p s)
  then show ?thesis by (intro shakes_good_quiet [OF assms(3) a_buffer(2), where ctx' = "ctx\<lparr> uplink_buffer := uplink_buffer ctx @ p \<rparr>"]) auto
next
  case (a_open h ctx ep tgt fip stream p now s)
  then show ?thesis
    by (intro shakes_good_quiet [OF assms(3) a_open(2),
          where ctx' = "ctx\<lparr> uplink_tx := Some (next_chan st), slot_state := Relaying, slot_fake_ip := held_by fip ctx \<rparr>"
          and es = "[LocalRecv h p, UplinkSend (next_chan st) p, RelayStart h (next_chan st) stream]"])
      (auto simp: unopened_def)
next
  case (a_spawn h ctx ep tgt fip e es buf p s now)
  let ?es = "LocalRecv h p # es @ [HandshakeStart h e tgt]"
  have es: "\<forall>a\<in>set ?es. about a = None \<or> about a = Some h" "bumps h ?es = 1"
    using a_spawn(7) by (auto split: if_splits)
  show ?thesis
  proof (rule shakes_good_step [OF assms(3), where h = h and es = ?es])
    assume len: "length (trace st') < 2 ^ 64"
    with a_spawn(1) have "Suc (length (trace st)) < 2 ^ 64" by simp
    moreover have "Suc (bumps h (trace st)) \<le> Suc (length (trace st))" by (simp add: bumps_length)
    ultimately have "Suc (bumps h (trace st)) < 2 ^ 64" by (rule le_less_trans [rotated])
    then have lt: "Suc (bumps h (trace st)) < 2 ^ LENGTH(64)" by simp
    have "e = of_nat (Suc (bumps h (trace st)))"
      using slots_goodD(2) [OF assms(2) a_spawn(2)] by (simp add: a_spawn(6) slot_good_def)
    then have "unat e = Suc (bumps h (trace st))" by (simp only: unat_of_nat_small [OF lt])
    moreover assume "shake_ok (flights h (handshakes st)) (waiting (fmlookup (socket_ctxs st) h)) (h_shake (hist h (trace st))) (bumps h (trace st))"
    ultimately show "shake_ok (flights h (handshakes st')) (waiting (fmlookup (socket_ctxs st') h))
        (h_shake (fold (hist_step h) ?es (hist h (trace st)))) (bumps h (trace st) + bumps h ?es)"
      using shake_ok_spawn es(2) by (simp add: a_spawn(1) waiting_def)
  qed (use a_spawn es in auto)
next
  case (a_stale xs h e tgt ys)
  show ?thesis
  proof (rule shakes_good_step [OF assms(3), where h = h and es = "[]"])
    assume len: "length (trace st') < 2 ^ 64"
    have "unat e \<noteq> bumps h (trace st) \<or> \<not> waiting (fmlookup (socket_ctxs st) h)"
    proof (rule ccontr)
      assume "\<not> ?thesis"
      then obtain ctx where c: "fmlookup (socket_ctxs st) h = Some ctx" "slot_state ctx = HandshakePending"
        "unat e = bumps h (trace st)" by (auto simp: waiting_def)
      with epoch_bumps [OF assms(2) c(1)] len a_stale(1) have "conn_epoch ctx = e" by (simp add: word_unat_eq_iff)
      with a_stale(3) [OF c(1)] c(2) show False by simp
    qed
    moreover assume "shake_ok (flights h (handshakes st)) (waiting (fmlookup (socket_ctxs st) h)) (h_shake (hist h (trace st))) (bumps h (trace st))"
    ultimately show "shake_ok (flights h (handshakes st')) (waiting (fmlookup (socket_ctxs st') h))
        (h_shake (fold (hist_step h) [] (hist h (trace st)))) (bumps h (trace st) + bumps h [])"
      using shake_ok_remove(1) [of "flights h xs" "(e, tgt)" "flights h ys"] by (simp add: a_stale(1,2))
  qed (use a_stale in auto)
next
  case (a_installed xs h e tgt ys ctx q stream now)
  let ?es = "map (UplinkSend (next_chan st)) q @ [RelayStart h (next_chan st) stream]"
  have hi: "fold (hist_step h) (map (UplinkSend d) q) v = v" "bumps h (map (UplinkSend d) q) = 0" for d v
    by (rule hist_other, auto) (rule bumps_other, auto)
  show ?thesis
  proof (rule shakes_good_step [OF assms(3), where h = h and es = ?es])
    assume len: "length (trace st') < 2 ^ 64"
    with epoch_bumps [OF assms(2) a_installed(3)] a_installed(1,4) have "unat e = bumps h (trace st)" by simp
    moreover assume "shake_ok (flights h (handshakes st)) (waiting (fmlookup (socket_ctxs st) h)) (h_shake (hist h (trace st))) (bumps h (trace st))"
    ultimately show "shake_ok (flights h (handshakes st')) (waiting (fmlookup (socket_ctxs st') h))
        (h_shake (fold (hist_step h) ?es (hist h (trace st)))) (bumps h (trace st) + bumps h ?es)"
      using shake_ok_remove(2) [of "flights h xs" "(e, tgt)" "flights h ys"] a_installed(2)
      by (simp add: a_installed(1) waiting_def hi)
  qed (use a_installed in auto)
next
  case (a_remote h ctx p dg)
  then show ?thesis by (intro shakes_good_quiet [OF assms(3) a_remote(2), where ctx' = "ctx\<lparr> downlink_pending := downlink_pending ctx @ p, downlink_diag := dg \<rparr>"]) auto
next
  case (a_relay c t now sender inp ws bs t')
  then show ?thesis
    by (intro shakes_good_step [OF assms(3), where es = "map (StreamWrite c) ws @ map (\<lambda>b. StreamRead c (snd b)) bs"])
      (auto simp: hist_other bumps_other)
qed

lemma acts_good: "acts st st' \<Longrightarrow> slots_good st \<Longrightarrow> shakes_good st \<Longrightarrow> slots_good st' \<and> shakes_good st'"
  by (induction rule: rtranclp_induct) (auto intro: act_slots_good act_shakes_good)

lemma grow_shakes_good:
  assumes "grow st st'" "slots_good st" "shakes_good st"
  shows "shakes_good st'"
  using assms(1)
proof cases
  case (g_listener h port s)
  then have "fmlookup (socket_ctxs st) h = None"
    using slots_goodD(1) [OF assms(2)] by (metis fmdom_notD fmdom_notI)
  with g_listener show ?thesis
    by (intro shakes_good_step [OF assms(3), where h = h and es = "[]"]) (auto simp: waiting_def socket_ctx_new_def)
next
  case (g_registry reg)
  then show ?thesis using assms(3) by (simp add: shakes_good_def)
qed

lemma grows_good: "grows st st' \<Longrightarrow> slots_good st \<Longrightarrow> shakes_good st \<Longrightarrow> slots_good st' \<and> shakes_good st'"
  by (induction rule: rtranclp_induct) (auto intro: grow_slots_good grow_shakes_good)

lemma flight_mem: "i < length hs \<Longrightarrow> hs ! i = (h, x) \<Longrightarrow> x \<in> set (flights h hs)"
  unfolding flights_def by (force simp: in_set_conv_nth)

lemma flight_origin:
  "x \<in> set (flights h hs) \<Longrightarrow> (h, x) \<in> set hs"
  by (auto simp: flights_def)

text \<open>Fewer than \<open>2 ^ 64\<close> actions: the handshake with a slot's epoch is the one its connection started, and a slot that waits has one.\<close>

lemma epoch_match:
  assumes "slots_good sl" "shakes_good sl" "length (trace sl) < 2 ^ 64" "fmlookup (socket_ctxs sl) h = Some ctx"
  shows "(conn_epoch ctx, tgt) \<in> set (flights h (handshakes sl)) \<Longrightarrow> h_shake (hist h (trace sl)) = Some (conn_epoch ctx, tgt)"
    "slot_state ctx = HandshakePending \<Longrightarrow> \<exists>tgt. (h, conn_epoch ctx, tgt) \<in> set (handshakes sl)"
proof -
  note e = epoch_bumps [OF assms(1,4,3)]
  have s: "shake_ok (flights h (handshakes sl)) (waiting (Some ctx)) (h_shake (hist h (trace sl))) (bumps h (trace sl))"
    using assms(2,3) unfolding shakes_good_def assms(4) [symmetric] by blast
  show "(conn_epoch ctx, tgt) \<in> set (flights h (handshakes sl)) \<Longrightarrow> h_shake (hist h (trace sl)) = Some (conn_epoch ctx, tgt)"
    using s e by (auto simp: shake_ok_def)
  show "\<exists>tgt. (h, conn_epoch ctx, tgt) \<in> set (handshakes sl)" if "slot_state ctx = HandshakePending"
  proof -
    from that s e have "unat (conn_epoch ctx) \<in> (unat \<circ> fst) ` set (flights h (handshakes sl))"
      by (simp add: shake_ok_def waiting_def)
    then obtain x where "x \<in> set (flights h (handshakes sl))" "unat (conn_epoch ctx) = unat (fst x)" by auto
    then show ?thesis using flight_origin [of x h "handshakes sl"]
      by (intro exI [of _ "snd x"]) (simp add: word_unat_eq_iff [symmetric])
  qed
qed

end
