(* ===== verification/UdpPlane.thy ===== *)
theory UdpPlane
  imports Dns Slots Assoc Frag
begin

text \<open>
  The raw-packet side of the main loop: the UDP packet parser and builder of \<^verbatim>\<open>src/udp_relay.rs\<close>, and of
  \<^verbatim>\<open>src/client_tun.rs\<close> the classification of inbound packets, the hijacking of DNS queries, and the UDP relay
  in both directions.

  The packet library (etherparse) is the parameter \<open>ep\<close>: its parser of IP packets and its builder of
  IPv4/UDP packets. What the code relies on is \<open>ep_contract\<close>: the payload is a part of the packet, a packet it builds parses back to the same
  addresses, ports and payload, and building fails exactly for payloads that do not fit an IPv4 packet.
\<close>

section \<open>Packets\<close>

datatype ip_header = Version4 u32 u32 | Version6

datatype transport_header = UdpHeader u16 u16 | TcpHeader u16 bool bool | OtherTransport

record packet_headers =
  ph_ip :: "ip_header option"
  ph_transport :: "transport_header option"
  ph_payload :: bytes

record etherparse =
  from_ip_slice :: "bytes \<Rightarrow> packet_headers option"
  write_ipv4_udp :: "u32 \<Rightarrow> u32 \<Rightarrow> u8 \<Rightarrow> u16 \<Rightarrow> u16 \<Rightarrow> bytes \<Rightarrow> bytes option"

definition ep_contract :: "etherparse \<Rightarrow> bool" where
  "ep_contract ep \<longleftrightarrow>
     (\<forall>pkt headers. from_ip_slice ep pkt = Some headers \<longrightarrow> length (ph_payload headers) \<le> length pkt) \<and>
     (\<forall>src dst sp dp payload.
     case write_ipv4_udp ep src dst 64 sp dp payload of
       None \<Rightarrow> length payload > 65507
     | Some pkt \<Rightarrow> length payload \<le> 65507 \<and>
         from_ip_slice ep pkt = Some \<lparr> ph_ip = Some (Version4 src dst), ph_transport = Some (UdpHeader sp dp), ph_payload = payload \<rparr>)"

record udp_inbound =
  ui_src_ip :: u32
  ui_src_port :: u16
  ui_dst_ip :: u32
  ui_dst_port :: u16
  ui_payload :: bytes

definition parse_inbound_udp :: "etherparse \<Rightarrow> bytes \<Rightarrow> udp_inbound option" where
  "parse_inbound_udp ep pkt =
     (case from_ip_slice ep pkt of
        None \<Rightarrow> None
      | Some headers \<Rightarrow>
          (case ph_ip headers of
             Some (Version4 src dst) \<Rightarrow>
               (case ph_transport headers of
                  Some (UdpHeader sp dp) \<Rightarrow>
                    Some \<lparr> ui_src_ip = src, ui_src_port = sp, ui_dst_ip = dst, ui_dst_port = dp,
                           ui_payload = ph_payload headers \<rparr>
                | _ \<Rightarrow> None)
           | _ \<Rightarrow> None))"

text \<open>\<open>None\<close> where the code's \<open>expect\<close> panics.\<close>

definition build_udp_ip_packet :: "etherparse \<Rightarrow> u32 \<times> u16 \<Rightarrow> u32 \<times> u16 \<Rightarrow> bytes \<Rightarrow> bytes option" where
  "build_udp_ip_packet ep src dst payload = write_ipv4_udp ep (fst src) (fst dst) 64 (snd src) (snd dst) payload"

definition inspect_inbound_tcp :: "etherparse \<Rightarrow> bytes \<Rightarrow> (u16 \<times> bool) option" where
  "inspect_inbound_tcp ep packet =
     (case from_ip_slice ep packet of
        None \<Rightarrow> None
      | Some parsed \<Rightarrow>
          (case ph_transport parsed of
             Some (TcpHeader dp syn ack) \<Rightarrow> Some (dp, syn \<and> \<not> ack)
           | _ \<Rightarrow> None))"

datatype inbound = InDns | InUdpRelay | InOther

definition classify_inbound :: "etherparse \<Rightarrow> bytes \<Rightarrow> inbound" where
  "classify_inbound ep pkt =
     (case parse_inbound_udp ep pkt of
        Some udp \<Rightarrow> if ui_dst_port udp = 53 then InDns else InUdpRelay
      | None \<Rightarrow> InOther)"

section \<open>DNS\<close>

definition forge_dns_reply ::
    "etherparse \<Rightarrow> udp_inbound \<Rightarrow> nat \<Rightarrow> fake_ip_pool \<Rightarrow> (bytes option \<times> fake_ip_pool) option" where
  "forge_dns_reply ep udp now p =
     (case parse_query (ui_payload udp) of
        None \<Rightarrow> Some (None, p)
      | Some q \<Rightarrow>
          (let (resp, p') =
             (if q_qtype q = QTYPE_A
              then (let (ip, p1) = alloc (q_qname q) now p in (build_response q (AnswerA ip 5), p1))
              else (build_response q NoData, p))
           in map_option (\<lambda>pkt. (Some pkt, p'))
                (build_udp_ip_packet ep (ui_dst_ip udp, 53) (ui_src_ip udp, ui_src_port udp) resp)))"

definition handle_dns_hijack ::
    "etherparse \<Rightarrow> bool \<Rightarrow> (nat \<Rightarrow> unit result) \<Rightarrow> bytes \<Rightarrow> nat \<Rightarrow> ('s, 'r) slots \<Rightarrow> ('s, 'r) slots option" where
  "handle_dns_hijack ep macos os_write pkt now st =
     (case parse_inbound_udp ep pkt of
        None \<Rightarrow> Some st
      | Some udp \<Rightarrow>
          (case forge_dns_reply ep udp now (fake_pool st) of
             None \<Rightarrow> None
           | Some (Some reply, p) \<Rightarrow>
               Some (snd (device_flush os_write
                 (st\<lparr> fake_pool := p, loop_metrics := inc_dns_forged (loop_metrics st),
                      device := inject_ip_packet macos reply (device st) \<rparr>)))
           | Some (None, p) \<Rightarrow>
               Some (st\<lparr> fake_pool := p, loop_metrics := inc_dns_dropped (loop_metrics st) \<rparr>)))"

section \<open>The UDP relay\<close>

definition release_all :: "nat \<Rightarrow> u32 list \<Rightarrow> fake_ip_pool \<Rightarrow> fake_ip_pool" where
  "release_all now ips p = fold (\<lambda>ip. release ip now) ips p"

text \<open>
  The uplink: the datagram for the upstream, if any, and the new table and pool. \<open>None\<close> if the search for
  a free association id does not end.
\<close>

definition handle_tuic_udp_uplink ::
    "etherparse \<Rightarrow> bytes \<Rightarrow> nat \<Rightarrow> assoc_table \<Rightarrow> fake_ip_pool \<Rightarrow> (bytes option \<times> assoc_table \<times> fake_ip_pool) option" where
  "handle_tuic_udp_uplink ep pkt now t p =
     (case parse_inbound_udp ep pkt of
        None \<Rightarrow> Some (None, t, p)
      | Some udp \<Rightarrow>
          (case resolve_target (V4 (ui_dst_ip udp), ui_dst_port udp) p of
             Refuse \<Rightarrow> Some (None, t, p)
           | Block \<Rightarrow> Some (None, t, p)
           | Direct target fake_ip \<Rightarrow>
               (let tuple = \<lparr> src_ip = ui_src_ip udp, src_port = ui_src_port udp,
                              dst_ip = ui_dst_ip udp, dst_port = ui_dst_port udp \<rparr>;
                    is_new = (\<not> assoc_contains tuple t)
                in case intern tuple t of
                     None \<Rightarrow> None
                   | Some (assoc_id, t1) \<Rightarrow>
                       (let t2 = touch assoc_id now t1;
                            (t3, p1) =
                              (case fake_ip of
                                 Some ip \<Rightarrow> if is_new then (set_fake_ip assoc_id ip t2, acquire ip now p) else (t2, p)
                               | None \<Rightarrow> (t2, p));
                            (ips, t4) = take_reclaimed_fake_ips t3
                        in Some (Some (encode_packet assoc_id target (ui_payload udp)), t4, release_all now ips p1)))))"

text \<open>
  The downlink arm of the main loop: decoding, reassembly, the route back to the application, and the
  packet that is injected, if any. \<open>None\<close> where the packet builder panics.
\<close>

definition handle_tuic_udp_downlink ::
    "etherparse \<Rightarrow> bytes \<Rightarrow> nat \<Rightarrow> frag_reassembler \<Rightarrow> assoc_table \<Rightarrow> (bytes option \<times> frag_reassembler \<times> assoc_table) option" where
  "handle_tuic_udp_downlink ep dg now r t =
     (case decode_packet_meta dg of
        None \<Rightarrow> Some (None, r, t)
      | Some meta \<Rightarrow>
          (case frag_accept meta now r of
             (None, r') \<Rightarrow> Some (None, r', t)
           | (Some payload, r') \<Rightarrow>
               (case assoc_resolve (pm_assoc_id meta) t of
                  None \<Rightarrow> Some (None, r', t)
                | Some e \<Rightarrow>
                    map_option (\<lambda>pkt. (Some pkt, r', touch (pm_assoc_id meta) now t))
                      (build_udp_ip_packet ep (target_src e) (app_endpoint e) payload))))"

section \<open>A concrete packet library, for examples\<close>

text \<open>A reversible encoding of the few fields the code uses; frames of three bytes stand for TCP segments.\<close>

definition demo_write :: "u32 \<Rightarrow> u32 \<Rightarrow> u8 \<Rightarrow> u16 \<Rightarrow> u16 \<Rightarrow> bytes \<Rightarrow> bytes option" where
  "demo_write src dst ttl sp dp payload =
     (if length payload \<le> 65507 then Some (be32 src @ be32 dst @ be16 sp @ be16 dp @ payload) else None)"

definition demo_parse :: "bytes \<Rightarrow> packet_headers option" where
  "demo_parse b =
     (if length b = 3 then
        Some \<lparr> ph_ip = Some (Version4 0 0), ph_transport = Some (TcpHeader (from_be16 (b ! 0) (b ! 1)) (b ! 2 = 2) False), ph_payload = [] \<rparr>
      else if length b < 12 then None
      else Some \<lparr> ph_ip = Some (Version4 (from_be32 (b ! 0) (b ! 1) (b ! 2) (b ! 3)) (from_be32 (b ! 4) (b ! 5) (b ! 6) (b ! 7))),
                  ph_transport = Some (UdpHeader (from_be16 (b ! 8) (b ! 9)) (from_be16 (b ! 10) (b ! 11))),
                  ph_payload = drop 12 b \<rparr>)"

definition demo_etherparse :: etherparse where
  "demo_etherparse = \<lparr> from_ip_slice = demo_parse, write_ipv4_udp = demo_write \<rparr>"

lemma demo_parse_write:
  "demo_parse (be32 src @ be32 dst @ be16 sp @ be16 dp @ payload) =
     Some \<lparr> ph_ip = Some (Version4 src dst), ph_transport = Some (UdpHeader sp dp), ph_payload = payload \<rparr>"
proof -
  let ?b = "be32 src @ be32 dst @ be16 sp @ be16 dp @ payload"
  have "from_be32 (?b ! 0) (?b ! 1) (?b ! 2) (?b ! 3) = src" "from_be32 (?b ! 4) (?b ! 5) (?b ! 6) (?b ! 7) = dst"
    "from_be16 (?b ! 8) (?b ! 9) = sp" "from_be16 (?b ! 10) (?b ! 11) = dp"
    by (simp_all add: be32_def be16_def from_be32_be32 from_be16_be16)
  then show ?thesis by (simp add: demo_parse_def)
qed

lemma demo_ep_contract: "ep_contract demo_etherparse"
  unfolding ep_contract_def
proof (intro conjI allI impI)
  fix pkt headers assume "from_ip_slice demo_etherparse pkt = Some headers"
  then show "length (ph_payload headers) \<le> length pkt"
    by (auto simp: demo_etherparse_def demo_parse_def split: if_splits)
next
  fix src dst sp dp and payload :: bytes
  show "case write_ipv4_udp demo_etherparse src dst 64 sp dp payload of
       None \<Rightarrow> length payload > 65507
     | Some pkt \<Rightarrow> length payload \<le> 65507 \<and>
         from_ip_slice demo_etherparse pkt =
           Some \<lparr> ph_ip = Some (Version4 src dst), ph_transport = Some (UdpHeader sp dp), ph_payload = payload \<rparr>"
    by (cases "length payload \<le> 65507") (simp_all add: demo_etherparse_def demo_write_def demo_parse_write)
qed

section \<open>Properties\<close>

lemma ep_contractD:
  assumes "ep_contract ep"
  shows "case build_udp_ip_packet ep src dst payload of
       None \<Rightarrow> length payload > 65507
     | Some pkt \<Rightarrow> length payload \<le> 65507 \<and>
         from_ip_slice ep pkt = Some \<lparr> ph_ip = Some (Version4 (fst src) (fst dst)),
           ph_transport = Some (UdpHeader (snd src) (snd dst)), ph_payload = payload \<rparr>"
  using assms unfolding ep_contract_def build_udp_ip_packet_def by blast

lemma build_parse:
  assumes "ep_contract ep" "build_udp_ip_packet ep src dst payload = Some pkt"
  shows "parse_inbound_udp ep pkt = Some \<lparr> ui_src_ip = fst src, ui_src_port = snd src, ui_dst_ip = fst dst,
      ui_dst_port = snd dst, ui_payload = payload \<rparr>"
  using ep_contractD [OF assms(1), where src = src and dst = dst and payload = payload] assms(2) by (simp add: parse_inbound_udp_def)

lemma build_None_iff: "ep_contract ep \<Longrightarrow> build_udp_ip_packet ep src dst payload = None \<longleftrightarrow> length payload > 65507"
  using ep_contractD [of ep, where src = src and dst = dst and payload = payload] by (cases "build_udp_ip_packet ep src dst payload") auto

lemma resolved_is_fake: "pool_inv p \<Longrightarrow> resolve ip p = Some d \<Longrightarrow> is_fake ip p"
  by (auto simp: resolve_def intro: assignable_is_fake pool_invD(3))

text \<open>
  C16. DNS names survive the detour through fake addresses. For every plain DNS query packet, whatever
  resolver it is addressed to: nothing is sent upstream; the application gets exactly one packet, from the
  resolver's address and port 53 to its own endpoint, that answers its query; for an address query the
  answer is an address from which a later TCP connection or UDP packet to any port is relayed to the name
  that was asked for (unless that port or name is blocked), so the name is resolved at the far end; any
  other query is answered with no data and leaves the pool alone.
\<close>

theorem dns_hijack_target:
  assumes "ep_contract ep" "pool_inv (fake_pool st)" "parse_inbound_udp ep pkt = Some udp"
    "ui_dst_port udp = 53" "parse_query (ui_payload udp) = Some q" "tx_queue (device st) = []" "length (ui_payload udp) \<le> 9000"
  shows "classify_inbound ep pkt = InDns \<and>
    (\<exists>st' reply resp. handle_dns_hijack ep False (\<lambda>_. Inr ()) pkt now st = Some st' \<and>
       trace st' = trace st @ [TunWritten [reply]] \<and> tx_queue (device st') = [] \<and>
       parse_inbound_udp ep reply = Some \<lparr> ui_src_ip = ui_dst_ip udp, ui_src_port = 53, ui_dst_ip = ui_src_ip udp,
         ui_dst_port = ui_src_port udp, ui_payload = resp \<rparr> \<and>
       parse_query resp = Some q \<and>
       (if q_qtype q = QTYPE_A then
          \<exists>ip. drop (length resp - 4) resp = be32 ip \<and>
            (\<forall>port. \<not> is_dns_relay_port port \<longrightarrow> \<not> (port = 443 \<and> is_doh_domain (q_qname q)) \<longrightarrow>
               resolve_target (V4 ip, port) (fake_pool st') = Direct (DomainPort (q_qname q) port) (Some ip))
        else fake_pool st' = fake_pool st))"
proof -
  obtain ip p1 where al: "alloc (q_qname q) now (fake_pool st) = (ip, p1)" by fastforce
  define ans where "ans = (if q_qtype q = QTYPE_A then AnswerA ip 5 else NoData)"
  define p' where "p' = (if q_qtype q = QTYPE_A then p1 else fake_pool st)"
  let ?resp = "build_response q ans"
  have "length ?resp \<le> 65507"
    using assms(7) question_length [OF assms(5)]
    by (simp add: build_response_def response_header_def answer_record_def ans_def Let_def)
  then obtain reply where b: "build_udp_ip_packet ep (ui_dst_ip udp, 53) (ui_src_ip udp, ui_src_port udp) ?resp = Some reply"
    using build_None_iff [OF assms(1), of "(ui_dst_ip udp, 53)" "(ui_src_ip udp, ui_src_port udp)" ?resp] by fastforce
  have f: "forge_dns_reply ep udp now (fake_pool st) = Some (Some reply, p')"
    using b by (cases "q_qtype q = QTYPE_A") (simp_all add: forge_dns_reply_def assms(5) al ans_def p'_def)
  have m: "parse_query ?resp = Some q" "q_qtype q = QTYPE_A \<Longrightarrow> drop (length ?resp - 4) ?resp = be32 ip"
    using response_parses [OF assms(5), of ans] response_address by (simp_all add: ans_def)
  let ?st' = "snd (device_flush (\<lambda>_. Inr ()) (st\<lparr> fake_pool := p', loop_metrics := inc_dns_forged (loop_metrics st),
                      device := inject_ip_packet False reply (device st) \<rparr>))"
  have h: "handle_dns_hijack ep False (\<lambda>_. Inr ()) pkt now st = Some ?st'"
    by (simp add: handle_dns_hijack_def assms(3) f)
  have w: "trace ?st' = trace st @ [TunWritten [reply]]" "tx_queue (device ?st') = []" "fake_pool ?st' = p'"
    using assms(6) by (simp_all add: device_flush_def flush_tx_def inject_ip_packet_def push_injected_def emit_def)
  have r: "resolve_target (V4 ip, port) p1 = Direct (DomainPort (q_qname q) port) (Some ip)"
    if "\<not> is_dns_relay_port port" "\<not> (port = 443 \<and> is_doh_domain (q_qname q))" for port
    using alloc_resolve(1) [OF assms(2) al] resolved_is_fake [OF alloc_inv [OF assms(2) al]] that
    by (auto simp: resolve_target_def)
  show ?thesis
    using h w m b build_parse [OF assms(1) b] r assms(3,4)
    by (auto simp: classify_inbound_def p'_def intro!: exI [of _ ?st'])
qed

theorem dns_hijack_target_witness:
  "\<exists>st' reply resp. handle_dns_hijack demo_etherparse False (\<lambda>_. Inr ())
       (be32 0x0A000001 @ be32 0x08080808 @ be16 5353 @ be16 53 @ query_packet 7 0x0100 [0,0,0,0,0,0] [str ''a''] 1 1) 3
       (slots_init 2 1500 :: (unit, unit) slots) = Some st' \<and>
     trace st' = [TunWritten [reply]] \<and>
     parse_inbound_udp demo_etherparse reply = Some \<lparr> ui_src_ip = 0x08080808, ui_src_port = 53, ui_dst_ip = 0x0A000001,
         ui_dst_port = 5353, ui_payload = resp \<rparr> \<and>
     (\<exists>ip. drop (length resp - 4) resp = be32 ip \<and>
        resolve_target (V4 ip, 80) (fake_pool st') = Direct (DomainPort (str ''a'') 80) (Some ip))"
proof -
  let ?q = "query_of 7 0x0100 [str ''a''] 1 1"
  let ?dns = "query_packet 7 0x0100 [0,0,0,0,0,0] [str ''a''] 1 1"
  let ?pkt = "be32 0x0A000001 @ be32 0x08080808 @ be16 5353 @ be16 53 @ ?dns"
  let ?udp = "\<lparr> ui_src_ip = 0x0A000001, ui_src_port = 5353, ui_dst_ip = 0x08080808, ui_dst_port = 53, ui_payload = ?dns \<rparr>"
  let ?st = "slots_init 2 1500 :: (unit, unit) slots"
  have p: "parse_inbound_udp demo_etherparse ?pkt = Some ?udp"
    by (simp add: parse_inbound_udp_def demo_etherparse_def demo_parse_write)
  have d: "parse_query (ui_payload ?udp) = Some ?q"
    using parse_query_complete [of "[str ''a'']" "[0,0,0,0,0,0]" 7 "0x0100" 1 1 "[]"] by (simp add: wf_label_def str_def)
  have n: "q_qtype ?q = QTYPE_A" "q_qname ?q = str ''a''" by (simp_all add: query_of_def QTYPE_A_def)
  have len: "length (ui_payload ?udp) \<le> 9000"
    by (simp add: query_packet_def encode_question_def encode_labels_def str_def)
  have port: "\<not> is_dns_relay_port 80" by (simp add: is_dns_relay_port_def is_encrypted_dns_port_def)
  have "\<exists>st' reply resp. handle_dns_hijack demo_etherparse False (\<lambda>_. Inr ()) ?pkt 3 ?st = Some st' \<and>
       trace st' = trace ?st @ [TunWritten [reply]] \<and> tx_queue (device st') = [] \<and>
       parse_inbound_udp demo_etherparse reply = Some \<lparr> ui_src_ip = ui_dst_ip ?udp, ui_src_port = 53, ui_dst_ip = ui_src_ip ?udp,
         ui_dst_port = ui_src_port ?udp, ui_payload = resp \<rparr> \<and>
       parse_query resp = Some ?q \<and>
       (if q_qtype ?q = QTYPE_A then
          \<exists>ip. drop (length resp - 4) resp = be32 ip \<and>
            (\<forall>port. \<not> is_dns_relay_port port \<longrightarrow> \<not> (port = 443 \<and> is_doh_domain (q_qname ?q)) \<longrightarrow>
               resolve_target (V4 ip, port) (fake_pool st') = Direct (DomainPort (q_qname ?q) port) (Some ip))
        else fake_pool st' = fake_pool ?st)"
    using dns_hijack_target [OF demo_ep_contract _ p _ d _ len, of ?st 3] by (simp add: pool_new_inv device_new_def slots_init_def)
  then show ?thesis using n port by (fastforce simp: slots_init_def dest!: spec [of _ 80])
qed

section \<open>References of UDP flows\<close>

lemma release_all_balanced:
  "pool_inv p \<Longrightarrow> balanced refs p (mset ips + hs) \<Longrightarrow>
   pool_inv (release_all now ips p) \<and> balanced refs (release_all now ips p) hs"
proof (induction ips arbitrary: p)
  case (Cons ip ips)
  then have "balanced refs (release ip now p) (mset ips + hs)"
    using pool_refs.balanced_rel [OF Cons.prems, of ip now] by simp
  with Cons release_inv [of p ip now] show ?case by (simp add: release_all_def)
qed (simp add: release_all_def)

lemma resolve_target_known:
  "resolve_target ep p = Direct tgt (Some ip) \<Longrightarrow> resolve ip p \<noteq> None"
  by (auto simp: resolve_target_def split: ip_addr.splits option.splits if_splits)

text \<open>What a packet of the application does to the table and the pool.\<close>

definition tuple_of :: "udp_inbound \<Rightarrow> four_tuple" where
  "tuple_of udp = \<lparr> src_ip = ui_src_ip udp, src_port = ui_src_port udp, dst_ip = ui_dst_ip udp, dst_port = ui_dst_port udp \<rparr>"

lemma intern_returns:
  assumes "assoc_inv t"
  obtains i t' where "intern tuple t = Some (i, t')"
proof (cases "fmlookup (tuple_to_id t) tuple")
  case None
  with intern_new [OF assms, of tuple] that show ?thesis by blast
qed (use that in \<open>simp add: intern_def\<close>)

lemma interned_resolves:
  assumes "assoc_inv t" "intern tuple t = Some (i, t')"
  shows "map_option fe_tuple (assoc_resolve i t') = Some tuple"
  using assoc_index.fwd_bwd [OF intern_inv(1,2) [OF assms]] by (auto simp: assoc_resolve_def)

lemma uplink_flow:
  assumes "assoc_inv t" "parse_inbound_udp ep pkt = Some udp"
    "resolve_target (V4 (ui_dst_ip udp), ui_dst_port udp) p = Direct target fip"
  shows "\<exists>i t1. intern (tuple_of udp) t = Some (i, t1) \<and>
    (let new = (\<not> assoc_contains (tuple_of udp) t);
         t3 = (case fip of Some ip \<Rightarrow> if new then set_fake_ip i ip (touch i now t1) else touch i now t1 | None \<Rightarrow> touch i now t1);
         p1 = (case fip of Some ip \<Rightarrow> if new then acquire ip now p else p | None \<Rightarrow> p)
     in handle_tuic_udp_uplink ep pkt now t p =
          Some (Some (encode_packet i target (ui_payload udp)), t3\<lparr> reclaimed_fake_ips := [] \<rparr>,
                release_all now (reclaimed_fake_ips t3) p1))"
proof -
  obtain i t1 where i: "intern (tuple_of udp) t = Some (i, t1)" using intern_returns [OF assms(1)] by blast
  then show ?thesis
    by (cases fip) (auto simp: handle_tuic_udp_uplink_def assms(2,3) tuple_of_def Let_def take_reclaimed_fake_ips_def)
qed

lemma touch_reclaimed [simp]: "reclaimed_fake_ips (touch i now t) = reclaimed_fake_ips t" "id_to_fake_ip (touch i now t) = id_to_fake_ip t"
  by (simp_all add: touch_def split: option.split)

lemma touch_resolves: "map_option fe_tuple (assoc_resolve j (touch i now t)) = map_option fe_tuple (assoc_resolve j t)"
  by (auto simp: touch_def assoc_resolve_def split: option.split)

text \<open>An uplink packet either changes nothing, or registers its flow, perhaps with a new reference, and releases what was evicted.\<close>

lemma uplink_steps:
  assumes "assoc_inv t" "handle_tuic_udp_uplink ep pkt now t p = Some (d, t', p')"
  obtains "t' = t" "p' = p"
  | t3 p1 where "assoc_inv t3" "t' = t3\<lparr> reclaimed_fake_ips := [] \<rparr>" "p' = release_all now (reclaimed_fake_ips t3) p1"
      "held t3 = held t \<and> p1 = p \<or> (\<exists>ip. resolve ip p \<noteq> None \<and> held t3 = add_mset ip (held t) \<and> p1 = acquire ip now p)"
proof (cases "d = None")
  case True
  with assms that(1) show ?thesis
    by (auto simp: handle_tuic_udp_uplink_def Let_def split: option.splits target_resolve.splits prod.splits)
next
  case False
  then obtain udp target fip where u: "parse_inbound_udp ep pkt = Some udp"
    "resolve_target (V4 (ui_dst_ip udp), ui_dst_port udp) p = Direct target fip"
    using assms(2)
    by (cases "parse_inbound_udp ep pkt"; cases "resolve_target (V4 (ui_dst_ip (the (parse_inbound_udp ep pkt))), ui_dst_port (the (parse_inbound_udp ep pkt))) p")
      (auto simp: handle_tuic_udp_uplink_def)
  let ?new = "\<not> assoc_contains (tuple_of udp) t"
  define t3 where "t3 = (\<lambda>i t1. case fip of Some ip \<Rightarrow> if ?new then set_fake_ip i ip (touch i now t1) else touch i now t1 | None \<Rightarrow> touch i now t1)"
  define p1 where "p1 = (case fip of Some ip \<Rightarrow> if ?new then acquire ip now p else p | None \<Rightarrow> p)"
  from uplink_flow [OF assms(1) u, of now] assms(2) obtain i t1 where i: "intern (tuple_of udp) t = Some (i, t1)"
    and r: "t' = (t3 i t1)\<lparr> reclaimed_fake_ips := [] \<rparr>" "p' = release_all now (reclaimed_fake_ips (t3 i t1)) p1"
    by (auto simp: Let_def t3_def p1_def)
  have t1: "assoc_inv (touch i now t1)" "held (touch i now t1) = held t"
    using intern_inv(1) [OF assms(1) i] held_intern [OF assms(1) i] by (simp_all add: touch_inv)
  show ?thesis
  proof (cases "fip = None \<or> assoc_contains (tuple_of udp) t")
    case True
    then have "t3 i t1 = touch i now t1" "p1 = p" by (auto simp: t3_def p1_def split: option.split)
    with t1 r show ?thesis by (intro that(2) [of "touch i now t1" p]) auto
  next
    case False
    then obtain ip where f: "fip = Some ip" "?new" by auto
    note fr = intern_fresh [OF assms(1) i f(2)]
    have "fmlookup (id_to_entry (touch i now t1)) i \<noteq> None"
      using fr(2) by (auto simp: touch_def split: option.split)
    then have "assoc_inv (t3 i t1)" using t1(1) f by (simp add: t3_def set_fake_ip_inv)
    moreover have "held (t3 i t1) = add_mset ip (held t)"
      using f t1(2) held_set_fake_ip [of "touch i now t1" i ip] fr(1) by (simp add: t3_def)
    moreover have "resolve ip p \<noteq> None" using resolve_target_known u(2) f(1) by blast
    ultimately show ?thesis using r f by (intro that(2) [of "t3 i t1" p1]) (auto simp: p1_def)
  qed
qed

lemma release_all_inv: "pool_inv p \<Longrightarrow> pool_inv (release_all now ips p)"
  by (induction ips arbitrary: p) (simp_all add: release_all_def release_inv)

lemma uplink_inv:
  assumes "assoc_inv t" "handle_tuic_udp_uplink ep pkt now t p = Some (d, t', p')" "pool_inv p" "reclaimed_fake_ips t = []"
  shows "assoc_inv t' \<and> pool_inv p' \<and> reclaimed_fake_ips t' = []"
  using assms(1,2)
proof (cases rule: uplink_steps)
  case (2 t3 p1)
  then have "pool_inv p1" using assms(3) by (auto simp: acquire_inv)
  with 2 show ?thesis by (auto simp: release_all_inv assoc_inv_def)
qed (use assms in simp)

lemma uplink_keeps:
  assumes "assoc_inv t" "pool_inv p" "balanced refs p (held t + hs)" "size (held t + hs) < 2 ^ 32 - 1"
    "handle_tuic_udp_uplink ep pkt now t p = Some (d, t', p')"
  shows "balanced refs p' (held t' + hs)"
  using assms(1,5)
proof (cases rule: uplink_steps)
  case (2 t3 p1)
  have "pool_inv p1 \<and> balanced refs p1 (held t3 + hs)"
    using 2(4) assms(2,3) pool_refs.balanced_acq [OF assms(2) _ assms(4,3)] by (auto simp: acquire_inv)
  moreover have "held t3 = mset (reclaimed_fake_ips t3) + held t'" by (simp add: 2(2) held_def)
  ultimately show ?thesis
    using release_all_balanced [of p1 "reclaimed_fake_ips t3" "held t' + hs" now] 2(3) by (simp add: ac_simps)
qed (use assms in simp)

lemma fm_values_size: "size (fm_values m) = fcard (fmdom m)"
  by (simp add: fm_values_def fcard.rep_eq)

lemma held_size:
  assumes "assoc_inv t" "reclaimed_fake_ips t = []"
  shows "size (held t) \<le> 65535"
proof -
  have "fcard (fmdom (id_to_fake_ip t)) \<le> fcard (fmdom (id_to_entry t))"
    using assms(1) by (intro fcard_mono) (simp add: assoc_inv_def)
  with assms show ?thesis by (simp add: held_def fm_values_size assoc_inv_def)
qed



end
