(* ===== verification/EventLoop.thy ===== *)
theory EventLoop
  imports SlotInv UdpPlane
begin

text \<open>
  The main loop of \<^verbatim>\<open>src/client_tun.rs\<close> (\<open>run_event_loop\<close>): its state, every arm of its \<open>select!\<close> as a
  function, and the loop as a transition system in which any arm that is ready may run next, and the
  spawned relay tasks make their rounds in between. The parameters of the program are the TCP stack
  \<open>api\<close>, the packet library \<open>ep\<close> and the platform; what the environment contributes to one event (the frame
  the operating system delivers, what the stack does when it is polled, how writes end, how the
  upstream answers, the time) is part of the event.
\<close>

section \<open>Definitions\<close>

definition FAKE_IP_TTL :: nat where "FAKE_IP_TTL = 1800"

record ('s, 'r) tun =
  tl_slots :: "('s, 'r) slots"
  dirty :: "handle fset"
  assoc_tbl :: assoc_table
  reassembler :: frag_reassembler
  global_rx :: "(handle \<times> bytes) list"
  tcp_loop_flush_tx_calls :: u64
  tcp_loop_flush_tx_failures :: u64
  udp_out :: "bytes list"

definition tun_init :: "nat \<Rightarrow> nat \<Rightarrow> ('s, 'r) tun" where
  "tun_init n mtu =
     \<lparr> tl_slots = slots_init n mtu, dirty = {||}, assoc_tbl = assoc_new, reassembler = frag_new, global_rx = [],
       tcp_loop_flush_tx_calls = 0, tcp_loop_flush_tx_failures = 0, udp_out = [] \<rparr>"

definition set_slots :: "('s, 'r) slots \<Rightarrow> ('s, 'r) tun \<Rightarrow> ('s, 'r) tun" where
  "set_slots sl st = st\<lparr> tl_slots := sl \<rparr>"

definition has_pending :: "handle \<Rightarrow> ('s, 'r) slots \<Rightarrow> bool" where
  "has_pending h sl = (case fmlookup (socket_ctxs sl) h of Some ctx \<Rightarrow> downlink_pending ctx \<noteq> [] | None \<Rightarrow> False)"

text \<open>The relay section: every handle marked dirty, in the order of the snapshot.\<close>

fun process_dirty :: "'s tcp_api \<Rightarrow> 'r upstream \<Rightarrow> nat \<Rightarrow> handle list \<Rightarrow> ('s, 'r) tun \<Rightarrow> ('s, 'r) tun option" where
  "process_dirty api up now [] st = Some st"
| "process_dirty api up now (h # hs) st =
     (case process_listener_activity api up now h (tl_slots st) of
        None \<Rightarrow> None
      | Some (_, sl) \<Rightarrow>
          (case fmlookup (sockets sl) h of
             None \<Rightarrow> None
           | Some s \<Rightarrow>
               (let still_active = (tcp_can_recv api s \<or> has_pending h sl);
                    st1 = set_slots sl st
                in process_dirty api up now hs
                     (if still_active then st1 else st1\<lparr> dirty := dirty st1 |-| {|h|} \<rparr>))))"

definition process_dirty_relay :: "'s tcp_api \<Rightarrow> 'r upstream \<Rightarrow> nat \<Rightarrow> ('s, 'r) tun \<Rightarrow> ('s, 'r) tun option" where
  "process_dirty_relay api up now st = process_dirty api up now (sorted_list_of_fset (dirty st)) st"

text \<open>Polling the stack, writing its packets, and counting; both arms that poll share it.\<close>

definition poll_stack :: "'s poll_fun \<Rightarrow> (nat \<Rightarrow> unit result) \<Rightarrow> ('s, 'r) tun \<Rightarrow> ('s, 'r) tun" where
  "poll_stack poll os_write st =
     (let (r, sl) = device_flush os_write (iface_poll poll (tl_slots st))
      in (set_slots sl st)
           \<lparr> tcp_loop_flush_tx_calls := tcp_loop_flush_tx_calls st + 1,
             tcp_loop_flush_tx_failures := tcp_loop_flush_tx_failures st + (if r = Inr () then 0 else 1) \<rparr>)"

definition loop_remote ::
    "'s tcp_api \<Rightarrow> 's poll_fun \<Rightarrow> (nat \<Rightarrow> unit result) \<Rightarrow> nat \<Rightarrow> ('s, 'r) tun \<Rightarrow> ('s, 'r) tun option" where
  "loop_remote api poll os_write now st =
     (case global_rx st of
        [] \<Rightarrow> Some st
      | (h, payload) # q \<Rightarrow>
          (case handle_remote_payload api poll os_write now h payload (tl_slots st) of
             None \<Rightarrow> None
           | Some (_, sl) \<Rightarrow>
               Some ((set_slots sl st)\<lparr> global_rx := q,
                        dirty := (if has_pending h sl then finsert h (dirty st) else dirty st) \<rparr>)))"

text \<open>The SYN inspector and the marking of the port's slots.\<close>

definition inspect_frame :: "'s tcp_api \<Rightarrow> etherparse \<Rightarrow> ('s, 'r) tun \<Rightarrow> ('s, 'r) tun option" where
  "inspect_frame api ep st =
     (case Option.bind (rx_peek (device (tl_slots st))) (inspect_inbound_tcp ep) of
        None \<Rightarrow> Some st
      | Some (port, is_clean_syn) \<Rightarrow>
          (let grown =
             (if is_clean_syn then
                (case ensure_port api port (tl_slots st) of
                   None \<Rightarrow> None
                 | Some (_, sl1) \<Rightarrow> map_option snd (ensure_spare_listeners api port MIN_SPARE_LISTENERS sl1))
              else Some (tl_slots st))
           in map_option (\<lambda>sl. (set_slots sl st)
                \<lparr> dirty := dirty st |\<union>| fset_of_list (handles_for_port port (registry sl)) \<rparr>) grown))"

definition loop_rx ::
    "'s tcp_api \<Rightarrow> etherparse \<Rightarrow> bool \<Rightarrow> (nat \<Rightarrow> bytes result) \<Rightarrow> 's poll_fun \<Rightarrow> (nat \<Rightarrow> unit result) \<Rightarrow> 'r upstream \<Rightarrow>
     nat \<Rightarrow> ('s, 'r) tun \<Rightarrow> ('s, 'r) tun option" where
  "loop_rx api ep macos os_read poll os_write up now st0 =
     (let (res, d) = wait_for_rx macos os_read (device (tl_slots st0));
          st = set_slots ((tl_slots st0)\<lparr> device := d \<rparr>) st0;
          sl = tl_slots st
      in case res of
           Inl _ \<Rightarrow> Some st
         | Inr _ \<Rightarrow>
             (case map_option (classify_inbound ep) (rx_peek d) of
                Some InUdpRelay \<Rightarrow>
                  (case rx_take d of
                     (None, d') \<Rightarrow> Some st
                   | (Some pkt, d') \<Rightarrow>
                       (case handle_tuic_udp_uplink ep pkt now (assoc_tbl st) (fake_pool sl) of
                          None \<Rightarrow> None
                        | Some (dg, t, p) \<Rightarrow>
                            Some ((set_slots (sl\<lparr> device := d', fake_pool := p \<rparr>) st)
                              \<lparr> assoc_tbl := t, udp_out := udp_out st @ (case dg of Some x \<Rightarrow> [x] | None \<Rightarrow> []) \<rparr>)))
              | Some InDns \<Rightarrow>
                  (case rx_take d of
                     (None, d') \<Rightarrow> Some st
                   | (Some pkt, d') \<Rightarrow>
                       map_option (\<lambda>sl'. set_slots sl' st)
                         (handle_dns_hijack ep macos os_write pkt now (sl\<lparr> device := d' \<rparr>)))
              | _ \<Rightarrow>
                  (case inspect_frame api ep st of
                     None \<Rightarrow> None
                   | Some st1 \<Rightarrow> process_dirty_relay api up now (poll_stack poll os_write st1))))"

definition loop_handshake :: "'s tcp_api \<Rightarrow> nat \<Rightarrow> 'r result \<Rightarrow> nat \<Rightarrow> ('s, 'r) tun \<Rightarrow> ('s, 'r) tun option" where
  "loop_handshake api i res now st =
     (let hs = handshakes (tl_slots st) in
      if i < length hs then
        (case hs ! i of
           (h, epoch, _) \<Rightarrow>
             map_option (\<lambda>sl. set_slots sl st)
               (handle_handshake_done api now h epoch res
                  ((tl_slots st)\<lparr> handshakes := take i hs @ drop (Suc i) hs \<rparr>)))
      else Some st)"

definition loop_downlink ::
    "etherparse \<Rightarrow> bool \<Rightarrow> (nat \<Rightarrow> unit result) \<Rightarrow> bytes \<Rightarrow> nat \<Rightarrow> ('s, 'r) tun \<Rightarrow> ('s, 'r) tun option" where
  "loop_downlink ep macos os_write dg now st =
     (case handle_tuic_udp_downlink ep dg now (reassembler st) (assoc_tbl st) of
        None \<Rightarrow> None
      | Some (pkt, r, t) \<Rightarrow>
          (let sl = tl_slots st;
               sl' = (case pkt of
                        None \<Rightarrow> sl
                      | Some x \<Rightarrow> snd (device_flush os_write (sl\<lparr> device := inject_ip_packet macos x (device sl) \<rparr>)))
           in Some ((set_slots sl' st)\<lparr> reassembler := r, assoc_tbl := t \<rparr>)))"

definition loop_udp_sweep :: "'s tcp_api \<Rightarrow> nat \<Rightarrow> ('s, 'r) tun \<Rightarrow> ('s, 'r) tun option" where
  "loop_udp_sweep api now st =
     (let (ips, t) = assoc_sweep now UDP_FLOW_IDLE_SECS (assoc_tbl st);
          sl = tl_slots st;
          sl1 = sl\<lparr> fake_pool := release_all now ips (fake_pool sl) \<rparr>;
          r = frag_sweep now FRAG_REASSEMBLY_TTL_SECS (reassembler st)
      in map_option (\<lambda>(_, sl2). (set_slots sl2 st)\<lparr> assoc_tbl := t, reassembler := r \<rparr>) (reap_dead_slots api now sl1))"

definition loop_fake_ip_sweep :: "nat \<Rightarrow> ('s, 'r) tun \<Rightarrow> ('s, 'r) tun" where
  "loop_fake_ip_sweep now st =
     (let sl = tl_slots st in set_slots (sl\<lparr> fake_pool := snd (pool_sweep now FAKE_IP_TTL (fake_pool sl)) \<rparr>) st)"

definition loop_metrics_tick :: "u8 \<Rightarrow> ('s, 'r) tun \<Rightarrow> ('s, 'r) tun" where
  "loop_metrics_tick leg st = set_slots (publish_gauges leg (tl_slots st)) st"

definition loop_timer ::
    "'s tcp_api \<Rightarrow> 's poll_fun \<Rightarrow> (nat \<Rightarrow> unit result) \<Rightarrow> 'r upstream \<Rightarrow> nat \<Rightarrow> ('s, 'r) tun \<Rightarrow> ('s, 'r) tun option" where
  "loop_timer api poll os_write up now st = process_dirty_relay api up now (poll_stack poll os_write st)"

text \<open>
  A round of a relay task. The main loop keeps its end of \<open>global_rx\<close> open, so a message is accepted as soon
  as there is room; until then the task waits.
\<close>

definition sender_alive :: "nat \<Rightarrow> ('s, 'r) slots \<Rightarrow> bool" where
  "sender_alive c sl \<longleftrightarrow>
     list_ex (\<lambda>h. uplink_tx (the (fmlookup (socket_ctxs sl) h)) = Some c) (sorted_list_of_fset (fmdom (socket_ctxs sl)))"

fun relay_may :: "('s, 'r) tun \<Rightarrow> relay_input \<Rightarrow> bool" where
  "relay_may st (RemoteReady (Inr _) _ accepted) = (accepted \<and> length (global_rx st) < RELAY_CHANNEL_CAPACITY)"
| "relay_may st _ = True"

definition relay_round :: "nat \<Rightarrow> relay_input \<Rightarrow> nat \<Rightarrow> ('s, 'r) tun \<Rightarrow> ('s, 'r) tun" where
  "relay_round c inp now st =
     (let sl = tl_slots st in
      case fmlookup (relays sl) c of
        None \<Rightarrow> st
      | Some t \<Rightarrow>
          if rt_closed t \<noteq> None \<or> \<not> relay_may st inp then st
          else
            (case run_relay now (sender_alive c sl) inp t of
               None \<Rightarrow> st
             | Some (ws, bs, t') \<Rightarrow>
                 (set_slots (emit (map (StreamWrite c) ws @ map (\<lambda>b. StreamRead c (snd b)) bs)
                     (sl\<lparr> relays := fmupd c t' (relays sl) \<rparr>)) st)\<lparr> global_rx := global_rx st @ bs \<rparr>))"

section \<open>The loop\<close>

datatype ('s, 'r) loop_event =
    EvRemote "'s poll_fun" "nat \<Rightarrow> unit result"
  | EvRx "nat \<Rightarrow> bytes result" "'s poll_fun" "nat \<Rightarrow> unit result" "'r upstream"
  | EvHandshake nat "'r result"
  | EvDownlink bytes "nat \<Rightarrow> unit result"
  | EvUdpSweep
  | EvFakeIpSweep
  | EvMetrics u8
  | EvTimer "'s poll_fun" "nat \<Rightarrow> unit result" "'r upstream"
  | EvRelay nat relay_input

text \<open>One turn of the loop at a given time; \<open>None\<close> if it panics.\<close>

fun loop_step :: "'s tcp_api \<Rightarrow> etherparse \<Rightarrow> bool \<Rightarrow> nat \<Rightarrow> ('s, 'r) loop_event \<Rightarrow> ('s, 'r) tun \<Rightarrow> ('s, 'r) tun option" where
  "loop_step api ep macos now (EvRemote poll w) st = loop_remote api poll w now st"
| "loop_step api ep macos now (EvRx rd poll w up) st = loop_rx api ep macos rd poll w up now st"
| "loop_step api ep macos now (EvHandshake i res) st = loop_handshake api i res now st"
| "loop_step api ep macos now (EvDownlink dg w) st = loop_downlink ep macos w dg now st"
| "loop_step api ep macos now EvUdpSweep st = loop_udp_sweep api now st"
| "loop_step api ep macos now EvFakeIpSweep st = Some (loop_fake_ip_sweep now st)"
| "loop_step api ep macos now (EvMetrics leg) st = Some (loop_metrics_tick leg st)"
| "loop_step api ep macos now (EvTimer poll w up) st = loop_timer api poll w up now st"
| "loop_step api ep macos now (EvRelay c inp) st = Some (relay_round c inp now st)"

fun loop_run :: "'s tcp_api \<Rightarrow> etherparse \<Rightarrow> bool \<Rightarrow> (nat \<times> ('s, 'r) loop_event) list \<Rightarrow> ('s, 'r) tun \<Rightarrow> ('s, 'r) tun option" where
  "loop_run api ep macos [] st = Some st"
| "loop_run api ep macos ((now, ev) # evs) st =
     (case loop_step api ep macos now ev st of None \<Rightarrow> None | Some st' \<Rightarrow> loop_run api ep macos evs st')"

end
