(* ===== verification/SlotRefs.thy ===== *)
theory SlotRefs
  imports SlotInv UdpPlane
begin

text \<open>
  What the steps of the slots leave alone, and how they use the fake-IP pool: the addresses the slots
  hold are a multiset, and every step changes the reference counts of the pool by exactly what it changes
  in that multiset.
\<close>

section \<open>Frames\<close>

text \<open>The slots there are, their ports, the registry and the size of packets never change by a step.\<close>

definition same_frame :: "('s, 'r) slots \<Rightarrow> ('s, 'r) slots \<Rightarrow> bool" where
  "same_frame st st' \<longleftrightarrow>
     registry st' = registry st \<and> dev_mtu (device st') = dev_mtu (device st) \<and>
     fmdom (sockets st') = fmdom (sockets st) \<and> fmdom (socket_ctxs st') = fmdom (socket_ctxs st) \<and>
     (\<forall>h. map_option local_port (fmlookup (socket_ctxs st') h) = map_option local_port (fmlookup (socket_ctxs st) h))"

lemma same_frame_refl [simp]: "same_frame st st"
  by (simp add: same_frame_def)

lemma same_frame_trans: "same_frame a b \<Longrightarrow> same_frame b c \<Longrightarrow> same_frame a c"
  by (simp add: same_frame_def)

lemma act_frame: "act st st' \<Longrightarrow> same_frame st st'"
  by (induction rule: act.induct) (simp_all add: same_frame_def put_dom rearmed_ctx_def)

lemma acts_frame: "acts st st' \<Longrightarrow> same_frame st st'"
  by (induction rule: rtranclp_induct) (auto intro: same_frame_trans act_frame)

section \<open>Addresses held by slots\<close>

fun opt_mset :: "'a option \<Rightarrow> 'a multiset" where
  "opt_mset None = {#}"
| "opt_mset (Some x) = {#x#}"

definition ctx_held :: "(handle, socket_ctx) fmap \<Rightarrow> u32 multiset" where
  "ctx_held m = (\<Sum>h\<in>fset (fmdom m). opt_mset (slot_fake_ip (the (fmlookup m h))))"

lemma ctx_held_upd:
  assumes "fmlookup m h = Some ctx"
  obtains R where "ctx_held m = opt_mset (slot_fake_ip ctx) + R"
    "\<And>ctx'. ctx_held (fmupd h ctx' m) = opt_mset (slot_fake_ip ctx') + R"
proof
  let ?f = "\<lambda>m j. opt_mset (slot_fake_ip (the (fmlookup m j)))"
  have h: "h \<in> fset (fmdom m)" using assms by (meson fmdomI)
  then show "ctx_held m = opt_mset (slot_fake_ip ctx) + (\<Sum>j\<in>fset (fmdom m) - {h}. ?f m j)"
    using assms sum.remove [OF finite_fset h, of "?f m"] by (simp add: ctx_held_def)
  have dom: "fset (fmdom (fmupd h ctx' m)) = fset (fmdom m)" for ctx' using h by auto
  have other: "(\<Sum>j\<in>fset (fmdom m) - {h}. ?f (fmupd h ctx' m) j) = (\<Sum>j\<in>fset (fmdom m) - {h}. ?f m j)" for ctx'
    by (rule sum.cong) auto
  show "ctx_held (fmupd h ctx' m) = opt_mset (slot_fake_ip ctx') + (\<Sum>j\<in>fset (fmdom m) - {h}. ?f m j)" for ctx'
    unfolding ctx_held_def dom using sum.remove [OF finite_fset h, of "?f (fmupd h ctx' m)"] other by simp
qed

lemma ctx_held_new:
  assumes "fmlookup m h = None" "slot_fake_ip ctx = None"
  shows "ctx_held (fmupd h ctx m) = ctx_held m"
proof -
  have h: "h \<notin> fset (fmdom m)" using assms(1) by (simp add: fmdom_member_iff)
  then have "(\<Sum>j\<in>fset (fmdom m). opt_mset (slot_fake_ip (the (fmlookup (fmupd h ctx m) j)))) = ctx_held m"
    unfolding ctx_held_def by (intro sum.cong) auto
  with h assms(2) show ?thesis by (simp add: ctx_held_def)
qed

lemma ctx_held_same:
  assumes "fmlookup m h = Some ctx" "slot_fake_ip ctx' = slot_fake_ip ctx"
  shows "ctx_held (fmupd h ctx' m) = ctx_held m"
  using assms(2) by (auto intro: ctx_held_upd [OF assms(1)])

lemma ctx_held_size: "size (ctx_held m) \<le> fcard (fmdom m)"
proof -
  have "size (\<Sum>h\<in>A. opt_mset (f h)) \<le> card A" if "finite A" for A :: "handle set" and f :: "handle \<Rightarrow> u32 option"
    using that
  proof (induction A)
    case (insert h A)
    then show ?case by (cases "f h") auto
  qed simp
  then show ?thesis by (simp add: ctx_held_def fcard.rep_eq)
qed

lemma ctx_held_mem:
  assumes "fmlookup m h = Some ctx" "slot_fake_ip ctx = Some ip"
  shows "ip \<in># ctx_held m"
  using assms(2) by (auto intro: ctx_held_upd [OF assms(1)])

text \<open>The pool counts what the slots hold, and what others hold besides.\<close>

definition counted :: "('s, 'r) slots \<Rightarrow> u32 multiset \<Rightarrow> bool" where
  "counted st hs \<longleftrightarrow> pool_inv (fake_pool st) \<and> balanced refs (fake_pool st) (ctx_held (socket_ctxs st) + hs)"

lemma unopened_holds_none:
  "slot_good ctx v snt b \<Longrightarrow> unopened ctx \<Longrightarrow> slot_fake_ip ctx = None"
  by (auto simp: slot_good_simps unopened_def split: socket_state.splits)

lemma release_counted:
  assumes "counted st hs" "fmlookup (socket_ctxs st) h = Some ctx" "slot_fake_ip ctx' = None"
    "fake_pool st' = release_held now ctx (fake_pool st)" "socket_ctxs st' = fmupd h ctx' (socket_ctxs st)"
  shows "counted st' hs"
proof -
  obtain R where R: "ctx_held (socket_ctxs st) = opt_mset (slot_fake_ip ctx) + R"
    "\<And>ctx'. ctx_held (fmupd h ctx' (socket_ctxs st)) = opt_mset (slot_fake_ip ctx') + R"
    by (rule ctx_held_upd [OF assms(2)]) blast
  show ?thesis
  proof (cases "slot_fake_ip ctx")
    case None
    with assms R show ?thesis by (simp add: counted_def release_held_def)
  next
    case (Some ip)
    have "balanced refs (release ip now (fake_pool st)) (add_mset ip (R + hs) - {#ip#})"
      using assms(1) R(1) Some by (intro pool_refs.balanced_rel) (simp_all add: counted_def)
    with assms R Some show ?thesis by (simp add: counted_def release_held_def release_inv)
  qed
qed

lemma acquire_counted:
  assumes "counted st hs" "fmlookup (socket_ctxs st) h = Some ctx" "slot_fake_ip ctx = None"
    "resolve_target ep (fake_pool st) = Direct tgt fip" "size (ctx_held (socket_ctxs st) + hs) < 2 ^ 32 - 1"
    "fake_pool st' = acquire_new now fip (fake_pool st)"
    "socket_ctxs st' = fmupd h ctx' (socket_ctxs st)" "slot_fake_ip ctx' = fip"
  shows "counted st' hs"
proof -
  obtain R where R: "ctx_held (socket_ctxs st) = opt_mset (slot_fake_ip ctx) + R"
    "\<And>ctx'. ctx_held (fmupd h ctx' (socket_ctxs st)) = opt_mset (slot_fake_ip ctx') + R"
    by (rule ctx_held_upd [OF assms(2)]) blast
  show ?thesis
  proof (cases fip)
    case None
    with assms R show ?thesis by (simp add: counted_def acquire_new_def)
  next
    case (Some ip)
    have "resolve ip (fake_pool st) \<noteq> None" using assms(4) Some by (auto dest: resolve_target_known)
    then have "balanced refs (acquire ip now (fake_pool st)) (add_mset ip (R + hs))"
      using assms(1,3,5) R(1) by (intro pool_refs.balanced_acq) (simp_all add: counted_def)
    with assms R Some show ?thesis by (simp add: counted_def acquire_new_def acquire_inv)
  qed
qed

lemma act_counted:
  assumes "act st st'" "slots_good st" "counted st hs" "size (ctx_held (socket_ctxs st) + hs) < 2 ^ 32 - 1"
  shows "counted st' hs"
  using assms(1)
proof cases
  case (a_rearm h ctx dir reason s now)
  then show ?thesis by (intro release_counted [OF assms(3) a_rearm(2)]) (simp_all add: rearmed_ctx_def)
next
  case (a_refused h ctx p dir reason s now)
  then show ?thesis by (intro release_counted [OF assms(3) a_refused(2)]) (simp_all add: rearmed_ctx_def)
next
  case (a_failed xs h e tgt ys ctx dir reason s now)
  then show ?thesis by (intro release_counted [OF assms(3) a_failed(3)]) (simp_all add: rearmed_ctx_def)
next
  case (a_open h ctx ep tgt fip stream p now s)
  have "slot_fake_ip ctx = None" by (rule unopened_holds_none [OF slots_goodD(2) [OF assms(2) a_open(2)] a_open(4)])
  with a_open show ?thesis
    by (intro acquire_counted [OF assms(3) a_open(2) _ a_open(5) assms(4)]) (auto simp: held_by_def split: option.split)
next
  case (a_spawn h ctx ep tgt fip e es buf p s now)
  have "slot_fake_ip ctx = None" by (rule unopened_holds_none [OF slots_goodD(2) [OF assms(2) a_spawn(2)] a_spawn(4)])
  with a_spawn show ?thesis
    by (intro acquire_counted [OF assms(3) a_spawn(2) _ a_spawn(5) assms(4)]) (auto simp: held_by_def split: option.split)
qed (use assms(3) in \<open>simp_all add: counted_def ctx_held_same\<close>)

lemma acts_counted:
  assumes "acts st st'" "slots_good st" "counted st hs" "fcard (fmdom (socket_ctxs st)) + size hs < 2 ^ 32 - 1"
  shows "counted st' hs"
  using assms(1)
proof (induction rule: rtranclp_induct)
  case (step y z)
  have "slots_good y" by (rule acts_slots_good [OF step(1) assms(2)])
  moreover have "size (ctx_held (socket_ctxs y) + hs) < 2 ^ 32 - 1"
    using acts_frame [OF step(1)] ctx_held_size [of "socket_ctxs y"] assms(4) by (simp add: same_frame_def)
  ultimately show ?case using act_counted [OF step(2)] step(3) by blast
qed (rule assms(3))

lemma grow_counted:
  assumes "grow st st'" "slots_good st" "counted st hs"
  shows "counted st' hs"
  using assms(1)
proof cases
  case (g_listener h port s)
  then have "fmlookup (socket_ctxs st) h = None"
    using slots_goodD(1) [OF assms(2)] by (metis fmdom_notD fmdom_notI)
  with g_listener assms(3) show ?thesis
    by (simp add: counted_def ctx_held_new socket_ctx_new_def)
next
  case (g_registry reg)
  then show ?thesis using assms(3) by (simp add: counted_def)
qed

lemma grows_counted: "grows st st' \<Longrightarrow> slots_good st \<Longrightarrow> counted st hs \<Longrightarrow> counted st' hs"
  by (induction rule: rtranclp_induct) (auto intro: grow_counted grows_slots_good)

text \<open>A new allocation changes no count while an address is free.\<close>

lemma alloc_refs:
  assumes "pool_inv p" "\<not> pool_full p" "alloc d now p = (ip, p')"
  shows "refs j p' = refs j p"
proof (cases "fmlookup (domain_to_ip p) d")
  case None
  obtain i q where n: "next_free_ip p = (i, q)" by fastforce
  from next_free_ip_not_full [OF assms(1,2) n] assms(3) None n show ?thesis
    by (auto simp: alloc_def refs_def)
qed (use assms(3) in \<open>auto simp: alloc_def refs_def split: option.splits if_splits\<close>)

end
