(* ===== verification/Registry.thy ===== *)
theory Registry
  imports SlotRefs
begin

text \<open>
  The listener registry of \<^verbatim>\<open>src/client_tun.rs\<close>: its books are right. The slots it lists are exactly the slots
  there are, each once and under the port it listens on; the number it keeps is their number; the port
  cap holds, and the number of slots is bounded. The configured size of a pool is taken to be at most
  \<open>2 ^ 25\<close>, far beyond any sensible setting, so that all slots together hold fewer than \<open>2 ^ 32\<close> references.
\<close>

section \<open>The books\<close>

definition registry_inv :: "('s, 'r) slots \<Rightarrow> bool" where
  "registry_inv st \<longleftrightarrow> (let reg = registry st in
     mset (all_handles reg) = mset_set (fset (fmdom (socket_ctxs st))) \<and>
     total_listeners reg = fcard (fmdom (socket_ctxs st)) \<and>
     (\<forall>port. \<forall>h\<in>set (handles_for_port port reg). map_option local_port (fmlookup (socket_ctxs st) h) = Some port) \<and>
     fmlookup (ports reg) 0 = None \<and> fcard (fmdom (ports reg)) \<le> MAX_INTERCEPTED_PORTS \<and>
     max_total reg = MAX_TOTAL_LISTENERS \<and> 1 \<le> pool_slots reg \<and> pool_slots reg \<le> 2 ^ 25 \<and>
     total_listeners reg \<le> MAX_TOTAL_LISTENERS + pool_slots reg * fcard (fmdom (ports reg)))"

lemma registry_inv_cong:
  assumes "registry_inv st" "registry st' = registry st" "fmdom (socket_ctxs st') = fmdom (socket_ctxs st)"
    "\<And>h. map_option local_port (fmlookup (socket_ctxs st') h) = map_option local_port (fmlookup (socket_ctxs st) h)"
  shows "registry_inv st'"
  using assms by (simp add: registry_inv_def)

lemma registry_inv_frame: "same_frame st st' \<Longrightarrow> registry_inv st \<Longrightarrow> registry_inv st'"
  by (rule registry_inv_cong) (auto simp: same_frame_def)

lemma registry_inv_init: "1 \<le> n \<Longrightarrow> n \<le> 2 ^ 25 \<Longrightarrow> registry_inv (slots_init n mtu)"
  by (simp add: registry_inv_def slots_init_def registry_new_def all_handles_def handles_for_port_def Let_def)

lemma all_handles_mset:
  "mset (all_handles reg) = (\<Sum>port\<in>fset (fmdom (ports reg)). mset (handles_for_port port reg))"
proof -
  have "mset (concat (map f xs)) = (\<Sum>x\<in>set xs. mset (f x))" if "distinct xs" for f and xs :: "u16 list"
    using that by (induction xs) auto
  from this [of "sorted_list_of_fset (fmdom (ports reg))"] show ?thesis
    by (simp add: all_handles_def sorted_list_of_fset.rep_eq)
qed

lemma registry_handles:
  assumes "registry_inv st"
  shows "set (all_handles (registry st)) = fset (fmdom (socket_ctxs st))"
    "set (handles_for_port port (registry st)) \<subseteq> fset (fmdom (socket_ctxs st))"
    "total_listeners (registry st) = fcard (fmdom (socket_ctxs st))"
proof -
  have "mset (all_handles (registry st)) = mset_set (fset (fmdom (socket_ctxs st)))"
    and l: "\<forall>h\<in>set (handles_for_port port (registry st)). map_option local_port (fmlookup (socket_ctxs st) h) = Some port"
    using assms by (simp_all add: registry_inv_def Let_def)
  from arg_cong [OF this(1), of set_mset] show "set (all_handles (registry st)) = fset (fmdom (socket_ctxs st))" by simp
  from l show "set (handles_for_port port (registry st)) \<subseteq> fset (fmdom (socket_ctxs st))" by (auto intro: fmdomI)
  show "total_listeners (registry st) = fcard (fmdom (socket_ctxs st))" using assms by (simp add: registry_inv_def Let_def)
qed

lemma registry_distinct: "registry_inv sl \<Longrightarrow> distinct (all_handles (registry sl))"
  using registry_handles(1) [of sl]
  by (intro card_distinct) (metis (mono_tags, lifting) registry_inv_def size_mset size_mset_set)

text \<open>Adding handles to the pool of a port.\<close>

lemma handles_for_port_upd:
  "handles_for_port q (reg\<lparr> ports := fmupd port hs (ports reg), total_listeners := n \<rparr>) =
     (if q = port then hs else handles_for_port q reg)"
  by (simp add: handles_for_port_def)

lemma all_handles_upd:
  "mset (all_handles (reg\<lparr> ports := fmupd port (handles_for_port port reg @ hs) (ports reg), total_listeners := n \<rparr>)) =
     mset (all_handles reg) + mset hs"
proof -
  let ?D = "fset (fmdom (ports reg))"
  let ?f = "\<lambda>q. mset (if q = port then handles_for_port port reg @ hs else handles_for_port q reg)"
  have rest: "(\<Sum>q\<in>?D - {port}. ?f q) = (\<Sum>q\<in>?D - {port}. mset (handles_for_port q reg))" by (rule sum.cong) auto
  have "(\<Sum>q\<in>insert port ?D. ?f q) = mset (handles_for_port port reg) + mset hs + (\<Sum>q\<in>?D - {port}. ?f q)"
    by (simp add: sum.insert_remove)
  also have "\<dots> = (\<Sum>q\<in>?D. mset (handles_for_port q reg)) + mset hs"
  proof (cases "port \<in> ?D")
    case True
    then show ?thesis using rest sum.remove [OF finite_fset True, of "\<lambda>q. mset (handles_for_port q reg)"] by simp
  next
    case False
    then have "handles_for_port port reg = []" by (auto simp: handles_for_port_def fmdom_notD)
    with False rest show ?thesis by simp
  qed
  finally show ?thesis by (simp add: all_handles_mset handles_for_port_upd)
qed

text \<open>The slots \<open>hs\<close>, and nothing else, were added for a port.\<close>

definition added :: "u16 \<Rightarrow> handle list \<Rightarrow> ('s, 'r) slots \<Rightarrow> ('s, 'r) slots \<Rightarrow> bool" where
  "added port hs st st' \<longleftrightarrow> registry st' = registry st \<and>
     mset_set (fset (fmdom (socket_ctxs st'))) = mset_set (fset (fmdom (socket_ctxs st))) + mset hs \<and>
     (\<forall>h\<in>set hs. map_option local_port (fmlookup (socket_ctxs st') h) = Some port) \<and>
     (\<forall>h ctx. fmlookup (socket_ctxs st) h = Some ctx \<longrightarrow> fmlookup (socket_ctxs st') h = Some ctx)"

lemma added_count: "added port hs st st' \<Longrightarrow> fcard (fmdom (socket_ctxs st')) = fcard (fmdom (socket_ctxs st)) + length hs"
  by (drule arg_cong [of "mset_set _" _ size, OF conjunct1 [OF conjunct2 [OF added_def [THEN iffD1]]]])
    (simp add: fcard.rep_eq)

lemma added_trans: "added port hs a b \<Longrightarrow> added port ks b c \<Longrightarrow> added port (hs @ ks) a c"
  by (auto simp: added_def)

lemma add_listener_added:
  assumes "tcp_contract api" "fmdom (sockets st) = fmdom (socket_ctxs st)" "add_listener api port st = Some (h, st')"
  shows "added port [h] st st'" "fmdom (sockets st') = fmdom (socket_ctxs st')"
proof -
  note g = add_listener_grow [OF assms(1,3)]
  obtain s where st': "st' = put_slot h s (socket_ctx_new port) st" using g(2) by blast
  have h: "h \<notin> fset (fmdom (socket_ctxs st))" using g(3) assms(2) by (metis fmdom_notI)
  show "fmdom (sockets st') = fmdom (socket_ctxs st')" using assms(2) by (simp add: st')
  show "added port [h] st st'"
    using h by (auto simp: added_def st' socket_ctx_new_def dest: fmdomI)
qed

lemma add_listeners_added:
  assumes "tcp_contract api"
  shows "fmdom (sockets st) = fmdom (socket_ctxs st) \<Longrightarrow> add_listeners api port n st = Some (hs, st') \<Longrightarrow>
    added port hs st st' \<and> length hs = n \<and> fmdom (sockets st') = fmdom (socket_ctxs st')"
proof (induction n arbitrary: st hs)
  case 0
  then show ?case by (simp add: added_def)
next
  case (Suc n)
  then obtain h st1 ks where h: "add_listener api port st = Some (h, st1)"
    and ks: "add_listeners api port n st1 = Some (ks, st')" "hs = h # ks"
    by (auto split: option.splits)
  from add_listener_added [OF assms Suc.prems(1) h] Suc.IH [OF _ ks(1)] ks(2) show ?case
    using added_trans [of port "[h]" st st1 ks st'] by simp
qed

lemma registry_inv_added:
  assumes inv: "registry_inv st" and added: "added port hs st st'" and port: "port \<noteq> 0"
    and reg: "reg = (registry st)\<lparr> ports := fmupd port (handles_for_port port (registry st) @ hs) (ports (registry st)),
        total_listeners := total_listeners (registry st) + length hs \<rparr>"
    and cap: "fmlookup (ports (registry st)) port = None \<Longrightarrow>
        fcard (fmdom (ports (registry st))) < MAX_INTERCEPTED_PORTS \<and> length hs = pool_slots (registry st)"
      "fmlookup (ports (registry st)) port \<noteq> None \<Longrightarrow> total_listeners (registry st) + length hs \<le> MAX_TOTAL_LISTENERS"
  shows "registry_inv (st'\<lparr> registry := reg \<rparr>)"
proof -
  let ?n = "fcard (fmdom (ports (registry st)))"
  have dom: "fcard (fmdom (ports reg)) = (if fmlookup (ports (registry st)) port = None then Suc ?n else ?n)"
    by (auto simp: reg fcard.rep_eq card_insert_if fmdom_member_iff)
  have keep: "map_option local_port (fmlookup (socket_ctxs st') h) = Some q"
    if "map_option local_port (fmlookup (socket_ctxs st) h) = Some q" for h q
    using that added by (auto simp: added_def)
  have tot: "total_listeners reg = fcard (fmdom (socket_ctxs st'))"
    using inv added_count [OF added] by (simp add: registry_inv_def Let_def reg)
  have bound: "total_listeners reg \<le> MAX_TOTAL_LISTENERS + pool_slots reg * fcard (fmdom (ports reg))"
    using inv cap unfolding dom by (cases "fmlookup (ports (registry st)) port") (auto simp: registry_inv_def Let_def reg)
  have books: "mset (all_handles reg) = mset_set (fset (fmdom (socket_ctxs st')))"
    using inv added by (simp add: registry_inv_def Let_def added_def reg all_handles_upd)
  have local: "\<forall>q. \<forall>h\<in>set (handles_for_port q reg). map_option local_port (fmlookup (socket_ctxs st') h) = Some q"
    using inv added keep by (auto simp: registry_inv_def Let_def added_def reg handles_for_port_upd split: if_splits)
  show ?thesis
    using inv tot bound books local cap port unfolding registry_inv_def Let_def
    by (auto simp: dom) (auto simp: reg)
qed

lemma slot_count_bound:
  assumes "registry_inv st"
  shows "fcard (fmdom (socket_ctxs st)) \<le> 4096 + 64 * 2 ^ 25"
proof -
  let ?reg = "registry st"
  have "pool_slots ?reg * fcard (fmdom (ports ?reg)) \<le> 2 ^ 25 * 64"
    using assms by (intro mult_le_mono) (auto simp: registry_inv_def Let_def MAX_INTERCEPTED_PORTS_def)
  then show ?thesis using assms by (auto simp: registry_inv_def Let_def MAX_TOTAL_LISTENERS_def)
qed

section \<open>Its operations\<close>

text \<open>What the registry's operations guarantee, when they start from a state whose books are right.\<close>

lemma ensure_port_inv:
  assumes "tcp_contract api" "fmdom (sockets st) = fmdom (socket_ctxs st)" "registry_inv st" "port \<noteq> 0"
    "ensure_port api port st = Some (r, st')"
  shows "registry_inv st'"
proof (cases "fmlookup (ports (registry st)) port \<noteq> None \<or> fcard (fmdom (ports (registry st))) \<ge> MAX_INTERCEPTED_PORTS")
  case True
  with assms(3,5) show ?thesis by (auto simp: ensure_port_def Let_def split: if_splits)
next
  case False
  with assms(5) obtain hs st1 where a: "add_listeners api port (pool_slots (registry st)) st = Some (hs, st1)"
    and st': "st' = st1\<lparr> registry := (registry st)\<lparr> ports := fmupd port hs (ports (registry st)),
      total_listeners := total_listeners (registry st) + pool_slots (registry st) \<rparr> \<rparr>"
    by (auto simp: ensure_port_def Let_def split: option.splits)
  note l = add_listeners_added [OF assms(1,2) a]
  have "handles_for_port port (registry st) = []" using False by (simp add: handles_for_port_def)
  with l False st' show ?thesis
    by (auto intro!: registry_inv_added [OF assms(3) _ assms(4), of hs st1])
qed

lemma add_spares_inv:
  assumes "tcp_contract api" "port \<noteq> 0"
  shows "fmdom (sockets st) = fmdom (socket_ctxs st) \<Longrightarrow> registry_inv st \<Longrightarrow>
    fmlookup (ports (registry st)) port \<noteq> None \<Longrightarrow> add_spares api port n st = Some (r, st') \<Longrightarrow> registry_inv st'"
proof (induction n arbitrary: st)
  case (Suc n)
  show ?case
  proof (cases "total_listeners (registry st) \<ge> max_total (registry st)")
    case False
    with Suc.prems(4) obtain h st1 where a: "add_listener api port st = Some (h, st1)"
      by (auto split: option.splits)
    note ad = add_listener_added [OF assms(1) Suc.prems(1) a]
    have reg: "registry st1 = registry st" using ad(1) by (simp add: added_def)
    let ?st2 = "st1\<lparr> registry := (registry st)
        \<lparr> ports := fmupd port (handles_for_port port (registry st) @ [h]) (ports (registry st)),
           total_listeners := total_listeners (registry st) + 1 \<rparr> \<rparr>"
    have "max_total (registry st) = MAX_TOTAL_LISTENERS" using Suc.prems(2) by (simp add: registry_inv_def Let_def)
    then have "registry_inv ?st2"
      using False Suc.prems(3) by (intro registry_inv_added [OF Suc.prems(2) ad(1) assms(2)]) auto
    moreover have "add_spares api port n ?st2 = Some (r, st')"
      using Suc.prems(4) False a reg by (simp add: Let_def)
    ultimately show ?thesis using ad(2) by (intro Suc.IH [of ?st2]) auto
  qed (use Suc in auto)
qed simp

lemma ensure_spare_inv:
  assumes "tcp_contract api" "fmdom (sockets st) = fmdom (socket_ctxs st)" "registry_inv st"
    "ensure_spare_listeners api port k st = Some (r, st')"
  shows "registry_inv st'"
proof (cases "fmlookup (ports (registry st)) port")
  case (Some hs)
  then have "port \<noteq> 0" using assms(3) by (auto simp: registry_inv_def Let_def)
  with Some assms show ?thesis
    by (auto simp: ensure_spare_listeners_def intro: add_spares_inv split: option.splits if_splits)
qed (use assms in \<open>auto simp: ensure_spare_listeners_def\<close>)

text \<open>Port 0 aside, they never fail to return.\<close>

lemma add_listener_total: "tcp_contract api \<Longrightarrow> port \<noteq> 0 \<Longrightarrow> add_listener api port st \<noteq> None"
  by (auto simp: add_listener_def build_listener_socket_def tcp_contract_def Let_def split: option.split)

lemma add_listeners_total: "tcp_contract api \<Longrightarrow> port \<noteq> 0 \<Longrightarrow> add_listeners api port n st \<noteq> None"
proof (induction n arbitrary: st)
  case (Suc n)
  with add_listener_total [of api port st] show ?case by (fastforce split: option.split)
qed simp

lemma add_spares_total: "tcp_contract api \<Longrightarrow> port \<noteq> 0 \<Longrightarrow> add_spares api port n st \<noteq> None"
proof (induction n arbitrary: st)
  case (Suc n)
  with add_listener_total [of api port st] show ?case by (auto simp: Let_def split: option.split)
qed simp

lemma ensure_port_total: "tcp_contract api \<Longrightarrow> port \<noteq> 0 \<Longrightarrow> ensure_port api port st \<noteq> None"
  using add_listeners_total [of api port "pool_slots (registry st)" st] by (auto simp: ensure_port_def Let_def split: option.split)

lemma ensure_port_zero:
  assumes "tcp_contract api" "registry_inv st"
  shows "ensure_port api 0 st = (if fcard (fmdom (ports (registry st))) \<ge> MAX_INTERCEPTED_PORTS then Some (Inl Capped, st) else None)"
proof -
  have "fmlookup (ports (registry st)) 0 = None" "0 < pool_slots (registry st)"
    using assms(2) by (auto simp: registry_inv_def Let_def)
  moreover have "add_listeners api 0 (Suc n) st = None" for n
    using assms(1) by (simp add: add_listener_def build_listener_socket_def tcp_contract_def)
  ultimately show ?thesis by (cases "pool_slots (registry st)") (auto simp: ensure_port_def Let_def)
qed

lemma ensure_spare_total:
  assumes "tcp_contract api" "fmdom (sockets st) = fmdom (socket_ctxs st)" "registry_inv st"
  shows "ensure_spare_listeners api port k st \<noteq> None"
proof (cases "fmlookup (ports (registry st)) port")
  case (Some hs)
  then have p: "port \<noteq> 0" using assms(3) by (auto simp: registry_inv_def Let_def)
  have "set hs \<subseteq> fset (fmdom (sockets st))"
    using registry_handles(2) [OF assms(3), of port] Some assms(2) by (simp add: handles_for_port_def)
  then have "listening_count api hs (sockets st) \<noteq> None"
    by (auto simp: listening_count_def list_all_iff fmdom_member_iff)
  with Some add_spares_total [OF assms(1) p] show ?thesis
    by (auto simp: ensure_spare_listeners_def split: option.split)
qed (simp add: ensure_spare_listeners_def)

end
