(* ===== verification/SlotTotal.thy ===== *)
theory SlotTotal
  imports SlotRefs
begin

text \<open>
  No handler of the listener slots panics. The places where the code could are the lookups of a socket by
  its handle, the two calls of \<open>listen\<close>, the call of \<open>recv\<close>, and the removal of the bytes a socket accepted
  from the backlog; the stack's contract and the invariant of the slots exclude all of them.
\<close>

definition ports_ok :: "('s, 'r) slots \<Rightarrow> bool" where
  "ports_ok st \<longleftrightarrow> (\<forall>h ctx. fmlookup (socket_ctxs st) h = Some ctx \<longrightarrow> local_port ctx \<noteq> 0)"

lemma slots_good_ports: "slots_good st \<Longrightarrow> ports_ok st"
  by (auto simp: ports_ok_def slot_good_simps dest: slots_goodD(2))

lemma same_frame_ports:
  assumes "same_frame st st'" "ports_ok st"
  shows "ports_ok st'"
  unfolding ports_ok_def
proof (intro allI impI)
  fix h ctx assume "fmlookup (socket_ctxs st') h = Some ctx"
  moreover have "map_option local_port (fmlookup (socket_ctxs st') h) = map_option local_port (fmlookup (socket_ctxs st) h)"
    using assms(1) unfolding same_frame_def by blast
  ultimately have "map_option local_port (fmlookup (socket_ctxs st) h) = Some (local_port ctx)" by simp
  with assms(2) show "local_port ctx \<noteq> 0" by (auto simp: ports_ok_def)
qed

lemma same_frame_socket:
  assumes "same_frame st st'" "fmlookup (sockets st) h \<noteq> None"
  shows "fmlookup (sockets st') h \<noteq> None"
  using assms by (metis fmdom_notD fmdom_notI same_frame_def)

section \<open>Rearming and flushing\<close>

lemma rearm_socket_total: "tcp_contract api \<Longrightarrow> local_port ctx \<noteq> 0 \<Longrightarrow> rearm_socket api now s ctx p \<noteq> None"
  by (auto simp: rearm_socket_def tcp_contract_def Let_def split: option.split)

lemma rearm_with_reason_total:
  "tcp_contract api \<Longrightarrow> local_port ctx \<noteq> 0 \<Longrightarrow> rearm_socket_with_reason api h now dir reason s ctx st \<noteq> None"
  using rearm_socket_total by (auto simp: rearm_socket_with_reason_def)

lemma rearm_slot_total:
  "tcp_contract api \<Longrightarrow> ports_ok st \<Longrightarrow> fmlookup (sockets st) h \<noteq> None \<Longrightarrow> rearm_slot api h now dir reason st \<noteq> None"
  by (auto simp: rearm_slot_def ports_ok_def split: option.split dest: rearm_with_reason_total)

lemma flush_downlink_total:
  assumes "tcp_contract api"
  shows "flush_downlink api h s ctx \<noteq> None"
proof -
  have "n \<le> length d" if "tcp_send_slice api d s = Some (n, s')" for d n s'
    using assms that unfolding tcp_contract_def by blast
  then show ?thesis by (fastforce simp: flush_downlink_def Let_def split: option.split if_splits dest: leD)
qed

lemma flush_slot_total:
  assumes "tcp_contract api" "fmlookup (sockets st) h \<noteq> None"
  shows "flush_slot api h st \<noteq> None"
  using assms(2) flush_downlink_total [OF assms(1)] by (auto simp: flush_slot_def split: option.split)

section \<open>Local activity\<close>

lemma recv_slot_total:
  assumes "tcp_contract api" "fmlookup (sockets st) h \<noteq> None"
  shows "recv_slot api h st \<noteq> None"
  using assms by (auto simp: recv_slot_def extract_socket_payload_def tcp_contract_def split: option.split)

lemma local_payload_total:
  assumes "tcp_contract api" "ports_ok st" "fmlookup (sockets st) h \<noteq> None"
  shows "handle_local_payload api up now h p (Some tgt) fip st \<noteq> None"
  by (auto simp: handle_local_payload_def open_inline_def Let_def split: option.split sum.split prod.split)

lemma first_payload_total:
  assumes "tcp_contract api" "ports_ok st" "fmlookup (sockets st) h \<noteq> None"
  shows "first_payload api up now h st \<noteq> None"
proof -
  obtain r st1 where r: "recv_slot api h st = Some (r, st1)" using recv_slot_total [OF assms(1,3)] by auto
  then have st1: "ports_ok st1" "fmlookup (sockets st1) h \<noteq> None"
    using assms(2) by (auto simp: ports_ok_def elim!: recv_slot_cases)
  show ?thesis
    using r local_payload_total [OF assms(1) st1] rearm_slot_total [OF assms(1) st1]
    by (auto simp: first_payload_def split: option.split target_resolve.split)
qed

lemma uplink_slot_total:
  assumes "tcp_contract api" "fmlookup (sockets st) h \<noteq> None"
  shows "uplink_slot api h ctx c st \<noteq> None"
  using recv_slot_total [OF assms] by (auto simp: uplink_slot_def split: option.split)

lemma process_listener_total:
  assumes "tcp_contract api" "ports_ok st" "fmlookup (sockets st) h \<noteq> None"
  shows "process_listener_activity api up now h st \<noteq> None"
proof -
  obtain st1 where f: "flush_slot api h st = Some st1" using flush_slot_total [OF assms(1,3)] by auto
  note fr = acts_frame [OF flush_slot_acts [OF f]]
  note st1 = same_frame_ports [OF fr assms(2)] same_frame_socket [OF fr assms(3)]
  show ?thesis
    using f first_payload_total [OF assms(1) st1, of up now] uplink_slot_total [OF assms(1) st1(2)]
      rearm_slot_total [OF assms(1) st1]
    by (auto simp: process_listener_activity_def split: option.split reserve.split)
qed

section \<open>Remote activity and reaping\<close>

lemma handshake_done_total:
  assumes "tcp_contract api" "ports_ok st" "fmdom (sockets st) = fmdom (socket_ctxs st)"
  shows "handle_handshake_done api now h e res st \<noteq> None"
proof (cases "fmlookup (socket_ctxs st) h")
  case (Some ctx)
  then have "fmlookup (sockets st) h \<noteq> None" using assms(3) by (metis fmdom_notI fmdomI)
  then show ?thesis
    using Some rearm_slot_total [OF assms(1,2), of h]
    by (auto simp: handle_handshake_done_def Let_def split: sum.split)
qed (simp add: handle_handshake_done_def)

lemma handle_remote_total:
  fixes st :: "('s, 'r) slots"
  assumes "tcp_contract api" "ports_ok st" "fmlookup (sockets st) h \<noteq> None"
  shows "handle_remote_payload api poll w now h p st \<noteq> None"
proof (cases "fmlookup (socket_ctxs st) h")
  case (Some ctx)
  with assms(2) have "local_port ctx \<noteq> 0" by (simp add: ports_ok_def)
  moreover have fl: "flush_downlink api h s x = (None :: ('s \<times> socket_ctx \<times> 'r action list) option) \<longleftrightarrow> False" for s x
    using flush_downlink_total [OF assms(1)] by blast
  ultimately show ?thesis
    using assms(3) Some rearm_with_reason_total [OF assms(1)]
    by (auto simp: handle_remote_payload_def Let_def fl split: option.split)
qed (use assms(3) in \<open>auto simp: handle_remote_payload_def\<close>)

lemma reap_slots_total:
  assumes "tcp_contract api"
  shows "ports_ok st \<Longrightarrow> \<forall>h\<in>set hs. fmlookup (sockets st) h \<noteq> None \<Longrightarrow> reap_slots api now hs st \<noteq> None"
proof (induction hs arbitrary: st)
  case (Cons h hs)
  then obtain s where s: "fmlookup (sockets st) h = Some s" by auto
  show ?case
  proof (cases "\<exists>ctx. fmlookup (socket_ctxs st) h = Some ctx \<and> slot_dead api s ctx")
    case True
    then obtain ctx where ctx: "fmlookup (socket_ctxs st) h = Some ctx" "slot_dead api s ctx" by blast
    have "local_port ctx \<noteq> 0" using Cons.prems(1) ctx(1) by (auto simp: ports_ok_def)
    then obtain st1 where r: "rearm_socket_with_reason api h now ''local'' ''dead_slot_reap'' s ctx st = Some st1"
      using rearm_with_reason_total [OF assms] by blast
    have fr: "same_frame st st1" using rearm_with_reason_act [OF r _ ctx(1)] s by (auto intro: act_frame)
    have "reap_slots api now hs st1 \<noteq> None"
      using Cons.prems same_frame_socket [OF fr] by (intro Cons.IH same_frame_ports [OF fr]) (fastforce simp del: not_None_eq)+
    then show ?thesis using s ctx r by auto
  next
    case False
    with Cons s show ?thesis by (auto split: option.split)
  qed
qed simp

end
