(* ===== verification/LoopInv.thy ===== *)
theory LoopInv
  imports EventLoop Registry SlotTotal
begin

text \<open>
  The invariant of the main loop, kept by every arm: the slots, the registry, the pool and the association
  table are in order, everything the loop refers to by handle exists, and every slot with a downlink
  backlog is in the dirty set, so that its backlog is not forgotten.
\<close>

section \<open>Handlers touch one slot\<close>

definition only_here :: "handle \<Rightarrow> ('s, 'r) slots \<Rightarrow> ('s, 'r) slots \<Rightarrow> bool" where
  "only_here h st st' \<longleftrightarrow> (\<forall>j. j \<noteq> h \<longrightarrow>
     fmlookup (socket_ctxs st') j = fmlookup (socket_ctxs st) j \<and> fmlookup (sockets st') j = fmlookup (sockets st) j)"

lemma only_here_refl [simp]: "only_here h st st"
  by (simp add: only_here_def)

lemma only_here_trans: "only_here h a b \<Longrightarrow> only_here h b c \<Longrightarrow> only_here h a c"
  by (simp add: only_here_def)

lemma rearm_with_reason_only:
  "rearm_socket_with_reason api h now dir reason s ctx st = Some st' \<Longrightarrow> only_here h st st'"
  by (auto simp: only_here_def dest!: rearm_with_reason_eq)

lemma rearm_slot_only: "rearm_slot api h now dir reason st = Some st' \<Longrightarrow> only_here h st st'"
  by (auto simp: rearm_slot_def intro: rearm_with_reason_only split: option.splits)

lemma flush_slot_only: "flush_slot api h st = Some st' \<Longrightarrow> only_here h st st'"
  by (auto simp: flush_slot_def only_here_def split: option.splits)

lemma recv_slot_only: "recv_slot api h st = Some (r, st') \<Longrightarrow> only_here h st st'"
  by (auto simp: only_here_def elim!: recv_slot_cases)

lemma local_payload_only:
  assumes "handle_local_payload api up now h p tgt fip st = Some (r, st')"
  shows "only_here h st st'"
proof (cases "fmlookup (socket_ctxs st) h")
  case (Some ctx)
  have "only_here h st (spawn_handshake now h p t fip ctx st)" for t
    by (auto simp: spawn_handshake_def acquire_for_def only_here_def Let_def split: option.split prod.split)
  moreover have "only_here h st st'" if "open_inline api up now h p t fip ctx st = Some (r, st')" for t
    using that by (auto simp: open_inline_def acquire_for_def only_here_def Let_def split: option.splits sum.splits)
  ultimately show ?thesis
    using assms Some
    by (auto simp: handle_local_payload_def only_here_def split: option.splits if_splits prod.splits)
qed (use assms in \<open>simp add: handle_local_payload_def\<close>)

lemma first_payload_only:
  assumes "first_payload api up now h st = Some (r, st')"
  shows "only_here h st st'"
proof -
  obtain q st1 where q: "recv_slot api h st = Some (q, st1)"
    using assms by (auto simp: first_payload_def split: option.splits)
  have "only_here h st1 st'"
    using assms q
    by (auto simp: first_payload_def intro: rearm_slot_only local_payload_only split: option.splits target_resolve.splits)
      (simp add: only_here_def)
  with recv_slot_only [OF q] show ?thesis by (rule only_here_trans)
qed

lemma uplink_slot_only: "uplink_slot api h ctx c st = Some st' \<Longrightarrow> only_here h st st'"
  by (auto simp: uplink_slot_def only_here_def elim!: recv_slot_cases split: option.splits)

lemma process_listener_only:
  assumes "process_listener_activity api up now h st = Some (r, st')"
  shows "only_here h st st'"
proof -
  obtain st1 where f: "flush_slot api h st = Some st1"
    using assms by (auto simp: process_listener_activity_def split: option.splits)
  have "only_here h st1 st'"
    using assms f
    by (auto simp: process_listener_activity_def intro: first_payload_only uplink_slot_only rearm_slot_only
        split: option.splits reserve.splits)
  with flush_slot_only [OF f] show ?thesis by (rule only_here_trans)
qed

text \<open>Polling may change every socket, but the contexts of the other slots stay.\<close>

definition only_slot :: "handle \<Rightarrow> ('s, 'r) slots \<Rightarrow> ('s, 'r) slots \<Rightarrow> bool" where
  "only_slot h st st' \<longleftrightarrow> (\<forall>j. j \<noteq> h \<longrightarrow> fmlookup (socket_ctxs st') j = fmlookup (socket_ctxs st) j)"

lemma only_slot_trans: "only_slot h a b \<Longrightarrow> only_slot h b c \<Longrightarrow> only_slot h a c"
  by (simp add: only_slot_def)

lemma only_here_slot: "only_here h st st' \<Longrightarrow> only_slot h st st'"
  by (simp add: only_here_def only_slot_def)

lemma poll_and_flush_only: "only_slot h st (snd (poll_and_flush poll w h st))"
  by (auto simp: poll_and_flush_def device_flush_def iface_poll_def only_slot_def Let_def split: prod.split option.split)

lemma handle_remote_only:
  assumes "handle_remote_payload api poll w now h p st = Some (r, st')"
  shows "only_slot h st st'"
proof -
  have "only_slot h st (snd (poll_and_flush poll w h (emit es (put_slot h s ctx st))))" for es s ctx
    by (rule only_slot_trans [OF _ poll_and_flush_only]) (simp add: only_slot_def)
  then show ?thesis
    using assms
    by (auto simp: handle_remote_payload_def Let_def intro: only_here_slot rearm_with_reason_only
        split: option.splits if_splits prod.splits dest!: arg_cong [of _ _ snd])
qed

section \<open>Backlogs\<close>

lemma has_pending_only: "only_slot h st st' \<Longrightarrow> j \<noteq> h \<Longrightarrow> has_pending j st' = has_pending j st"
  by (simp add: has_pending_def only_slot_def)

lemma rearm_no_backlog:
  assumes "rearm_socket_with_reason api h now dir reason s ctx st = Some st'"
  shows "has_pending j st' \<Longrightarrow> has_pending j st"
  using assms by (auto simp: has_pending_def rearmed_ctx_def dest!: rearm_with_reason_eq split: if_splits)

lemma rearm_slot_no_backlog: "rearm_slot api h now dir reason st = Some st' \<Longrightarrow> has_pending j st' \<Longrightarrow> has_pending j st"
  by (auto simp: rearm_slot_def intro: rearm_no_backlog split: option.splits)

lemma handshake_no_backlog:
  assumes "handle_handshake_done api now h e res st = Some st'" "has_pending j st'"
  shows "has_pending j st"
proof (cases res)
  case (Inl err)
  with assms show ?thesis
    by (auto simp: handle_handshake_done_def dest: rearm_slot_no_backlog split: option.splits if_splits)
next
  case (Inr stream)
  with assms show ?thesis
    by (auto simp: handle_handshake_done_def has_pending_def Let_def split: option.splits if_splits)
qed

lemma reap_no_backlog: "reap_slots api now hs st = Some (n, st') \<Longrightarrow> has_pending j st' \<Longrightarrow> has_pending j st"
proof (induction hs arbitrary: st n)
  case (Cons h hs)
  then show ?case
    by (auto split: option.splits if_splits dest: rearm_no_backlog)
qed simp

section \<open>The invariant of the slots inside the loop\<close>

abbreviation slot_set :: "('s, 'r) slots \<Rightarrow> handle set" where
  "slot_set sl \<equiv> fset (fmdom (socket_ctxs sl))"

definition relay_handles :: "('s, 'r) slots \<Rightarrow> bool" where
  "relay_handles sl \<longleftrightarrow> (\<forall>c t. fmlookup (relays sl) c = Some t \<longrightarrow> rt_handle t \<in> slot_set sl)"

definition slot_inv :: "('s, 'r) slots \<Rightarrow> bool" where
  "slot_inv sl \<longleftrightarrow> slots_good sl \<and> shakes_good sl \<and> registry_inv sl \<and> pool_inv (fake_pool sl) \<and> relay_handles sl \<and>
     dev_mtu (device sl) \<le> 9000"

lemma slot_invD:
  assumes "slot_inv sl"
  shows "slots_good sl" "shakes_good sl" "registry_inv sl" "pool_inv (fake_pool sl)" "relay_handles sl"
    "dev_mtu (device sl) \<le> 9000" "fmdom (sockets sl) = fmdom (socket_ctxs sl)" "ports_ok sl"
  using assms by (auto simp: slot_inv_def slots_good_ports dest: slots_goodD(1))

lemma slot_socket: "slot_inv sl \<Longrightarrow> h \<in> slot_set sl \<longleftrightarrow> fmlookup (sockets sl) h \<noteq> None"
  using slot_invD(7) [of sl] by (metis fmdom_member_iff)

lemma run_relay_handle: "run_relay now sender inp t = Some (ws, bs, t') \<Longrightarrow> rt_handle t' = rt_handle t"
  by (cases inp) (auto simp: relay_close_def Let_def split: list.splits sum.splits if_splits)

lemma run_relay_sends:
  "run_relay now sender inp t = Some (ws, bs, t') \<Longrightarrow> (\<forall>b\<in>set bs. fst b = rt_handle t) \<and> length bs \<le> 1"
  by (cases inp) (auto simp: Let_def split: list.splits sum.splits if_splits)

lemma act_relay_handles: "act sl sl' \<Longrightarrow> relay_handles sl \<Longrightarrow> relay_handles sl'"
proof (induction rule: act.induct)
  case (a_relay sl c t now sender inp ws bs t')
  then show ?case using run_relay_handle [OF a_relay(3)] by (auto simp: relay_handles_def)
qed (auto simp: relay_handles_def permit_send_def relay_new_def intro: fmdomI)

lemma act_pool_inv: "act sl sl' \<Longrightarrow> pool_inv (fake_pool sl) \<Longrightarrow> pool_inv (fake_pool sl')"
  by (induction rule: act.induct)
    (simp_all add: release_held_def acquire_new_def release_inv acquire_inv split: option.split)

text \<open>What a handler keeps; \<open>hs\<close> are the addresses held outside the slots.\<close>

definition kept :: "u32 multiset \<Rightarrow> ('s, 'r) slots \<Rightarrow> ('s, 'r) slots \<Rightarrow> bool" where
  "kept hs sl sl' \<longleftrightarrow> (slot_inv sl \<longrightarrow> slot_inv sl' \<and> slot_set sl \<subseteq> slot_set sl' \<and>
     (size hs \<le> 65535 \<longrightarrow> counted sl hs \<longrightarrow> counted sl' hs))"

lemma kept_refl [simp]: "kept hs sl sl"
  by (simp add: kept_def)

lemma kept_trans: "kept hs a b \<Longrightarrow> kept hs b c \<Longrightarrow> kept hs a c"
  unfolding kept_def by blast

lemma keptD:
  assumes "kept hs sl sl'" "slot_inv sl"
  shows "slot_inv sl'" "slot_set sl \<subseteq> slot_set sl'" "size hs \<le> 65535 \<Longrightarrow> counted sl hs \<Longrightarrow> counted sl' hs"
  using assms by (auto simp: kept_def)

lemma acts_kept: "acts sl sl' \<Longrightarrow> kept hs sl sl'"
  unfolding kept_def
proof (intro impI conjI)
  assume a: "acts sl sl'" and inv: "slot_inv sl"
  note fr = acts_frame [OF a]
  have "pool_inv (fake_pool sl') \<and> relay_handles sl'"
    using a slot_invD(4,5) [OF inv] by (induction rule: rtranclp_induct) (auto intro: act_pool_inv act_relay_handles)
  then show "slot_inv sl'"
    using inv acts_good [OF a] registry_inv_frame [OF fr] fr by (simp add: slot_inv_def same_frame_def)
  show "slot_set sl \<subseteq> slot_set sl'" using fr by (simp add: same_frame_def)
  assume "size hs \<le> 65535" "counted sl hs"
  then show "counted sl' hs"
    using slot_count_bound [OF slot_invD(3) [OF inv]] by (intro acts_counted [OF a slot_invD(1) [OF inv]]) simp_all
qed

lemma acts_slot_set: "acts sl sl' \<Longrightarrow> slot_set sl' = slot_set sl"
  by (drule acts_frame) (simp add: same_frame_def)

lemma grow_frame:
  "grow sl sl' \<Longrightarrow> device sl' = device sl \<and> fake_pool sl' = fake_pool sl \<and> relays sl' = relays sl \<and> slot_set sl \<subseteq> slot_set sl'"
  by (induction rule: grow.induct) auto

lemma grows_frame:
  "grows sl sl' \<Longrightarrow> device sl' = device sl \<and> fake_pool sl' = fake_pool sl \<and> relays sl' = relays sl \<and> slot_set sl \<subseteq> slot_set sl'"
  by (induction rule: rtranclp_induct) (auto dest: grow_frame)

lemma grows_kept:
  assumes "grows sl sl'" "slot_inv sl \<Longrightarrow> registry_inv sl'"
  shows "kept hs sl sl'"
  unfolding kept_def
proof (intro impI conjI)
  assume inv: "slot_inv sl"
  note fr = grows_frame [OF assms(1)]
  show "slot_inv sl'"
    using inv assms(2) [OF inv] grows_good [OF assms(1)] fr by (auto simp: slot_inv_def relay_handles_def)
  show "slot_set sl \<subseteq> slot_set sl'" using fr by blast
  show "counted sl hs \<Longrightarrow> counted sl' hs" by (rule grows_counted [OF assms(1) slot_invD(1) [OF inv]])
qed

lemma grows_pending: "grow sl sl' \<Longrightarrow> fmdom (sockets sl) = fmdom (socket_ctxs sl) \<Longrightarrow> has_pending h sl' \<Longrightarrow> has_pending h sl"
  by (induction rule: grow.induct) (auto simp: has_pending_def socket_ctx_new_def split: if_splits)

text \<open>Changes of the pool from outside.\<close>

lemma slots_good_pool: "slots_good (sl\<lparr> fake_pool := p \<rparr>) = slots_good sl" "shakes_good (sl\<lparr> fake_pool := p \<rparr>) = shakes_good sl"
  "registry_inv (sl\<lparr> fake_pool := p \<rparr>) = registry_inv sl"
  by (simp_all add: slots_good_def shakes_good_def owned_def relays_good_def known_handles_def registry_inv_def)

lemma slot_inv_pool: "slot_inv sl \<Longrightarrow> pool_inv p \<Longrightarrow> slot_inv (sl\<lparr> fake_pool := p \<rparr>)"
  by (simp add: slot_inv_def slots_good_pool relay_handles_def)

lemma counted_pool:
  "counted (sl\<lparr> fake_pool := p \<rparr>) hs \<longleftrightarrow> pool_inv p \<and> balanced refs p (ctx_held (socket_ctxs sl) + hs)"
  by (simp add: counted_def)

end
