(* ===== verification/LoopArms.thy ===== *)
theory LoopArms
  imports LoopInv
begin

text \<open>
  Every arm of the main loop keeps the loop's invariant, keeps the reference counts of the fake-IP pool
  right, and returns, but for two inputs: a SYN for port 0, and a datagram too large for a packet.
\<close>

section \<open>The invariant of the loop\<close>

definition loop_inv :: "('s, 'r) tun \<Rightarrow> bool" where
  "loop_inv st \<longleftrightarrow> slot_inv (tl_slots st) \<and> assoc_inv (assoc_tbl st) \<and> reclaimed_fake_ips (assoc_tbl st) = [] \<and>
     frag_inv (reassembler st) \<and>
     fset (dirty st) \<subseteq> slot_set (tl_slots st) \<and> fst ` set (global_rx st) \<subseteq> slot_set (tl_slots st) \<and>
     length (global_rx st) \<le> RELAY_CHANNEL_CAPACITY \<and>
     (\<forall>h. has_pending h (tl_slots st) \<longrightarrow> h |\<in>| dirty st)"

text \<open>The pool counts exactly the flows: the slots and the UDP associations that hold an address.\<close>

definition loop_counted :: "('s, 'r) tun \<Rightarrow> bool" where
  "loop_counted st \<longleftrightarrow> counted (tl_slots st) (held (assoc_tbl st))"

text \<open>One turn of the loop, for the invariant and the counts together.\<close>

definition turn_ok :: "('s, 'r) tun \<Rightarrow> ('s, 'r) tun \<Rightarrow> bool" where
  "turn_ok st st' \<longleftrightarrow> (loop_inv st \<longrightarrow> loop_inv st') \<and> (loop_inv st \<longrightarrow> loop_counted st \<longrightarrow> loop_counted st')"

lemma loop_invD:
  assumes "loop_inv st"
  shows "slot_inv (tl_slots st)" "assoc_inv (assoc_tbl st)" "reclaimed_fake_ips (assoc_tbl st) = []" "frag_inv (reassembler st)"
    "fset (dirty st) \<subseteq> slot_set (tl_slots st)" "fst ` set (global_rx st) \<subseteq> slot_set (tl_slots st)"
    "length (global_rx st) \<le> RELAY_CHANNEL_CAPACITY" "has_pending h (tl_slots st) \<Longrightarrow> h |\<in>| dirty st"
    "size (held (assoc_tbl st)) \<le> 65535"
  using assms held_size by (auto simp: loop_inv_def)

text \<open>Arms that change the slots by handlers and leave the UDP tables alone.\<close>

lemma turn_kept:
  assumes kept: "kept (held (assoc_tbl st)) (tl_slots st) (tl_slots st')"
    and same: "assoc_tbl st' = assoc_tbl st" "reassembler st' = reassembler st"
    and rest: "loop_inv st \<Longrightarrow> fset (dirty st') \<subseteq> slot_set (tl_slots st')"
      "loop_inv st \<Longrightarrow> fst ` set (global_rx st') \<subseteq> slot_set (tl_slots st')"
      "loop_inv st \<Longrightarrow> length (global_rx st') \<le> RELAY_CHANNEL_CAPACITY"
      "\<And>h. loop_inv st \<Longrightarrow> has_pending h (tl_slots st') \<Longrightarrow> h |\<in>| dirty st'"
  shows "turn_ok st st'"
proof -
  have "loop_inv st' \<and> (loop_counted st \<longrightarrow> loop_counted st')" if inv: "loop_inv st"
    using keptD [OF kept loop_invD(1) [OF inv]] loop_invD [OF inv] same rest [OF inv]
    by (simp add: loop_inv_def loop_counted_def)
  then show ?thesis by (simp add: turn_ok_def)
qed

lemma turn_refl [simp]: "turn_ok st st"
  by (simp add: turn_ok_def)

lemma turn_trans: "turn_ok a b \<Longrightarrow> turn_ok b c \<Longrightarrow> turn_ok a c"
  by (simp add: turn_ok_def)

lemma set_slots_simps [simp]:
  "tl_slots (set_slots sl st) = sl" "dirty (set_slots sl st) = dirty st" "assoc_tbl (set_slots sl st) = assoc_tbl st"
  "reassembler (set_slots sl st) = reassembler st" "global_rx (set_slots sl st) = global_rx st" "udp_out (set_slots sl st) = udp_out st"
  by (simp_all add: set_slots_def)

lemma turn_acts:
  assumes "acts (tl_slots st) (tl_slots st')" "\<And>h. has_pending h (tl_slots st') \<Longrightarrow> has_pending h (tl_slots st)"
    "assoc_tbl st' = assoc_tbl st" "reassembler st' = reassembler st" "dirty st' = dirty st" "global_rx st' = global_rx st"
  shows "turn_ok st st'"
  by (rule turn_kept [OF acts_kept [OF assms(1)]])
    (auto simp: acts_slot_set [OF assms(1)] assms(3-) dest: loop_invD(5-7) assms(2) intro: loop_invD(8))

lemma pending_device [simp]:
  "has_pending h (snd (device_flush w sl)) = has_pending h sl" "has_pending h (iface_poll poll sl) = has_pending h sl"
  "has_pending h (sl\<lparr> device := d \<rparr>) = has_pending h sl" "has_pending h (publish_gauges leg sl) = has_pending h sl"
  "has_pending h (sl\<lparr> fake_pool := p \<rparr>) = has_pending h sl" "has_pending h (emit es sl) = has_pending h sl"
  "has_pending h (sl\<lparr> relays := rs \<rparr>) = has_pending h sl" "has_pending h (sl\<lparr> handshakes := xs \<rparr>) = has_pending h sl"
  by (simp_all add: has_pending_def device_flush_def iface_poll_def publish_gauges_def Let_def split: prod.split)

lemma device_act: "dev_mtu d = dev_mtu (device sl) \<Longrightarrow> acts sl (sl\<lparr> device := d \<rparr>)"
  using a_env [of "sockets sl" sl d "[]" "loop_metrics sl"] by (simp add: r_into_rtranclp)

section \<open>The arms\<close>

text \<open>The relay section.\<close>

lemma process_dirty_ok:
  assumes "tcp_contract api"
  shows "loop_inv st \<Longrightarrow> distinct hs \<Longrightarrow> set hs \<subseteq> fset (dirty st) \<Longrightarrow>
    \<exists>st'. process_dirty api up now hs st = Some st' \<and> turn_ok st st'"
proof (induction hs arbitrary: st)
  case (Cons h hs)
  note inv = loop_invD [OF Cons.prems(1)]
  have "h \<in> slot_set (tl_slots st)" using Cons.prems(3) inv(5) by auto
  then have sock: "fmlookup (sockets (tl_slots st)) h \<noteq> None" by (simp add: slot_socket [OF inv(1)])
  then obtain r sl where p: "process_listener_activity api up now h (tl_slots st) = Some (r, sl)"
    using process_listener_total [OF assms slot_invD(8) [OF inv(1)]] by fastforce
  note a = process_listener_activity_acts [OF p] and o = only_here_slot [OF process_listener_only [OF p]]
  obtain s where s: "fmlookup (sockets sl) h = Some s" using same_frame_socket [OF acts_frame [OF a] sock] by auto
  let ?keep = "tcp_can_recv api s \<or> has_pending h sl"
  let ?st1 = "if ?keep then set_slots sl st else (set_slots sl st)\<lparr> dirty := dirty st |-| {|h|} \<rparr>"
  have t: "turn_ok st ?st1"
  proof (rule turn_kept)
    show "kept (held (assoc_tbl st)) (tl_slots st) (tl_slots ?st1)" using acts_kept [OF a] by auto
    show "h' |\<in>| dirty ?st1" if "has_pending h' (tl_slots ?st1)" for h'
      using that Cons.prems(3) inv(8) [of h'] has_pending_only [OF o, of h'] by (cases "h' = h") (auto split: if_splits)
  qed (use inv acts_slot_set [OF a] in auto)
  then have "loop_inv ?st1" using Cons.prems(1) by (simp add: turn_ok_def)
  moreover have "distinct hs" "set hs \<subseteq> fset (dirty ?st1)" using Cons.prems(2,3) by auto
  ultimately obtain st' where st': "process_dirty api up now hs ?st1 = Some st'" "turn_ok ?st1 st'"
    using Cons.IH by blast
  have "process_dirty api up now (h # hs) st = process_dirty api up now hs ?st1"
    using p s by (simp add: Let_def set_slots_def)
  with st' turn_trans [OF t] show ?case by auto
qed simp

lemma process_dirty_relay_ok:
  "tcp_contract api \<Longrightarrow> loop_inv st \<Longrightarrow> \<exists>st'. process_dirty_relay api up now st = Some st' \<and> turn_ok st st'"
  unfolding process_dirty_relay_def by (rule process_dirty_ok) simp_all

lemma poll_stack_ok:
  assumes "poll_contract poll"
  shows "turn_ok st (poll_stack poll w st)"
proof (rule turn_acts)
  have "acts (tl_slots st) (snd (device_flush w (iface_poll poll (tl_slots st))))"
    using iface_poll_act [OF assms, of "tl_slots st"] device_flush_act [of "iface_poll poll (tl_slots st)" w] by simp
  then show "acts (tl_slots st) (tl_slots (poll_stack poll w st))"
    by (simp add: poll_stack_def Let_def case_prod_unfold)
  show "has_pending h (tl_slots (poll_stack poll w st)) \<Longrightarrow> has_pending h (tl_slots st)" for h
    by (simp add: poll_stack_def Let_def case_prod_unfold)
qed (simp_all add: poll_stack_def Let_def case_prod_unfold)

lemma turn_inv: "turn_ok st st' \<Longrightarrow> loop_inv st \<Longrightarrow> loop_inv st'"
  by (simp add: turn_ok_def)

text \<open>Polling and then serving the dirty slots, the end of two arms.\<close>

lemma poll_and_serve_ok:
  assumes "tcp_contract api" "poll_contract poll" "loop_inv st"
  shows "\<exists>st'. process_dirty_relay api up now (poll_stack poll w st) = Some st' \<and> turn_ok st st'"
  using process_dirty_relay_ok [OF assms(1) turn_inv [OF poll_stack_ok [OF assms(2)] assms(3)], of up now]
    turn_trans [OF poll_stack_ok [OF assms(2)]] by blast

lemma loop_timer_ok:
  "tcp_contract api \<Longrightarrow> poll_contract poll \<Longrightarrow> loop_inv st \<Longrightarrow>
   \<exists>st'. loop_timer api poll w up now st = Some st' \<and> turn_ok st st'"
  unfolding loop_timer_def by (rule poll_and_serve_ok)

lemma loop_remote_ok:
  assumes "tcp_contract api" "poll_contract poll" "loop_inv st"
  shows "\<exists>st'. loop_remote api poll w now st = Some st' \<and> turn_ok st st'"
proof (cases "global_rx st")
  case (Cons m q)
  obtain h p where m: "m = (h, p)" by fastforce
  note inv = loop_invD [OF assms(3)]
  have h: "h \<in> slot_set (tl_slots st)" using inv(6) Cons m by auto
  then have "fmlookup (sockets (tl_slots st)) h \<noteq> None" by (simp add: slot_socket [OF inv(1)])
  then obtain r sl where p: "handle_remote_payload api poll w now h p (tl_slots st) = Some (r, sl)"
    using handle_remote_total [OF assms(1) slot_invD(8) [OF inv(1)]] by fastforce
  note a = handle_remote_payload_acts [OF p assms(2)] and o = handle_remote_only [OF p]
  let ?st' = "(set_slots sl st)\<lparr> global_rx := q, dirty := (if has_pending h sl then finsert h (dirty st) else dirty st) \<rparr>"
  have "turn_ok st ?st'"
  proof (rule turn_kept)
    show "h' |\<in>| dirty ?st'" if "has_pending h' (tl_slots ?st')" for h'
      using that inv(8) [of h'] has_pending_only [OF o, of h'] by (cases "h' = h") auto
  qed (use acts_kept [OF a] inv acts_slot_set [OF a] Cons h in auto)
  then show ?thesis by (simp add: loop_remote_def Cons m p)
qed (simp add: loop_remote_def)

lemma loop_handshake_ok:
  assumes "tcp_contract api" "loop_inv st"
  shows "\<exists>st'. loop_handshake api i res now st = Some st' \<and> turn_ok st st'"
proof (cases "i < length (handshakes (tl_slots st))")
  case True
  let ?sl = "tl_slots st" and ?hs = "handshakes (tl_slots st)"
  obtain h e tgt where x: "?hs ! i = (h, e, tgt)" by (metis surj_pair)
  have split: "?hs = take i ?hs @ (h, e, tgt) # drop (Suc i) ?hs" using True x id_take_nth_drop by fastforce
  let ?sl1 = "?sl\<lparr> handshakes := take i ?hs @ drop (Suc i) ?hs \<rparr>"
  note inv = slot_invD [OF loop_invD(1) [OF assms(2)]]
  have "handle_handshake_done api now h e res ?sl1 \<noteq> None"
    using inv(7,8) by (intro handshake_done_total [OF assms(1)]) (simp_all add: ports_ok_def)
  then obtain sl where d: "handle_handshake_done api now h e res ?sl1 = Some sl" by blast
  have "turn_ok st (set_slots sl st)"
    using handshake_done_act [OF split d] handshake_no_backlog [OF d] by (intro turn_acts) (simp_all add: r_into_rtranclp)
  then show ?thesis using True x d by (simp add: loop_handshake_def)
qed (simp add: loop_handshake_def)

lemma loop_metrics_ok: "turn_ok st (loop_metrics_tick leg st)"
  by (rule turn_acts) (simp_all add: loop_metrics_tick_def publish_gauges_act r_into_rtranclp)

lemma relay_round_ok: "turn_ok st (relay_round c inp now st)"
proof (cases "\<exists>t ws bs t'. fmlookup (relays (tl_slots st)) c = Some t \<and> rt_closed t = None \<and> relay_may st inp \<and>
    run_relay now (sender_alive c (tl_slots st)) inp t = Some (ws, bs, t')")
  case True
  then obtain t ws bs t' where t: "fmlookup (relays (tl_slots st)) c = Some t" "rt_closed t = None" "relay_may st inp"
    "run_relay now (sender_alive c (tl_slots st)) inp t = Some (ws, bs, t')" by blast
  let ?sl = "emit (map (StreamWrite c) ws @ map (\<lambda>b. StreamRead c (snd b)) bs)
                     ((tl_slots st)\<lparr> relays := fmupd c t' (relays (tl_slots st)) \<rparr>)"
  have r: "relay_round c inp now st = (set_slots ?sl st)\<lparr> global_rx := global_rx st @ bs \<rparr>"
    using t by (simp add: relay_round_def Let_def)
  have a: "acts (tl_slots st) ?sl" by (rule r_into_rtranclp, rule a_relay [OF t(1,2,4)])
  have room: "bs = [] \<or> length bs = 1 \<and> length (global_rx st) < RELAY_CHANNEL_CAPACITY"
    using t(3,4) by (cases inp) (auto simp: Let_def split: list.splits sum.splits if_splits)
  show ?thesis unfolding r
  proof (rule turn_kept)
    assume inv: "loop_inv st"
    have "rt_handle t \<in> slot_set (tl_slots st)"
      using slot_invD(5) [OF loop_invD(1) [OF inv]] t(1) by (auto simp: relay_handles_def)
    then show "fst ` set (global_rx ((set_slots ?sl st)\<lparr> global_rx := global_rx st @ bs \<rparr>)) \<subseteq>
        slot_set (tl_slots ((set_slots ?sl st)\<lparr> global_rx := global_rx st @ bs \<rparr>))"
      using loop_invD(6) [OF inv] run_relay_sends [OF t(4)] by auto
  qed (use acts_kept [OF a] loop_invD(5,7,8) [of st] room in auto)
next
  case False
  then have "relay_round c inp now st = st"
    by (auto simp: relay_round_def Let_def split: option.split prod.split)
  then show ?thesis by simp
qed

text \<open>Sweeps and the UDP downlink.\<close>

lemma loop_fake_ip_sweep_ok: "turn_ok st (loop_fake_ip_sweep now st)"
proof -
  let ?sl = "tl_slots st" and ?p = "snd (pool_sweep now FAKE_IP_TTL (fake_pool (tl_slots st)))"
  have "slot_inv (?sl\<lparr> fake_pool := ?p \<rparr>)" if "slot_inv ?sl"
    using that by (intro slot_inv_pool pool_sweep_inv slot_invD(4))
  moreover have "counted ?sl hs \<Longrightarrow> counted (?sl\<lparr> fake_pool := ?p \<rparr>) hs" for hs
    unfolding counted_pool by (auto simp: counted_def pool_sweep_inv intro: pool_refs.balanced_swp)
  ultimately show ?thesis by (simp add: turn_ok_def loop_inv_def loop_counted_def loop_fake_ip_sweep_def Let_def)
qed

lemma loop_udp_sweep_ok:
  assumes "tcp_contract api" "loop_inv st"
  shows "\<exists>st'. loop_udp_sweep api now st = Some st' \<and> turn_ok st st'"
proof -
  note inv = loop_invD [OF assms(2)]
  let ?sl = "tl_slots st"
  from assoc_sweep_spec [OF inv(2), of now UDP_FLOW_IDLE_SECS] obtain ips t where
    t: "assoc_sweep now UDP_FLOW_IDLE_SECS (assoc_tbl st) = (ips, t)" "assoc_inv t" "reclaimed_fake_ips t = []"
      "fm_values (id_to_fake_ip (assoc_tbl st)) = mset ips + fm_values (id_to_fake_ip t)"
    using inv(3) by auto
  have h: "held (assoc_tbl st) = mset ips + held t" using t inv(3) by (simp add: held_def)
  let ?sl1 = "?sl\<lparr> fake_pool := release_all now ips (fake_pool ?sl) \<rparr>"
  have sl1: "slot_inv ?sl1" using inv(1) by (intro slot_inv_pool release_all_inv slot_invD(4))
  have c1: "counted ?sl (held (assoc_tbl st)) \<Longrightarrow> counted ?sl1 (held t)"
    using release_all_balanced [of "fake_pool ?sl" ips "ctx_held (socket_ctxs ?sl) + held t" now]
    by (auto simp: counted_def h ac_simps)
  have "\<forall>h\<in>set (all_handles (registry ?sl1)). fmlookup (sockets ?sl1) h \<noteq> None"
    using registry_handles(1) [OF slot_invD(3) [OF sl1]] slot_socket [OF sl1] by auto
  then obtain n sl2 where r: "reap_slots api now (all_handles (registry ?sl1)) ?sl1 = Some (n, sl2)"
    using reap_slots_total [OF assms(1) slot_invD(8) [OF sl1]] by fastforce
  note a = reap_slots_acts [OF r]
  note k = keptD [OF acts_kept [OF a] sl1]
  let ?st' = "(set_slots sl2 st)\<lparr> assoc_tbl := t, reassembler := frag_sweep now FRAG_REASSEMBLY_TTL_SECS (reassembler st) \<rparr>"
  have "loop_inv ?st'"
    using inv k(1,2) t(2,3) acts_slot_set [OF a] reap_no_backlog [OF r] by (auto simp: loop_inv_def frag_sweep_inv)
  moreover have "loop_counted ?st'" if "loop_counted st"
    using that c1 k(3) held_size [OF t(2,3)] by (simp add: loop_counted_def)
  moreover have "loop_udp_sweep api now st = Some ?st'"
    using r by (simp add: loop_udp_sweep_def t(1) reap_dead_slots_def Let_def)
  ultimately show ?thesis by (auto simp: turn_ok_def)
qed

text \<open>The datagrams of the downlink that do not fit a packet.\<close>

definition too_large :: "bytes \<Rightarrow> nat \<Rightarrow> ('s, 'r) tun \<Rightarrow> bool" where
  "too_large dg now st \<longleftrightarrow> (\<exists>meta payload e. decode_packet_meta dg = Some meta \<and>
     fst (frag_accept meta now (reassembler st)) = Some payload \<and>
     assoc_resolve (pm_assoc_id meta) (assoc_tbl st) = Some e \<and> length payload > 65507)"

lemma udp_downlink_cases:
  assumes "ep_contract ep"
  shows "handle_tuic_udp_downlink ep dg now r t = None \<longleftrightarrow> (\<exists>meta payload e. decode_packet_meta dg = Some meta \<and>
     fst (frag_accept meta now r) = Some payload \<and> assoc_resolve (pm_assoc_id meta) t = Some e \<and> length payload > 65507)"
  using build_None_iff [OF assms]
  by (auto simp: handle_tuic_udp_downlink_def split: option.splits prod.splits)

lemma udp_downlink_inv:
  assumes "handle_tuic_udp_downlink ep dg now r t = Some (pkt, r', t')"
  shows "frag_inv r \<Longrightarrow> frag_inv r'" "assoc_inv t \<Longrightarrow> assoc_inv t'" "held t' = held t" "reclaimed_fake_ips t' = reclaimed_fake_ips t"
proof -
  have "(r' = r \<or> (\<exists>meta. r' = snd (frag_accept meta now r))) \<and> (t' = t \<or> (\<exists>i. t' = touch i now t))"
    using assms by (auto simp: handle_tuic_udp_downlink_def split: option.splits prod.splits) (metis snd_conv)+
  then show "frag_inv r \<Longrightarrow> frag_inv r'" "assoc_inv t \<Longrightarrow> assoc_inv t'" "held t' = held t" "reclaimed_fake_ips t' = reclaimed_fake_ips t"
    by (auto simp: frag_accept_inv touch_inv)
qed

lemma inject_acts: "acts sl (snd (device_flush w (sl\<lparr> device := inject_ip_packet macos x (device sl) \<rparr>)))"
  using device_act [of "inject_ip_packet macos x (device sl)" sl] device_flush_act [of "sl\<lparr> device := inject_ip_packet macos x (device sl) \<rparr>" w]
  by (simp add: inject_ip_packet_def)

lemma loop_downlink_ok:
  assumes "ep_contract ep"
  shows "loop_downlink ep macos w dg now st = None \<longleftrightarrow> too_large dg now st"
    "loop_downlink ep macos w dg now st = Some st' \<Longrightarrow> turn_ok st st'"
proof -
  show "loop_downlink ep macos w dg now st = None \<longleftrightarrow> too_large dg now st"
    using udp_downlink_cases [OF assms, of dg now "reassembler st" "assoc_tbl st"]
    by (auto simp: loop_downlink_def too_large_def Let_def split: option.splits)
  assume "loop_downlink ep macos w dg now st = Some st'"
  then obtain pkt r t where d: "handle_tuic_udp_downlink ep dg now (reassembler st) (assoc_tbl st) = Some (pkt, r, t)"
    and st': "st' = (set_slots (case pkt of None \<Rightarrow> tl_slots st | Some x \<Rightarrow>
        snd (device_flush w ((tl_slots st)\<lparr> device := inject_ip_packet macos x (device (tl_slots st)) \<rparr>))) st)
        \<lparr> reassembler := r, assoc_tbl := t \<rparr>"
    by (auto simp: loop_downlink_def Let_def split: option.splits)
  have a: "acts (tl_slots st) (tl_slots st')" by (auto simp: st' inject_acts split: option.split)
  have p: "has_pending h (tl_slots st') = has_pending h (tl_slots st)" for h by (auto simp: st' split: option.split)
  have f: "dirty st' = dirty st" "global_rx st' = global_rx st" "reassembler st' = r" "assoc_tbl st' = t" by (simp_all add: st')
  have "loop_inv st' \<and> (loop_counted st \<longrightarrow> loop_counted st')" if inv: "loop_inv st"
    using keptD [OF acts_kept [OF a, of "held (assoc_tbl st)"] loop_invD(1) [OF inv]] loop_invD [OF inv] udp_downlink_inv [OF d]
      acts_slot_set [OF a]
    by (simp add: loop_inv_def loop_counted_def f p)
  then show "turn_ok st st'" by (simp add: turn_ok_def)
qed

text \<open>The device arm. First its parts: the frame the read delivers, and the three ways it can go.\<close>

definition read_contract :: "(nat \<Rightarrow> bytes result) \<Rightarrow> bool" where
  "read_contract rd \<longleftrightarrow> (\<forall>n buf. rd n = Inr buf \<longrightarrow> length buf \<le> n)"

definition delivered :: "bool \<Rightarrow> (nat \<Rightarrow> bytes result) \<Rightarrow> ('s, 'r) tun \<Rightarrow> bytes option" where
  "delivered macos rd st =
     (case wait_for_rx macos rd (device (tl_slots st)) of (Inl _, _) \<Rightarrow> None | (Inr _, d) \<Rightarrow> rx_peek d)"

lemma wait_for_rx_mtu: "wait_for_rx macos rd d = (r, d') \<Longrightarrow> dev_mtu d' = dev_mtu d"
  by (auto simp: wait_for_rx_def split: sum.splits if_splits)

lemma delivered_length:
  assumes "read_contract rd" "wait_for_rx macos rd d = (Inr u, d')" "rx_peek d' = Some pkt"
  shows "length pkt \<le> dev_mtu d + 4"
proof -
  obtain buf where b: "rd (rx_buffer_capacity_for_mtu macos (dev_mtu d)) = Inr buf"
    using assms(2) by (auto simp: wait_for_rx_def split: sum.splits)
  with assms(1) have "length buf \<le> dev_mtu d + 4"
    by (fastforce simp: read_contract_def rx_buffer_capacity_for_mtu_def tun_packet_header_len_def UTUN_IPV4_HEADER_def split: if_splits)
  with b assms(2,3) show ?thesis by (auto simp: wait_for_rx_def rx_peek_def split: if_splits)
qed

lemma parse_payload_length: "ep_contract ep \<Longrightarrow> parse_inbound_udp ep pkt = Some udp \<Longrightarrow> length (ui_payload udp) \<le> length pkt"
  by (auto simp: parse_inbound_udp_def ep_contract_def split: option.splits ip_header.splits transport_header.splits)

lemma forge_total:
  assumes "ep_contract ep" "length (ui_payload udp) \<le> 9004"
  shows "forge_dns_reply ep udp now p \<noteq> None"
proof (cases "parse_query (ui_payload udp)")
  case (Some q)
  have "length (build_response q a) \<le> 65507" for a
    using assms(2) question_length [OF Some]
    by (cases a) (simp_all add: build_response_def response_header_def answer_record_def Let_def)
  then have "build_udp_ip_packet ep src dst (build_response q a) \<noteq> None" for src dst a
    using build_None_iff [OF assms(1), of src dst "build_response q a"] by (simp add: leD)
  with Some show ?thesis by (auto simp: forge_dns_reply_def Let_def split: prod.split)
qed (simp add: forge_dns_reply_def)

lemma forge_pool:
  assumes "forge_dns_reply ep udp now p = Some (r, p')"
  shows "pool_inv p \<Longrightarrow> pool_inv p'" "pool_inv p \<Longrightarrow> \<not> pool_full p \<Longrightarrow> refs j p' = refs j p"
proof -
  have "p' = p \<or> (\<exists>d. p' = snd (alloc d now p))"
    using assms by (auto simp: forge_dns_reply_def Let_def split: option.splits prod.splits if_splits) (metis snd_conv)
  then show "pool_inv p \<Longrightarrow> pool_inv p'" "pool_inv p \<Longrightarrow> \<not> pool_full p \<Longrightarrow> refs j p' = refs j p"
    using alloc_inv [OF _ surjective_pairing] alloc_refs [OF _ _ surjective_pairing] by auto
qed

lemma hijack_ok:
  assumes "ep_contract ep" "slot_inv sl" "length pkt \<le> 9004"
  shows "\<exists>sl'. handle_dns_hijack ep macos w pkt now sl = Some sl' \<and> slot_inv sl' \<and> slot_set sl' = slot_set sl \<and>
    (\<forall>h. has_pending h sl' = has_pending h sl) \<and>
    (\<not> pool_full (fake_pool sl) \<longrightarrow> size hs \<le> 65535 \<longrightarrow> counted sl hs \<longrightarrow> counted sl' hs)"
proof (cases "parse_inbound_udp ep pkt")
  case (Some udp)
  have "length (ui_payload udp) \<le> 9004" using parse_payload_length [OF assms(1) Some] assms(3) by simp
  then obtain r p where f: "forge_dns_reply ep udp now (fake_pool sl) = Some (r, p)"
    using forge_total [OF assms(1)] by fastforce
  let ?sl1 = "sl\<lparr> fake_pool := p \<rparr>"
  have inv: "slot_inv ?sl1"
    using forge_pool(1) [OF f slot_invD(4) [OF assms(2)]] by (rule slot_inv_pool [OF assms(2)])
  have cnt: "counted ?sl1 hs" if "\<not> pool_full (fake_pool sl)" "counted sl hs"
    using that forge_pool(2) [OF f slot_invD(4) [OF assms(2)]] slot_invD(4) [OF inv] by (simp add: counted_def balanced_def)
  let ?d = "case r of Some reply \<Rightarrow> inject_ip_packet macos reply (device sl) | None \<Rightarrow> device sl"
  let ?m = "(if r = None then inc_dns_dropped else inc_dns_forged) (loop_metrics sl)"
  let ?sl2 = "?sl1\<lparr> sockets := sockets sl, device := ?d, loop_metrics := ?m \<rparr>"
  have a2: "act ?sl1 ?sl2"
    using a_env [of "sockets ?sl1" ?sl1 ?d "[]" ?m] by (simp add: inject_ip_packet_def split: option.split)
  let ?sl3 = "if r = None then ?sl2 else snd (device_flush w ?sl2)"
  have a: "acts ?sl1 ?sl3" using a2 device_flush_act [of ?sl2 w] by auto
  have "handle_dns_hijack ep macos w pkt now sl = Some ?sl3"
    using Some f by (cases r) (simp_all add: handle_dns_hijack_def,
      auto intro!: arg_cong [of _ _ "\<lambda>x. snd (device_flush w x)"] slots.equality)
  moreover have "has_pending h ?sl3 = has_pending h sl" for h
    by (simp add: has_pending_def device_flush_def Let_def split: prod.split)
  moreover have "slot_set ?sl3 = slot_set sl" using acts_slot_set [OF a] by simp
  ultimately show ?thesis
    using keptD(1) [OF acts_kept [OF a, of hs] inv] keptD(3) [OF acts_kept [OF a, of hs] inv] cnt by blast
qed (use assms in \<open>simp add: handle_dns_hijack_def\<close>)

text \<open>The SYN inspector.\<close>

definition syn_to_zero :: "etherparse \<Rightarrow> bytes \<Rightarrow> ('s, 'r) tun \<Rightarrow> bool" where
  "syn_to_zero ep pkt st \<longleftrightarrow>
     inspect_inbound_tcp ep pkt = Some (0, True) \<and> fcard (fmdom (ports (registry (tl_slots st)))) < MAX_INTERCEPTED_PORTS"

lemma grows_backlog: "grows sl sl' \<Longrightarrow> slots_good sl \<Longrightarrow> has_pending h sl' \<Longrightarrow> has_pending h sl"
proof (induction rule: rtranclp_induct)
  case (step y z)
  then show ?case using grows_pending [OF step(2) slots_goodD(1) [OF grows_slots_good [OF step(1,4)]]] by blast
qed

lemma grown_ok:
  assumes "tcp_contract api" "slot_inv sl" "port = 0 \<Longrightarrow> fcard (fmdom (ports (registry sl))) \<ge> MAX_INTERCEPTED_PORTS"
  shows "\<exists>r sl1 r' sl2. ensure_port api port sl = Some (r, sl1) \<and>
    ensure_spare_listeners api port MIN_SPARE_LISTENERS sl1 = Some (r', sl2) \<and> grows sl sl2 \<and> registry_inv sl2"
proof -
  note inv = slot_invD [OF assms(2)]
  obtain r sl1 where e: "ensure_port api port sl = Some (r, sl1)" and i1: "registry_inv sl1"
    using ensure_port_total [OF assms(1), of port sl] ensure_port_zero [OF assms(1) inv(3)] assms(3) inv(3)
      ensure_port_inv [OF assms(1) inv(7,3), of port] by (cases "port = 0") fastforce+
  note g1 = ensure_port_grows [OF assms(1) e]
  have d1: "fmdom (sockets sl1) = fmdom (socket_ctxs sl1)" by (rule slots_goodD(1) [OF grows_slots_good [OF g1 inv(1)]])
  obtain r' sl2 where s: "ensure_spare_listeners api port MIN_SPARE_LISTENERS sl1 = Some (r', sl2)"
    using ensure_spare_total [OF assms(1) d1 i1] by fastforce
  with e show ?thesis
    using rtranclp_trans [OF g1 ensure_spare_grows [OF assms(1) s]] ensure_spare_inv [OF assms(1) d1 i1 s] by blast
qed

lemma inspect_ok:
  assumes "tcp_contract api" "loop_inv st" "rx_peek (device (tl_slots st)) = Some pkt" "\<not> syn_to_zero ep pkt st"
  shows "\<exists>st'. inspect_frame api ep st = Some st' \<and> turn_ok st st'"
proof (cases "inspect_inbound_tcp ep pkt")
  case (Some x)
  then obtain port syn where x: "inspect_inbound_tcp ep pkt = Some (port, syn)" by (cases x) simp
  let ?sl = "tl_slots st"
  note inv = loop_invD [OF assms(2)]
  obtain sl where g: "grows ?sl sl" "registry_inv sl"
    "(if syn then (case ensure_port api port ?sl of None \<Rightarrow> None
        | Some (_, sl1) \<Rightarrow> map_option snd (ensure_spare_listeners api port MIN_SPARE_LISTENERS sl1)) else Some ?sl) = Some sl"
  proof (cases syn)
    case True
    with assms(4) x have "port = 0 \<Longrightarrow> fcard (fmdom (ports (registry ?sl))) \<ge> MAX_INTERCEPTED_PORTS"
      by (simp add: syn_to_zero_def leI)
    from grown_ok [OF assms(1) inv(1) this] True that show ?thesis by fastforce
  qed (use slot_invD(3) [OF inv(1)] that in auto)
  let ?st' = "(set_slots sl st)\<lparr> dirty := dirty st |\<union>| fset_of_list (handles_for_port port (registry sl)) \<rparr>"
  have k: "kept hs ?sl sl" for hs using grows_kept [OF g(1)] g(2) by blast
  have "turn_ok st ?st'"
  proof (rule turn_kept)
    show "kept (held (assoc_tbl st)) (tl_slots st) (tl_slots ?st')" using k by simp
    show "fset (dirty ?st') \<subseteq> slot_set (tl_slots ?st')"
      using inv(5) keptD(2) [OF k [of "{#}"] inv(1)] registry_handles(2) [OF g(2), of port]
      by (auto simp: fset_of_list.rep_eq)
  qed (use inv(6-8) keptD(2) [OF k [of "{#}"] inv(1)] grows_backlog [OF g(1) slot_invD(1) [OF inv(1)]] in auto)
  then show ?thesis using g(3) x by (simp add: inspect_frame_def assms(3))
qed (use assms in \<open>simp add: inspect_frame_def\<close>)

lemma inspect_zero:
  assumes "tcp_contract api" "slot_inv (tl_slots st)" "rx_peek (device (tl_slots st)) = Some pkt" "syn_to_zero ep pkt st"
  shows "inspect_frame api ep st = None"
  using assms(4) ensure_port_zero [OF assms(1) slot_invD(3) [OF assms(2)]]
  by (simp add: inspect_frame_def assms(3) syn_to_zero_def)

section \<open>One turn of the loop\<close>

text \<open>
  What the environment must respect in an event, and the events on which the loop panics. \<open>turn_roomy\<close> is
  \<open>turn_ok\<close> for events that may allocate a fake address: the counts stay right while one is free.
\<close>

fun env_ok :: "('s, 'r) loop_event \<Rightarrow> bool" where
  "env_ok (EvRemote poll w) \<longleftrightarrow> poll_contract poll"
| "env_ok (EvRx rd poll w up) \<longleftrightarrow> read_contract rd \<and> poll_contract poll"
| "env_ok (EvTimer poll w up) \<longleftrightarrow> poll_contract poll"
| "env_ok _ \<longleftrightarrow> True"

fun loop_panics :: "etherparse \<Rightarrow> bool \<Rightarrow> nat \<Rightarrow> ('s, 'r) loop_event \<Rightarrow> ('s, 'r) tun \<Rightarrow> bool" where
  "loop_panics ep macos now (EvRx rd poll w up) st \<longleftrightarrow>
     (\<exists>pkt. delivered macos rd st = Some pkt \<and> classify_inbound ep pkt = InOther \<and> syn_to_zero ep pkt st)"
| "loop_panics ep macos now (EvDownlink dg w) st \<longleftrightarrow> too_large dg now st"
| "loop_panics ep macos now _ st \<longleftrightarrow> False"

definition turn_roomy :: "('s, 'r) tun \<Rightarrow> ('s, 'r) tun \<Rightarrow> bool" where
  "turn_roomy st st' \<longleftrightarrow> (loop_inv st \<longrightarrow> loop_inv st' \<and>
     (\<not> pool_full (fake_pool (tl_slots st)) \<longrightarrow> loop_counted st \<longrightarrow> loop_counted st'))"

lemma turn_ok_roomy: "turn_ok st st' \<Longrightarrow> turn_roomy st st'"
  by (simp add: turn_ok_def turn_roomy_def)

lemma turn_roomy_trans:
  "turn_ok a b \<Longrightarrow> fake_pool (tl_slots b) = fake_pool (tl_slots a) \<Longrightarrow> turn_roomy b c \<Longrightarrow> turn_roomy a c"
  by (simp add: turn_ok_def turn_roomy_def)

lemma uplink_total:
  assumes "assoc_inv t"
  shows "handle_tuic_udp_uplink ep pkt now t p \<noteq> None"
proof (cases "parse_inbound_udp ep pkt")
  case (Some udp)
  show ?thesis
  proof (cases "resolve_target (V4 (ui_dst_ip udp), ui_dst_port udp) p")
    case (Direct target fip)
    from uplink_flow [OF assms Some Direct, of now] show ?thesis by (auto simp: Let_def)
  qed (use Some in \<open>simp_all add: handle_tuic_udp_uplink_def\<close>)
qed (simp add: handle_tuic_udp_uplink_def)

lemma uplink_turn:
  assumes "handle_tuic_udp_uplink ep pkt now (assoc_tbl st) (fake_pool (tl_slots st)) = Some (dg, t, p)"
    "dev_mtu d = dev_mtu (device (tl_slots st))"
  shows "turn_ok st ((set_slots ((tl_slots st)\<lparr> device := d, fake_pool := p \<rparr>) st)\<lparr> assoc_tbl := t, udp_out := out \<rparr>)"
    (is "turn_ok st ?st'")
proof -
  let ?sl = "tl_slots st" let ?sl1 = "?sl\<lparr> device := d \<rparr>"
  have "loop_inv ?st' \<and> (loop_counted st \<longrightarrow> loop_counted ?st')" if I: "loop_inv st"
  proof -
    note inv = loop_invD [OF I]
    note a = device_act [OF assms(2)]
    have i1: "slot_inv ?sl1" by (rule keptD(1) [OF acts_kept [OF a, of "{#}"] inv(1)])
    note u = uplink_inv [OF inv(2) assms(1) slot_invD(4) [OF inv(1)] inv(3)]
    have "slot_inv (?sl1\<lparr> fake_pool := p \<rparr>)" using u by (intro slot_inv_pool i1) simp
    then have li: "loop_inv ?st'" using inv u by (simp add: loop_inv_def)
    have "loop_counted ?st'" if c: "loop_counted st"
    proof -
      have "size (held (assoc_tbl st) + ctx_held (socket_ctxs ?sl)) < 2 ^ 32 - 1"
        using inv(9) ctx_held_size [of "socket_ctxs ?sl"] slot_count_bound [OF slot_invD(3) [OF inv(1)]] by simp
      moreover have "balanced refs (fake_pool ?sl) (held (assoc_tbl st) + ctx_held (socket_ctxs ?sl))"
        using c by (simp add: loop_counted_def counted_def add.commute)
      ultimately have "balanced refs p (held t + ctx_held (socket_ctxs ?sl))"
        using uplink_keeps [OF inv(2) slot_invD(4) [OF inv(1)] _ _ assms(1)] by blast
      then show ?thesis using u by (simp add: loop_counted_def counted_def add.commute)
    qed
    with li show ?thesis by blast
  qed
  then show ?thesis by (simp add: turn_ok_def)
qed

lemma hijack_turn:
  assumes "ep_contract ep" "loop_inv st" "dev_mtu d = dev_mtu (device (tl_slots st))" "length pkt \<le> 9004"
  shows "\<exists>sl'. handle_dns_hijack ep macos w pkt now ((tl_slots st)\<lparr> device := d \<rparr>) = Some sl' \<and> turn_roomy st (set_slots sl' st)"
proof -
  let ?sl = "(tl_slots st)\<lparr> device := d \<rparr>"
  have t: "turn_ok st (set_slots ?sl st)" by (rule turn_acts) (simp_all add: device_act [OF assms(3)])
  note inv = loop_invD [OF turn_inv [OF t assms(2)]]
  have "slot_inv ?sl" using inv(1) by simp
  from hijack_ok [OF assms(1) this assms(4), of macos w now "held (assoc_tbl st)"] obtain sl' where
    hj: "handle_dns_hijack ep macos w pkt now ?sl = Some sl'" "slot_inv sl'" "slot_set sl' = slot_set ?sl"
      "\<forall>h. has_pending h sl' = has_pending h ?sl"
      "\<not> pool_full (fake_pool ?sl) \<longrightarrow> size (held (assoc_tbl st)) \<le> 65535 \<longrightarrow> counted ?sl (held (assoc_tbl st)) \<longrightarrow>
       counted sl' (held (assoc_tbl st))" by blast
  have "turn_roomy (set_slots ?sl st) (set_slots sl' st)"
    using hj inv by (auto simp: turn_roomy_def loop_inv_def loop_counted_def)
  from turn_roomy_trans [OF t _ this] hj(1) show ?thesis by simp
qed

lemma serve_turn:
  fixes ep w now up
  assumes "tcp_contract api" "poll_contract poll" "loop_inv st" "rx_peek (device (tl_slots st)) = Some pkt"
  defines "x \<equiv> (case inspect_frame api ep st of None \<Rightarrow> None | Some st1 \<Rightarrow> process_dirty_relay api up now (poll_stack poll w st1))"
  shows "(x = None \<longleftrightarrow> syn_to_zero ep pkt st) \<and> (\<forall>st'. x = Some st' \<longrightarrow> turn_ok st st')"
proof (cases "syn_to_zero ep pkt st")
  case True
  then show ?thesis using inspect_zero [OF assms(1) loop_invD(1) [OF assms(3)] assms(4)] by (simp add: x_def)
next
  case False
  with inspect_ok [OF assms(1,3,4)] obtain st1 where i: "inspect_frame api ep st = Some st1" "turn_ok st st1" by auto
  from poll_and_serve_ok [OF assms(1,2) turn_inv [OF i(2) assms(3)], of up now w] obtain st2 where
    "process_dirty_relay api up now (poll_stack poll w st1) = Some st2" "turn_ok st1 st2" by blast
  with False i turn_trans [OF i(2)] show ?thesis by (auto simp: x_def)
qed

lemma loop_rx_ok:
  assumes "tcp_contract api" "ep_contract ep" "read_contract rd" "poll_contract poll" "loop_inv st"
  shows "loop_rx api ep macos rd poll w up now st = None \<longleftrightarrow> loop_panics ep macos now (EvRx rd poll w up) st"
    "loop_rx api ep macos rd poll w up now st = Some st' \<Longrightarrow> turn_roomy st st'"
proof -
  let ?rx = "loop_rx api ep macos rd poll w up now st"
  obtain res d where w: "wait_for_rx macos rd (device (tl_slots st)) = (res, d)" by fastforce
  let ?sl = "(tl_slots st)\<lparr> device := d \<rparr>" let ?st1 = "set_slots ?sl st"
  have mtu: "dev_mtu d = dev_mtu (device (tl_slots st))" by (rule wait_for_rx_mtu [OF w])
  have t1: "turn_ok st ?st1" by (rule turn_acts) (simp_all add: device_act [OF mtu])
  have li: "loop_inv ?st1" by (rule turn_inv [OF t1 assms(5)])
  note inv = loop_invD [OF li]
  have "(?rx = None \<longleftrightarrow> loop_panics ep macos now (EvRx rd poll w up) st) \<and> (\<forall>st'. ?rx = Some st' \<longrightarrow> turn_roomy st st')"
  proof (cases res)
    case (Inl e)
    with w t1 show ?thesis by (auto simp: loop_rx_def delivered_def intro: turn_ok_roomy)
  next
    case (Inr u)
    with w obtain pkt where p: "rx_peek d = Some pkt"
      by (auto simp: wait_for_rx_def rx_peek_def split: sum.splits if_splits)
    have del: "delivered macos rd st = Some pkt" by (simp add: delivered_def w Inr p)
    have take: "rx_take d = (Some pkt, d\<lparr> rx_buffer := None \<rparr>)" using p by (simp add: rx_take_def rx_peek_def)
    have len: "length pkt \<le> 9004"
      using delivered_length [OF assms(3) w [unfolded Inr] p] slot_invD(6) [OF loop_invD(1) [OF assms(5)]] by simp
    show ?thesis
    proof (cases "classify_inbound ep pkt")
      case InUdpRelay
      obtain dg t p' where up: "handle_tuic_udp_uplink ep pkt now (assoc_tbl ?st1) (fake_pool (tl_slots ?st1)) = Some (dg, t, p')"
        using uplink_total [OF inv(2)] by fastforce
      let ?d = "d\<lparr> rx_buffer := None \<rparr>" let ?out = "udp_out st @ (case dg of Some x \<Rightarrow> [x] | None \<Rightarrow> [])"
      let ?st2 = "(set_slots ((tl_slots ?st1)\<lparr> device := ?d, fake_pool := p' \<rparr>) ?st1)\<lparr> assoc_tbl := t, udp_out := ?out \<rparr>"
      have "turn_ok ?st1 ?st2" by (rule uplink_turn [OF up]) simp
      from turn_trans [OF t1 this] have "turn_ok st ?st2" .
      moreover have "?rx = Some ?st2" using w Inr p InUdpRelay take up by (simp add: loop_rx_def)
      ultimately show ?thesis using del InUdpRelay by (auto intro: turn_ok_roomy)
    next
      case InDns
      from hijack_turn [OF assms(2,5) _ len, of "d\<lparr> rx_buffer := None \<rparr>" macos w now] mtu obtain sl' where
        hj: "handle_dns_hijack ep macos w pkt now ((tl_slots st)\<lparr> device := d\<lparr> rx_buffer := None \<rparr> \<rparr>) = Some sl'"
          "turn_roomy st (set_slots sl' st)" by auto
      have "?rx = Some (set_slots sl' st)" using w Inr p InDns take hj(1) by (simp add: loop_rx_def set_slots_def)
      with hj(2) del InDns show ?thesis by auto
    next
      case InOther
      have "rx_peek (device (tl_slots ?st1)) = Some pkt" using p by simp
      from serve_turn [OF assms(1,4) li this, where ep = ep and up = up and now = now and w = w] w Inr p InOther del t1 show ?thesis
        by (auto simp: loop_rx_def syn_to_zero_def intro: turn_ok_roomy turn_trans)
    qed
  qed
  then show "?rx = None \<longleftrightarrow> loop_panics ep macos now (EvRx rd poll w up) st" "?rx = Some st' \<Longrightarrow> turn_roomy st st'" by blast+
qed

text \<open>Together: a turn panics on exactly these events, and otherwise keeps the invariant and the counts.\<close>

lemma loop_step_ok:
  assumes "tcp_contract api" "ep_contract ep" "env_ok ev" "loop_inv st"
  shows "loop_step api ep macos now ev st = None \<longleftrightarrow> loop_panics ep macos now ev st"
    "loop_step api ep macos now ev st = Some st' \<Longrightarrow> turn_roomy st st'"
proof -
  have total: "(x = None \<longleftrightarrow> False) \<and> (\<forall>st'. x = Some st' \<longrightarrow> turn_roomy st st')" if "\<exists>st'. x = Some st' \<and> turn_ok st st'" for x
    using that by (auto intro: turn_ok_roomy)
  have "(loop_step api ep macos now ev st = None \<longleftrightarrow> loop_panics ep macos now ev st) \<and>
      (\<forall>st'. loop_step api ep macos now ev st = Some st' \<longrightarrow> turn_roomy st st')"
  proof (cases ev)
    case (EvRemote poll w)
    with assms(3) show ?thesis using total [OF loop_remote_ok [OF assms(1) _ assms(4), of poll w now]] by simp
  next
    case (EvRx rd poll w up)
    with assms(3) loop_rx_ok [OF assms(1,2) _ _ assms(4), of rd poll macos w up now] show ?thesis by auto
  next
    case (EvHandshake i res)
    then show ?thesis using total [OF loop_handshake_ok [OF assms(1,4), of i res now]] by simp
  next
    case (EvDownlink dg w)
    with loop_downlink_ok [OF assms(2), of macos w dg now st] show ?thesis by (auto intro: turn_ok_roomy)
  next
    case EvUdpSweep
    then show ?thesis using total [OF loop_udp_sweep_ok [OF assms(1,4), of now]] by simp
  next
    case (EvTimer poll w up)
    with assms(3) show ?thesis using total [OF loop_timer_ok [OF assms(1) _ assms(4), of poll w up now]] by simp
  qed (auto intro: turn_ok_roomy loop_fake_ip_sweep_ok loop_metrics_ok relay_round_ok)
  then show "loop_step api ep macos now ev st = None \<longleftrightarrow> loop_panics ep macos now ev st"
    "loop_step api ep macos now ev st = Some st' \<Longrightarrow> turn_roomy st st'" by blast+
qed

end
