(* ===== verification/LoopReach.thy ===== *)
theory LoopReach
  imports LoopArms
begin

text \<open>
  The reachable states of the main loop: every one satisfies the invariant, and while the fake-IP pool is
  not full the counts of the pool are exact.
\<close>

section \<open>Reachable states\<close>

text \<open>
  A run starts from the initial state of the loop for a pool size of at least one and an MTU of at most
  9000, and takes any number of turns on any events that respect the environment's contracts, at any
  times. The relation has a parameter: a condition on the states from which turns are taken.
\<close>

inductive tun_reach ::
    "'s tcp_api \<Rightarrow> etherparse \<Rightarrow> bool \<Rightarrow> (('s, 'r) tun \<Rightarrow> bool) \<Rightarrow> ('s, 'r) tun \<Rightarrow> bool" for api ep macos P where
  tr_init: "1 \<le> n \<Longrightarrow> n \<le> 2 ^ 25 \<Longrightarrow> mtu \<le> 9000 \<Longrightarrow> tun_reach api ep macos P (tun_init n mtu)"
| tr_step: "tun_reach api ep macos P st \<Longrightarrow> P st \<Longrightarrow> env_ok ev \<Longrightarrow> loop_step api ep macos now ev st = Some st' \<Longrightarrow>
    tun_reach api ep macos P st'"

abbreviation reachable :: "'s tcp_api \<Rightarrow> etherparse \<Rightarrow> bool \<Rightarrow> ('s, 'r) tun \<Rightarrow> bool" where
  "reachable api ep macos \<equiv> tun_reach api ep macos (\<lambda>_. True)"

lemma tun_init_inv:
  assumes "1 \<le> n" "n \<le> 2 ^ 25" "mtu \<le> 9000"
  shows "loop_inv (tun_init n mtu)" "loop_counted (tun_init n mtu)"
proof -
  have "slots_good (slots_init n mtu)" "shakes_good (slots_init n mtu)"
    by (simp_all add: slots_good_def shakes_good_def owned_def relays_good_def known_handles_def slots_init_def waiting_def shake_ok_def)
  then have "slot_inv (slots_init n mtu)"
    using assms registry_inv_init [of n mtu]
    by (simp add: slot_inv_def relay_handles_def pool_new_inv) (simp add: slots_init_def device_new_def pool_new_inv)
  then show "loop_inv (tun_init n mtu)"
    by (simp add: loop_inv_def tun_init_def assoc_new_def assoc_with_cap_inv frag_new_def frag_with_cap_inv)
      (simp add: assoc_with_cap_def has_pending_def slots_init_def)
  show "loop_counted (tun_init n mtu)"
    by (simp add: loop_counted_def tun_init_def counted_def slots_init_def pool_new_inv)
      (simp add: balanced_def refs_def pool_new_def ctx_held_def held_def assoc_new_def assoc_with_cap_def)
qed

lemma reach_inv:
  assumes "tcp_contract api" "ep_contract ep" "tun_reach api ep macos P st"
  shows "loop_inv st"
  using assms(3)
proof induction
  case (tr_step st ev now st')
  then show ?case using loop_step_ok(2) [OF assms(1,2), of ev st] by (simp add: turn_roomy_def)
qed (rule tun_init_inv)

lemma reach_counted:
  assumes "tcp_contract api" "ep_contract ep"
    "tun_reach api ep macos (\<lambda>st. \<not> pool_full (fake_pool (tl_slots st))) st"
  shows "loop_counted st"
  using assms(3)
proof induction
  case (tr_step st ev now st')
  then show ?case
    using loop_step_ok(2) [OF assms(1,2), of ev st] reach_inv [OF assms(1,2) tr_step(1)] by (simp add: turn_roomy_def)
qed (rule tun_init_inv)

text \<open>Runs by event lists stay within the reachable states.\<close>

lemma loop_run_append:
  "loop_run api ep macos (xs @ ys) st =
     (case loop_run api ep macos xs st of None \<Rightarrow> None | Some st' \<Rightarrow> loop_run api ep macos ys st')"
proof (induction xs arbitrary: st)
  case (Cons e xs)
  then show ?case by (cases e) (auto split: option.split)
qed simp

lemma reach_run:
  "tun_reach api ep macos P st \<Longrightarrow> (\<And>st. P st) \<Longrightarrow> list_all (\<lambda>(now, ev). env_ok ev) evs \<Longrightarrow>
   loop_run api ep macos evs st = Some st' \<Longrightarrow> tun_reach api ep macos P st'"
proof (induction evs arbitrary: st)
  case (Cons e evs)
  obtain now ev where e: "e = (now, ev)" by fastforce
  with Cons.prems obtain st1 where "loop_step api ep macos now ev st = Some st1" "loop_run api ep macos evs st1 = Some st'"
    by (auto split: option.splits)
  with Cons e show ?case by (auto intro: tr_step)
qed simp

end
