(* ===== verification/LoopProgress.thy ===== *)
theory LoopProgress
  imports LoopReach
begin

text \<open>
  What a turn of the main loop achieves: the sweep frees exactly the dead slots, and the timer offers every
  backlog to its socket.
\<close>

section \<open>The trace only grows\<close>

lemma act_trace: "act st st' \<Longrightarrow> \<exists>es. trace st' = trace st @ es"
  by (induction rule: act.induct) simp_all

lemma acts_trace: "acts st st' \<Longrightarrow> \<exists>es. trace st' = trace st @ es"
proof (induction rule: rtranclp_induct)
  case (step y z)
  from act_trace [OF step(2)] step(3) show ?case by auto
qed simp

section \<open>Reaping\<close>

definition dead_at :: "'s tcp_api \<Rightarrow> handle \<Rightarrow> ('s, 'r) slots \<Rightarrow> bool" where
  "dead_at api h sl = (case (fmlookup (sockets sl) h, fmlookup (socket_ctxs sl) h) of
     (Some s, Some ctx) \<Rightarrow> slot_dead api s ctx | _ \<Rightarrow> False)"

lemma rearm_fresh:
  assumes "tcp_contract api" "rearm_socket_with_reason api h now dir reason s ctx st = Some st'"
  shows "\<exists>s'. fmlookup (sockets st') h = Some s' \<and> tcp_state_of api s' = TcpListen"
    "fmlookup (socket_ctxs st') h = Some (rearmed_ctx ctx)"
proof -
  show "\<exists>s'. fmlookup (sockets st') h = Some s' \<and> tcp_state_of api s' = TcpListen"
    using assms by (auto simp: rearm_socket_with_reason_def rearm_socket_def tcp_contract_def Let_def split: option.splits)
  show "fmlookup (socket_ctxs st') h = Some (rearmed_ctx ctx)" using rearm_with_reason_eq [OF assms(2)] by auto
qed

lemma reap_slots_outcome:
  assumes "tcp_contract api"
  shows "reap_slots api now hs st = Some (n, st') \<Longrightarrow> distinct hs \<Longrightarrow>
    (if h \<in> set hs \<and> dead_at api h st
     then (\<exists>s'. fmlookup (sockets st') h = Some s' \<and> tcp_state_of api s' = TcpListen) \<and>
       fmlookup (socket_ctxs st') h = map_option rearmed_ctx (fmlookup (socket_ctxs st) h)
     else fmlookup (sockets st') h = fmlookup (sockets st) h \<and> fmlookup (socket_ctxs st') h = fmlookup (socket_ctxs st) h)"
proof (induction hs arbitrary: st n)
  case (Cons j hs)
  obtain s where s: "fmlookup (sockets st) j = Some s" using Cons.prems by (auto split: option.splits)
  show ?case
  proof (cases "dead_at api j st")
    case True
    then obtain ctx where ctx: "fmlookup (socket_ctxs st) j = Some ctx" "slot_dead api s ctx"
      using s by (auto simp: dead_at_def split: option.splits)
    then obtain st1 m where st1: "rearm_socket_with_reason api j now ''local'' ''dead_slot_reap'' s ctx st = Some st1"
        "reap_slots api now hs st1 = Some (m, st')"
      using Cons.prems s by (auto split: option.splits)
    note o = rearm_with_reason_only [OF st1(1)]
    then have "h \<noteq> j \<Longrightarrow> dead_at api h st1 = dead_at api h st" by (simp add: only_here_def dead_at_def)
    then show ?thesis
      using Cons.IH [OF st1(2)] Cons.prems(2) rearm_fresh [OF assms st1(1)] o True ctx(1)
      by (cases "h = j") (auto simp: only_here_def)
  next
    case False
    then have "\<exists>m. reap_slots api now hs st = Some (m, st')"
      using Cons.prems(1) s by (auto simp: dead_at_def split: option.splits if_splits)
    then show ?thesis using Cons.IH Cons.prems(2) False by (cases "h = j") auto
  qed
qed simp

section \<open>Backlogs\<close>

lemma process_dirty_step:
  assumes "process_dirty api up now (h # hs) st = Some st'"
  obtains r st1 where "process_listener_activity api up now h (tl_slots st) = Some (r, tl_slots st1)"
    "process_dirty api up now hs st1 = Some st'"
proof -
  obtain r sl s where p: "process_listener_activity api up now h (tl_slots st) = Some (r, sl)" "fmlookup (sockets sl) h = Some s"
    using assms by (auto split: option.splits)
  let ?st1 = "if tcp_can_recv api s \<or> has_pending h sl then set_slots sl st else (set_slots sl st)\<lparr> dirty := dirty st |-| {|h|} \<rparr>"
  have "tl_slots ?st1 = sl" "process_dirty api up now hs ?st1 = Some st'"
    using assms p by (auto simp: set_slots_def Let_def split: if_splits)
  with p(1) that [of r ?st1] show thesis by metis
qed

lemma process_dirty_trace:
  "process_dirty api up now hs st = Some st' \<Longrightarrow> \<exists>es. trace (tl_slots st') = trace (tl_slots st) @ es"
proof (induction hs arbitrary: st)
  case (Cons h hs)
  from Cons.prems show ?case
  proof (rule process_dirty_step)
    fix r st1 assume "process_listener_activity api up now h (tl_slots st) = Some (r, tl_slots st1)"
      "process_dirty api up now hs st1 = Some st'"
    with Cons.IH acts_trace [OF process_listener_activity_acts] show ?thesis by fastforce
  qed
qed simp

text \<open>The stack can take \<open>n\<close> bytes of the backlog \<open>pend\<close> of a slot.\<close>

definition can_take :: "'s tcp_api \<Rightarrow> handle \<Rightarrow> bytes \<Rightarrow> nat \<Rightarrow> ('s, 'r) slots \<Rightarrow> bool" where
  "can_take api h pend n sl \<longleftrightarrow> pend \<noteq> [] \<and> map_option downlink_pending (fmlookup (socket_ctxs sl) h) = Some pend \<and> 0 < n \<and>
     (case fmlookup (sockets sl) h of
        None \<Rightarrow> False | Some s \<Rightarrow> tcp_can_send api s \<and> map_option fst (tcp_send_slice api pend s) = Some n)"

lemma flush_slot_sent:
  assumes "tcp_contract api" "can_take api h pend n st" "flush_slot api h st = Some st1"
  shows "trace st1 = trace st @ [LocalSent h (take n pend)]"
proof -
  obtain s ctx s' where s: "fmlookup (sockets st) h = Some s" "fmlookup (socket_ctxs st) h = Some ctx" "downlink_pending ctx = pend" "pend \<noteq> []"
    "tcp_can_send api s" "tcp_send_slice api pend s = Some (n, s')" "0 < n"
    using assms(2) by (auto simp: can_take_def split: option.splits)
  moreover have "n \<le> length pend" using assms(1) s(6) unfolding tcp_contract_def by blast
  ultimately show ?thesis using assms(3) by (auto simp: flush_slot_def flush_downlink_def Let_def)
qed

lemma process_dirty_offers:
  assumes "tcp_contract api"
  shows "process_dirty api up now hs st = Some st' \<Longrightarrow> h \<in> set hs \<Longrightarrow> can_take api h pend n (tl_slots st) \<Longrightarrow>
    \<exists>es. trace (tl_slots st') = trace (tl_slots st) @ es \<and> LocalSent h (take n pend) \<in> set es"
proof (induction hs arbitrary: st)
  case (Cons j hs)
  obtain r st1 where sl: "process_listener_activity api up now j (tl_slots st) = Some (r, tl_slots st1)"
    and st1: "process_dirty api up now hs st1 = Some st'" by (rule process_dirty_step [OF Cons.prems(1)])
  obtain es where es: "trace (tl_slots st1) = trace (tl_slots st) @ es" using acts_trace [OF process_listener_activity_acts [OF sl]] by auto
  show ?case
  proof (cases "j = h")
    case True
    obtain sl1 where sl1: "flush_slot api h (tl_slots st) = Some sl1" "acts sl1 (tl_slots st1)"
      using process_listener_steps [OF sl] True by auto
    with flush_slot_sent [OF assms Cons.prems(3)] acts_trace process_dirty_trace [OF st1] show ?thesis
      by fastforce
  next
    case False
    then have "can_take api h pend n (tl_slots st1)"
      using Cons.prems(3) process_listener_only [OF sl] by (simp add: can_take_def only_here_def)
    with Cons.IH [OF st1] Cons.prems(2) False es show ?thesis by fastforce
  qed
qed simp

lemma timer_offers:
  assumes "tcp_contract api" "loop_inv st" "loop_timer api poll w up now st = Some st'" "can_take api h pend n (tl_slots (poll_stack poll w st))"
  shows "\<exists>es. trace (tl_slots st') = trace (tl_slots st) @ es \<and> LocalSent h (take n pend) \<in> set es"
proof -
  let ?st1 = "poll_stack poll w st"
  have d: "dirty ?st1 = dirty st" "socket_ctxs (tl_slots ?st1) = socket_ctxs (tl_slots st)" "\<exists>es. trace (tl_slots ?st1) = trace (tl_slots st) @ es"
    by (auto simp: poll_stack_def iface_poll_def device_flush_def Let_def split: prod.split)
  have "has_pending h (tl_slots st)" using assms(4) d(2) by (auto simp: can_take_def has_pending_def)
  then have "h \<in> set (sorted_list_of_fset (dirty ?st1))" using loop_invD(8) [OF assms(2)] d(1) by simp
  from process_dirty_offers [OF assms(1) _ this assms(4), of up now st'] assms(3) d(3) show ?thesis
    by (auto simp: loop_timer_def process_dirty_relay_def)
qed

end
