(* ===== verification/LoopDemo.thy ===== *)
theory LoopDemo
  imports LoopReach
begin

text \<open>
  A small concrete stack that satisfies the stack's contract, and the handlers of the main loop evaluated on
  it: the examples of the properties, and the run in which a late answer of one connection reaches the
  next one, are built from these steps.
\<close>

section \<open>A concrete stack\<close>

text \<open>A socket of the example stack: its state, the bytes that can be received, its local endpoint.\<close>

type_synonym demo_socket = "tcp_state \<times> bytes \<times> ip_endpoint option"

definition demo_tcp :: "demo_socket tcp_api" where
  "demo_tcp =
     \<lparr> tcp_new = (TcpClosed, [], None),
       tcp_listen = (\<lambda>port s. if port = 0 then None else Some (TcpListen, [], None)),
       tcp_abort = (\<lambda>s. (TcpClosed, [], None)),
       tcp_state_of = fst,
       tcp_is_active = (\<lambda>s. fst s \<noteq> TcpClosed \<and> fst s \<noteq> TcpListen),
       tcp_can_recv = (\<lambda>s. fst (snd s) \<noteq> []),
       tcp_can_send = (\<lambda>s. fst s = TcpEstablished),
       tcp_recv = (\<lambda>s. if fst (snd s) = [] then None else Some (fst (snd s), (fst s, [], snd (snd s)))),
       tcp_send_slice = (\<lambda>d s. if fst s = TcpEstablished then Some (length d, s) else None),
       tcp_local_endpoint = (\<lambda>s. snd (snd s)),
       set_handle = (\<lambda>m. hd (filter (\<lambda>h. fmlookup m h = None) [0..<Suc (fcard (fmdom m))])) \<rparr>"

lemma fresh_key: "fmlookup m (hd (filter (\<lambda>h. fmlookup m h = None) [0..<Suc (fcard (fmdom m))])) = None"
proof -
  have "\<not> {0..<Suc (fcard (fmdom m))} \<subseteq> fset (fmdom m)"
  proof
    assume "{0..<Suc (fcard (fmdom m))} \<subseteq> fset (fmdom m)"
    then have "card {0..<Suc (fcard (fmdom m))} \<le> card (fset (fmdom m))" by (rule card_mono [rotated]) simp
    then show False by (simp add: fcard.rep_eq)
  qed
  then have "filter (\<lambda>h. fmlookup m h = None) [0..<Suc (fcard (fmdom m))] \<noteq> []"
    by (auto simp: filter_empty_conv fmdom_member_iff simp del: upt_Suc)
  from hd_in_set [OF this] show ?thesis by (simp del: upt_Suc)
qed

lemma demo_tcp_contract: "tcp_contract demo_tcp"
  by (auto simp: tcp_contract_def demo_tcp_def fresh_key simp del: upt_Suc split: if_splits)

text \<open>The stack of the example, when it is polled, takes the received frame and puts one socket into a given state.\<close>

definition demo_poll :: "handle \<Rightarrow> demo_socket \<Rightarrow> demo_socket poll_fun" where
  "demo_poll h s d ss = (d\<lparr> rx_buffer := None \<rparr>, if fmlookup ss h = None then ss else fmupd h s ss)"

lemma demo_poll_contract: "poll_contract (demo_poll h s)"
  by (auto simp: poll_contract_def demo_poll_def put_dom)

section \<open>Steps on the concrete stack\<close>

text \<open>A connection to 9.9.9.9:80 that has received \<open>p\<close>, an upstream that always connects, and a SYN to port 80.\<close>

definition demo_conn :: "bytes \<Rightarrow> demo_socket" where
  "demo_conn p = (TcpEstablished, p, Some (V4 0x09090909, 80))"

definition demo_up :: "string upstream" where
  "demo_up = \<lparr> open_is_cheap = True, open_tcp = (\<lambda>h t. Inr ''s'') \<rparr>"

definition demo_syn :: "bytes \<Rightarrow> (demo_socket, string) loop_event" where
  "demo_syn p = EvRx (\<lambda>n. Inr (take n [0, 80, 2])) (demo_poll 0 (demo_conn p)) (\<lambda>_. Inr ()) demo_up"

lemma demo_tcp_simps [simp]:
  "tcp_new demo_tcp = (TcpClosed, [], None)" "tcp_listen demo_tcp port s = (if port = 0 then None else Some (TcpListen, [], None))"
  "tcp_abort demo_tcp s = (TcpClosed, [], None)" "tcp_state_of demo_tcp s = fst s" "tcp_is_active demo_tcp s = (fst s \<noteq> TcpClosed \<and> fst s \<noteq> TcpListen)"
  "tcp_can_recv demo_tcp s = (fst (snd s) \<noteq> [])" "tcp_can_send demo_tcp s = (fst s = TcpEstablished)"
  "tcp_recv demo_tcp s = (if fst (snd s) = [] then None else Some (fst (snd s), (fst s, [], snd (snd s))))"
  "tcp_send_slice demo_tcp d s = (if fst s = TcpEstablished then Some (length d, s) else None)"
  "tcp_local_endpoint demo_tcp s = snd (snd s)"
  "set_handle demo_tcp m = hd (filter (\<lambda>h. fmlookup m h = None) [0..<Suc (fcard (fmdom m))])"
  by (simp_all add: demo_tcp_def)

text \<open>The states of the run: two slots on port 80, of which the second only listens.\<close>

definition demo_slots :: "demo_socket \<Rightarrow> socket_ctx \<Rightarrow> (nat, string relay_task) fmap \<Rightarrow> nat \<Rightarrow> string action list \<Rightarrow>
    u64 \<Rightarrow> bytes option \<Rightarrow> (demo_socket, string) slots" where
  "demo_slots s ctx rs c tr n rx = \<lparr> sockets = fmupd 1 (TcpListen, [], None) (fmupd 0 s fmempty), socket_ctxs = fmupd 1 (socket_ctx_new 80) (fmupd 0 ctx fmempty),
     registry = (registry_new 2)\<lparr> ports := fmupd 80 [0, 1] fmempty, total_listeners := 2 \<rparr>, fake_pool = pool_new,
     device = (device_new 1500)\<lparr> rx_buffer := rx \<rparr>, loop_metrics = metrics_new\<lparr> relays_spawned := n \<rparr>, 
     relays = rs, next_chan = c, handshakes = [], trace = tr \<rparr>"

definition demo_tun :: "(demo_socket, string) slots \<Rightarrow> handle fset \<Rightarrow> (handle \<times> bytes) list \<Rightarrow> u64 \<Rightarrow> (demo_socket, string) tun" where
  "demo_tun sl D q k = \<lparr> tl_slots = sl, dirty = D, assoc_tbl = assoc_new, reassembler = frag_new, global_rx = q,
     tcp_loop_flush_tx_calls = k, tcp_loop_flush_tx_failures = 0, udp_out = [] \<rparr>"

lemma demo_two [simp]: "fmupd 0 a (fmupd (Suc 0) b (fmupd 0 c fmempty)) = fmupd (Suc 0) b (fmupd 0 a fmempty)"
  by (metis fmupd_reorder_neq fmupd_twice n_not_Suc_n)

lemma demo_add: "add_listeners demo_tcp 80 2 ((slots_init 2 1500)\<lparr> device := d \<rparr>) = Some ([0, 1], (slots_init 2 1500)
   \<lparr> device := d, sockets := fmupd 1 (TcpListen, [], None) (fmupd 0 (TcpListen, [], None) fmempty),
     socket_ctxs := fmupd 1 (socket_ctx_new 80) (fmupd 0 (socket_ctx_new 80) fmempty) \<rparr>)" (is "add_listeners _ _ _ ?st = ?r")
proof -
  have "add_listeners demo_tcp 80 (Suc (Suc 0)) ?st = ?r"
    by (simp add: add_listener_def build_listener_socket_def put_slot_def slots_init_def fcard.rep_eq)
  then show ?thesis by (simp only: numeral_2_eq_2)
qed

lemma demo_spare:
  "ensure_spare_listeners demo_tcp 80 MIN_SPARE_LISTENERS (demo_slots (TcpListen, [], None) ctx rs c tr n rx) =
     Some (Inr (), demo_slots (TcpListen, [], None) ctx rs c tr n rx)"
  by (simp add: ensure_spare_listeners_def demo_slots_def listening_count_def MIN_SPARE_LISTENERS_def)

lemma demo_port: "ensure_port demo_tcp 80 (demo_slots s ctx rs c tr n rx) = Some (Inr (), demo_slots s ctx rs c tr n rx)"
  by (simp add: ensure_port_def demo_slots_def)

lemma demo_first_port:
  "ensure_port demo_tcp 80 ((slots_init 2 1500)\<lparr> device := (device_new 1500)\<lparr> rx_buffer := rx \<rparr> \<rparr>) =
     Some (Inr (), demo_slots (TcpListen, [], None) (socket_ctx_new 80) fmempty 0 [] 0 rx)"
proof -
  have r: "registry (slots_init 2 1500) = registry_new 2" by (simp add: slots_init_def)
  show ?thesis
    by (simp add: ensure_port_def r demo_add registry_new_def MAX_INTERCEPTED_PORTS_def fcard.rep_eq)
      (simp add: slots_init_def demo_slots_def registry_new_def metrics_new_def)
qed

lemma demo_idle: "process_listener_activity demo_tcp demo_up now 1 (demo_slots s ctx rs c tr n rx) = Some (Inr (), demo_slots s ctx rs c tr n rx)"
  by (simp add: process_listener_activity_def flush_slot_def flush_downlink_def first_payload_def recv_slot_def extract_socket_payload_def
      demo_slots_def socket_ctx_new_def put_slot_def emit_def fmupd_same)

lemma demo_resolve: "resolve_target (V4 151587081, 80) pool_new = Direct (IpPort (V4 151587081) 80) None"
  by (simp add: resolve_target_def is_dns_relay_port_def is_encrypted_dns_port_def is_fake_def pool_new_def target_from_endpoint_def)

lemma demo_open:
  assumes "slot_state ctx = Listening" "uplink_tx ctx = None" "downlink_pending ctx = []" "p \<noteq> []"
  shows "process_listener_activity demo_tcp demo_up now 0 (demo_slots (demo_conn p) ctx rs c tr n rx) =
    Some (Inr (), demo_slots (demo_conn []) (ctx\<lparr> uplink_tx := Some c, slot_state := Relaying \<rparr>)
       (fmupd c (relay_new 0 ''s'' [p] now) rs) (Suc c) (tr @ [LocalRecv 0 p, UplinkSend c p, RelayStart 0 c ''s'']) (n + 1) rx)"
  using assms
  by (simp add: process_listener_activity_def flush_slot_def flush_downlink_def first_payload_def recv_slot_def extract_socket_payload_def
      demo_slots_def demo_conn_def put_slot_def emit_def fmupd_same demo_resolve handle_local_payload_def open_inline_def demo_up_def
      put_ctx_def try_send_new_def acquire_for_def spawn_remote_relay_def RELAY_CHANNEL_CAPACITY_def inc_relays_spawned_def Let_def)

lemma demo_polled:
  "poll_stack (demo_poll 0 s') (\<lambda>_. Inr ()) (demo_tun (demo_slots s ctx rs c tr n rx) D q k) =
     demo_tun (demo_slots s' ctx rs c (tr @ [TunWritten []]) n None) D q (k + 1)"
  by (simp add: poll_stack_def demo_tun_def demo_slots_def iface_poll_def demo_poll_def device_flush_def flush_tx_def device_new_def emit_def set_slots_def)

lemma demo_dirty: "sorted_list_of_fset {|0, 1 :: nat|} = [0, 1]"
  by (simp add: sorted_list_of_fset.rep_eq)

lemma demo_slots_at:
  "fmlookup (sockets (demo_slots s ctx rs c tr n rx)) 0 = Some s"
  "fmlookup (sockets (demo_slots s ctx rs c tr n rx)) (Suc 0) = Some (TcpListen, [], None)"
  "fmlookup (socket_ctxs (demo_slots s ctx rs c tr n rx)) 0 = Some ctx"
  "has_pending 0 (demo_slots s ctx rs c tr n rx) = (downlink_pending ctx \<noteq> [])"
  "\<not> has_pending (Suc 0) (demo_slots s ctx rs c tr n rx)"
  by (simp_all add: demo_slots_def has_pending_def socket_ctx_new_def)

lemma demo_serve:
  assumes "slot_state ctx = Listening" "uplink_tx ctx = None" "downlink_pending ctx = []" "p \<noteq> []"
  shows "process_dirty_relay demo_tcp demo_up now (demo_tun (demo_slots (demo_conn p) ctx rs c tr n rx) {|0, 1|} q k) =
    Some (demo_tun (demo_slots (demo_conn []) (ctx\<lparr> uplink_tx := Some c, slot_state := Relaying \<rparr>)
       (fmupd c (relay_new 0 ''s'' [p] now) rs) (Suc c) (tr @ [LocalRecv 0 p, UplinkSend c p, RelayStart 0 c ''s'']) (n + 1) rx) {||} q k)"
  using demo_open [OF assms] demo_idle assms
  by (simp add: process_dirty_relay_def demo_tun_def demo_dirty [simplified] demo_slots_at demo_conn_def set_slots_def Let_def)

lemma demo_frame: "inspect_inbound_tcp demo_etherparse [0, 80, 2] = Some (80, True)" "classify_inbound demo_etherparse [0, 80, 2] = InOther"
  by (simp_all add: inspect_inbound_tcp_def classify_inbound_def parse_inbound_udp_def demo_etherparse_def demo_parse_def from_be16_def)

lemma demo_inspect:
  "inspect_frame demo_tcp demo_etherparse (demo_tun (demo_slots (TcpListen, [], None) ctx rs c tr n (Some [0, 80, 2])) D q k) =
     Some (demo_tun (demo_slots (TcpListen, [], None) ctx rs c tr n (Some [0, 80, 2])) (D |\<union>| {|0, 1|}) q k)"
  "inspect_frame demo_tcp demo_etherparse (set_slots ((slots_init 2 1500)\<lparr> device := (device_new 1500)\<lparr> rx_buffer := Some [0, 80, 2] \<rparr> \<rparr>) (tun_init 2 1500)) =
     Some (demo_tun (demo_slots (TcpListen, [], None) (socket_ctx_new 80) fmempty 0 [] 0 (Some [0, 80, 2])) {|0, 1|} [] 0)"
proof -
  have d: "device (demo_slots s ctx rs c tr n rx) = (device_new 1500)\<lparr> rx_buffer := rx \<rparr>"
    "handles_for_port 80 (registry (demo_slots s ctx rs c tr n rx)) = [0, 1]" for s ctx rs c tr n rx
    by (simp_all add: demo_slots_def handles_for_port_def)
  show "inspect_frame demo_tcp demo_etherparse (demo_tun (demo_slots (TcpListen, [], None) ctx rs c tr n (Some [0, 80, 2])) D q k) =
     Some (demo_tun (demo_slots (TcpListen, [], None) ctx rs c tr n (Some [0, 80, 2])) (D |\<union>| {|0, 1|}) q k)"
    by (simp add: inspect_frame_def demo_tun_def d rx_peek_def demo_frame demo_port demo_spare set_slots_def)
  show "inspect_frame demo_tcp demo_etherparse (set_slots ((slots_init 2 1500)\<lparr> device := (device_new 1500)\<lparr> rx_buffer := Some [0, 80, 2] \<rparr> \<rparr>) (tun_init 2 1500)) =
     Some (demo_tun (demo_slots (TcpListen, [], None) (socket_ctx_new 80) fmempty 0 [] 0 (Some [0, 80, 2])) {|0, 1|} [] 0)"
    by (simp add: inspect_frame_def d rx_peek_def demo_frame demo_first_port demo_spare set_slots_def)
      (simp add: tun_init_def demo_tun_def)
qed

lemma demo_rx:
  assumes "dev_mtu (device (tl_slots st)) = 1500"
    "inspect_frame demo_tcp demo_etherparse (set_slots ((tl_slots st)\<lparr> device := (device (tl_slots st))\<lparr> rx_buffer := Some [0, 80, 2] \<rparr> \<rparr>) st) =
      Some (demo_tun (demo_slots s ctx rs c tr n rx) {|0, 1|} q k)"
    "slot_state ctx = Listening" "uplink_tx ctx = None" "downlink_pending ctx = []" "p \<noteq> []"
  shows "loop_step demo_tcp demo_etherparse False now (demo_syn p) st =
    Some (demo_tun (demo_slots (demo_conn []) (ctx\<lparr> uplink_tx := Some c, slot_state := Relaying \<rparr>) (fmupd c (relay_new 0 ''s'' [p] now) rs) (Suc c)
       (tr @ [TunWritten [], LocalRecv 0 p, UplinkSend c p, RelayStart 0 c ''s'']) (n + 1) None) {||} q (k + 1))"
  using assms demo_serve [OF assms(3-6)]
  by (simp add: demo_syn_def loop_rx_def wait_for_rx_def rx_buffer_capacity_for_mtu_def tun_packet_header_len_def rx_peek_def demo_frame demo_polled set_slots_def)


lemma demo_read:
  assumes "fmlookup rs r = Some t" "rt_closed t = None" "rt_handle t = 0" "b \<noteq> []"
  shows "\<exists>rs'. loop_step demo_tcp demo_etherparse False now (EvRelay r (RemoteReady (Inr b) 0 True)) (demo_tun (demo_slots s ctx rs c tr n rx) D [] k) =
    Some (demo_tun (demo_slots s ctx rs' c (tr @ [StreamRead r b]) n rx) D [(0, b)] k)"
  using assms by (simp add: relay_round_def demo_tun_def demo_slots_def RELAY_CHANNEL_CAPACITY_def set_slots_def emit_def)

lemma demo_timer:
  "loop_step demo_tcp demo_etherparse False now (EvTimer (demo_poll 0 s') (\<lambda>_. Inr ()) demo_up) (demo_tun (demo_slots s ctx rs c tr n rx) {||} q k) =
    Some (demo_tun (demo_slots s' ctx rs c (tr @ [TunWritten []]) n None) {||} q (k + 1))"
  by (simp add: loop_timer_def demo_polled process_dirty_relay_def) (simp add: demo_tun_def)

lemma demo_sweep:
  assumes "slot_state ctx = Relaying" "slot_fake_ip ctx = None" "local_port ctx = 80"
  shows "loop_step demo_tcp demo_etherparse False now EvUdpSweep (demo_tun (demo_slots (TcpCloseWait, [], None) ctx rs c tr n rx) D q k) =
    Some (demo_tun (demo_slots (TcpListen, [], None) (rearmed_ctx ctx) rs c (tr @ [Rearmed 0 ''local'' ''dead_slot_reap'']) n rx) D q k)"
proof -
  have a: "rearm_socket demo_tcp now (TcpCloseWait, [], None) ctx pool_new = Some ((TcpListen, [], None), rearmed_ctx ctx, pool_new)"
    using assms by (simp add: rearm_socket_def rearmed_ctx_def)
  have h: "all_handles (registry (demo_slots s ctx rs c tr n rx)) = [0, 1]" for s ctx rs c tr n rx
    by (simp add: demo_slots_def all_handles_def handles_for_port_def sorted_list_of_fset.rep_eq)
  have r: "reap_dead_slots demo_tcp now (demo_slots (TcpCloseWait, [], None) ctx rs c tr n rx) =
    Some (Suc 0, demo_slots (TcpListen, [], None) (rearmed_ctx ctx) rs c (tr @ [Rearmed 0 ''local'' ''dead_slot_reap'']) n rx)"
    using assms
    by (simp add: reap_dead_slots_def h) (simp add: demo_slots_def slot_dead_def rearm_socket_with_reason_def a put_slot_def emit_def socket_ctx_new_def)
  have s: "assoc_sweep now UDP_FLOW_IDLE_SECS assoc_new = ([], assoc_new)" "frag_sweep now FRAG_REASSEMBLY_TTL_SECS frag_new = frag_new"
    by (simp_all add: assoc_sweep_def expired_flows_def assoc_new_def assoc_with_cap_def frag_sweep_def frag_new_def frag_with_cap_def)
  have p: "(demo_slots s ctx rs c tr n rx)\<lparr> fake_pool := pool_new \<rparr> = demo_slots s ctx rs c tr n rx" "fake_pool (demo_slots s ctx rs c tr n rx) = pool_new"
    for s ctx rs c tr n rx by (simp_all add: demo_slots_def)
  show ?thesis by (simp add: loop_udp_sweep_def demo_tun_def s p r release_all_def set_slots_def)
qed

lemma demo_remote:
  assumes "uplink_tx ctx = Some u" "downlink_pending ctx = []" "b \<noteq> []"
  shows "\<exists>ctx'. loop_step demo_tcp demo_etherparse False now (EvRemote (demo_poll 1 (TcpListen, [], None)) (\<lambda>_. Inr ()))
      (demo_tun (demo_slots (demo_conn []) ctx rs c tr n rx) {||} ((0, b) # q) k) =
    Some (demo_tun (demo_slots (demo_conn []) ctx' rs c (tr @ [RemoteRecv 0 b, LocalSent 0 b, TunWritten []]) n None) {||} q k)"
  using assms
  by (simp add: loop_remote_def demo_tun_def demo_slots_def handle_remote_payload_def flush_downlink_def demo_conn_def put_slot_def emit_def
      poll_and_flush_def iface_poll_def demo_poll_def device_flush_def flush_tx_def device_new_def put_ctx_def set_slots_def has_pending_def Let_def
      note_remote_payload_def) (rule exI, rule refl)

section \<open>A run\<close>

text \<open>
  A connection is opened, its remote answers, and the application closes before the answer is taken from
  the queue. The slot is rearmed, a second connection takes it, and then the answer is delivered.
\<close>

definition demo_opening :: "(nat \<times> (demo_socket, string) loop_event) list" where
  "demo_opening = [(1, demo_syn [1]), (2, EvRelay 0 (RemoteReady (Inr [9]) 0 True)),
     (3, EvTimer (demo_poll 0 (TcpCloseWait, [], None)) (\<lambda>_. Inr ()) demo_up)]"

definition demo_events :: "(nat \<times> (demo_socket, string) loop_event) list" where
  "demo_events = demo_opening @ [(4, EvUdpSweep), (5, demo_syn [2]), (6, EvRemote (demo_poll 1 (TcpListen, [], None)) (\<lambda>_. Inr ()))]"

lemma demo_env: "list_all (\<lambda>(now, ev). env_ok ev) demo_opening" "list_all (\<lambda>(now, ev). env_ok ev) demo_events"
  by (simp_all add: demo_events_def demo_opening_def demo_syn_def demo_poll_contract read_contract_def)

lemma demo_first:
  "loop_step demo_tcp demo_etherparse False 1 (demo_syn [1]) (tun_init 2 1500) =
    Some (demo_tun (demo_slots (demo_conn []) ((socket_ctx_new 80)\<lparr> uplink_tx := Some 0, slot_state := Relaying \<rparr>)
      (fmupd 0 (relay_new 0 ''s'' [[1]] 1) fmempty) 1
      [TunWritten [], LocalRecv 0 [1], UplinkSend 0 [1], RelayStart 0 0 ''s''] 1 None) {||} [] 1)"
  using demo_rx [of "tun_init 2 1500" "(TcpListen, [], None)" "socket_ctx_new 80" fmempty 0 "[]" 0 "Some [0, 80, 2]" "[]" 0 "[1]" 1] demo_inspect(2)
  by (simp add: tun_init_def slots_init_def device_new_def socket_ctx_new_def)

lemma demo_again:
  assumes "slot_state ctx = Listening" "uplink_tx ctx = None" "downlink_pending ctx = []" "p \<noteq> []"
  shows "loop_step demo_tcp demo_etherparse False now (demo_syn p) (demo_tun (demo_slots (TcpListen, [], None) ctx rs c tr n rx) {||} q k) =
    Some (demo_tun (demo_slots (demo_conn []) (ctx\<lparr> uplink_tx := Some c, slot_state := Relaying \<rparr>) (fmupd c (relay_new 0 ''s'' [p] now) rs) (Suc c)
       (tr @ [TunWritten [], LocalRecv 0 p, UplinkSend c p, RelayStart 0 c ''s'']) (n + 1) None) {||} q (k + 1))"
proof (rule demo_rx [OF _ _ assms])
  let ?st = "demo_tun (demo_slots (TcpListen, [], None) ctx rs c tr n rx) {||} q k"
  show "inspect_frame demo_tcp demo_etherparse
      (set_slots ((tl_slots ?st)\<lparr> device := (device (tl_slots ?st))\<lparr> rx_buffer := Some [0, 80, 2] \<rparr> \<rparr>) ?st) =
    Some (demo_tun (demo_slots (TcpListen, [], None) ctx rs c tr n (Some [0, 80, 2])) {|0, 1|} q k)"
    using demo_inspect(1) [of ctx rs c tr n "{||}"] by (simp add: demo_tun_def demo_slots_def set_slots_def)
qed (simp add: demo_tun_def demo_slots_def device_new_def)

text \<open>The slot context of the first connection, and the state in which its application has closed.\<close>

definition demo_ctx :: socket_ctx where
  "demo_ctx = (socket_ctx_new 80)\<lparr> uplink_tx := Some 0, slot_state := Relaying \<rparr>"

definition demo_closing :: "(nat, string relay_task) fmap \<Rightarrow> (demo_socket, string) tun" where
  "demo_closing rs = demo_tun (demo_slots (TcpCloseWait, [], None) demo_ctx rs 1
     [TunWritten [], LocalRecv 0 [1], UplinkSend 0 [1], RelayStart 0 0 ''s'', StreamRead 0 [9], TunWritten []] 1 None) {||} [(0, [9])] 2"

lemma demo_ctx_simps [simp]:
  "slot_state demo_ctx = Relaying" "uplink_tx demo_ctx = Some 0" "slot_fake_ip demo_ctx = None" "local_port demo_ctx = 80"
  "downlink_pending demo_ctx = []"
  by (simp_all add: demo_ctx_def socket_ctx_new_def)

lemma demo_opened: "\<exists>rs. loop_run demo_tcp demo_etherparse False demo_opening (tun_init 2 1500) = Some (demo_closing rs)"
proof -
  let ?rs = "fmupd 0 (relay_new 0 ''s'' [[1]] 1) fmempty"
  let ?t1 = "[TunWritten [], LocalRecv 0 [1], UplinkSend 0 [1], RelayStart 0 0 ''s''] :: string action list"
  obtain rs where 2: "loop_step demo_tcp demo_etherparse False 2 (EvRelay 0 (RemoteReady (Inr [9]) 0 True))
        (demo_tun (demo_slots (demo_conn []) demo_ctx ?rs 1 ?t1 1 None) {||} [] 1) =
      Some (demo_tun (demo_slots (demo_conn []) demo_ctx rs 1 (?t1 @ [StreamRead 0 [9]]) 1 None) {||} [(0, [9])] 1)"
    using demo_read [of ?rs 0 "relay_new 0 ''s'' [[1]] 1" "[9]" 2 "demo_conn []" demo_ctx 1 ?t1 1 None "{||}" 1]
    by (auto simp: relay_new_def simp del: loop_step.simps)
  have "loop_run demo_tcp demo_etherparse False demo_opening (tun_init 2 1500) =
      Some (demo_tun (demo_slots (TcpCloseWait, [], None) demo_ctx rs 1 ((?t1 @ [StreamRead 0 [9]]) @ [TunWritten []]) 1 None) {||} [(0, [9])] (1 + 1))"
    by (simp only: demo_opening_def loop_run.simps demo_first [folded demo_ctx_def] 2 demo_timer option.case)
  then show ?thesis by (simp add: demo_closing_def) blast
qed

lemma demo_closing_reachable: "\<exists>rs. reachable demo_tcp demo_etherparse False (demo_closing rs)"
proof -
  obtain rs where "loop_run demo_tcp demo_etherparse False demo_opening (tun_init 2 1500) = Some (demo_closing rs)"
    using demo_opened by blast
  from reach_run [OF tr_init _ demo_env(1) this, of "\<lambda>_. True"] show ?thesis by auto
qed

lemma demo_run:
  "map_option (\<lambda>st. trace (tl_slots st)) (loop_run demo_tcp demo_etherparse False demo_events (tun_init 2 1500)) =
     Some [TunWritten [], LocalRecv 0 [1], UplinkSend 0 [1], RelayStart 0 0 ''s'', StreamRead 0 [9], TunWritten [],
       Rearmed 0 ''local'' ''dead_slot_reap'', TunWritten [], LocalRecv 0 [2], UplinkSend 1 [2], RelayStart 0 1 ''s'',
       RemoteRecv 0 [9], LocalSent 0 [9], TunWritten []]"
proof -
  let ?step = "loop_step demo_tcp demo_etherparse False" and ?conn = "demo_conn []" and ?c = "rearmed_ctx demo_ctx"
  obtain rs where 3: "loop_run demo_tcp demo_etherparse False demo_opening (tun_init 2 1500) = Some (demo_closing rs)"
    using demo_opened by blast
  let ?t3 = "[TunWritten [], LocalRecv 0 [1], UplinkSend 0 [1], RelayStart 0 0 ''s'', StreamRead 0 [9], TunWritten []] :: string action list"
  let ?t4 = "?t3 @ [Rearmed 0 ''local'' ''dead_slot_reap'']"
  have 4: "?step 4 EvUdpSweep (demo_closing rs) = Some (demo_tun (demo_slots (TcpListen, [], None) ?c rs 1 ?t4 1 None) {||} [(0, [9])] 2)"
    unfolding demo_closing_def by (rule demo_sweep) simp_all
  let ?t5 = "?t4 @ [TunWritten [], LocalRecv 0 [2], UplinkSend 1 [2], RelayStart 0 1 ''s'']"
  let ?c5 = "?c\<lparr> uplink_tx := Some 1, slot_state := Relaying \<rparr>" and ?rs5 = "fmupd 1 (relay_new 0 ''s'' [[2]] 5) rs"
  have 5: "?step 5 (demo_syn [2]) (demo_tun (demo_slots (TcpListen, [], None) ?c rs 1 ?t4 1 None) {||} [(0, [9])] 2) =
      Some (demo_tun (demo_slots ?conn ?c5 ?rs5 (Suc 1) ?t5 (1 + 1) None) {||} [(0, [9])] (2 + 1))"
    by (rule demo_again) (simp_all add: rearmed_ctx_def)
  obtain c6 where 6: "?step 6 (EvRemote (demo_poll 1 (TcpListen, [], None)) (\<lambda>_. Inr ()))
      (demo_tun (demo_slots ?conn ?c5 ?rs5 (Suc 1) ?t5 (1 + 1) None) {||} [(0, [9])] (2 + 1)) =
    Some (demo_tun (demo_slots ?conn c6 ?rs5 (Suc 1) (?t5 @ [RemoteRecv 0 [9], LocalSent 0 [9], TunWritten []]) (1 + 1) None) {||} [] (2 + 1))"
    using demo_remote [of ?c5 1 "[9]" 6 ?rs5 "Suc 1" ?t5 "1 + 1" None "[]" "2 + 1"]
    by (auto simp: rearmed_ctx_def simp del: loop_step.simps)
  have "loop_run demo_tcp demo_etherparse False demo_events (tun_init 2 1500) =
      Some (demo_tun (demo_slots ?conn c6 ?rs5 (Suc 1) (?t5 @ [RemoteRecv 0 [9], LocalSent 0 [9], TunWritten []]) (1 + 1) None) {||} [] (2 + 1))"
    by (simp only: demo_events_def loop_run_append 3 loop_run.simps 4 5 6 option.case)
  then show ?thesis by (simp add: demo_tun_def demo_slots_def)
qed

text \<open>Instead, the answer is taken while the socket cannot send: it waits in the backlog.\<close>

lemma demo_stuck:
  assumes "uplink_tx ctx = Some u" "downlink_pending ctx = []" "b \<noteq> []"
  shows "\<exists>ctx'. downlink_pending ctx' = b \<and> loop_step demo_tcp demo_etherparse False now (EvRemote (demo_poll 1 (TcpListen, [], None)) (\<lambda>_. Inr ()))
      (demo_tun (demo_slots (TcpCloseWait, [], None) ctx rs c tr n rx) {||} ((0, b) # q) k) =
    Some (demo_tun (demo_slots (TcpCloseWait, [], None) ctx' rs c (tr @ [RemoteRecv 0 b, TunWritten []]) n None) {|0|} q k)"
  using assms
  by (simp add: loop_remote_def demo_tun_def demo_slots_def handle_remote_payload_def flush_downlink_def put_slot_def emit_def
      poll_and_flush_def iface_poll_def demo_poll_def device_flush_def flush_tx_def device_new_def put_ctx_def set_slots_def has_pending_def Let_def
      note_remote_payload_def) (rule exI, rule conjI [OF _ refl], simp)

lemma demo_backlog:
  "\<exists>rs ctx. downlink_pending ctx = [9] \<and>
     reachable demo_tcp demo_etherparse False (demo_tun (demo_slots (TcpCloseWait, [], None) ctx rs 1
       [TunWritten [], LocalRecv 0 [1], UplinkSend 0 [1], RelayStart 0 0 ''s'', StreamRead 0 [9], TunWritten [],
        RemoteRecv 0 [9], TunWritten []] 1 None) {|0|} [] 2)"
proof -
  obtain rs where r: "reachable demo_tcp demo_etherparse False (demo_closing rs)" using demo_closing_reachable by blast
  let ?ev = "EvRemote (demo_poll 1 (TcpListen, [], None)) (\<lambda>_. Inr ())"
  let ?t = "[TunWritten [], LocalRecv 0 [1], UplinkSend 0 [1], RelayStart 0 0 ''s'', StreamRead 0 [9], TunWritten []] :: string action list"
  obtain ctx where c: "downlink_pending ctx = [9]" "loop_step demo_tcp demo_etherparse False 4 ?ev (demo_closing rs) =
      Some (demo_tun (demo_slots (TcpCloseWait, [], None) ctx rs 1 (?t @ [RemoteRecv 0 [9], TunWritten []]) 1 None) {|0|} [] 2)"
    using demo_stuck [of demo_ctx 0 "[9]" 4 rs 1 ?t 1 None "[]" 2] by (auto simp: demo_closing_def simp del: loop_step.simps)
  from tr_step [OF r _ _ c(2)] have "reachable demo_tcp demo_etherparse False
      (demo_tun (demo_slots (TcpCloseWait, [], None) ctx rs 1 (?t @ [RemoteRecv 0 [9], TunWritten []]) 1 None) {|0|} [] 2)"
    by (simp add: demo_poll_contract)
  with c(1) show ?thesis by (intro exI [of _ rs] exI [of _ ctx]) simp
qed

section \<open>A connection that waits for its handshake\<close>

definition demo_slow :: "string upstream" where
  "demo_slow = \<lparr> open_is_cheap = False, open_tcp = (\<lambda>h t. Inr ''s'') \<rparr>"

definition demo_pending :: "(demo_socket, string) tun" where
  "demo_pending = demo_tun ((demo_slots (demo_conn [])
      ((socket_ctx_new 80)\<lparr> slot_state := HandshakePending, conn_epoch := 1, uplink_buffer := [1] \<rparr>) fmempty 0
      [TunWritten [], LocalRecv 0 [1], HandshakeStart 0 1 (IpPort (V4 0x09090909) 80)] 0 None)
        \<lparr> handshakes := [(0, 1, IpPort (V4 0x09090909) 80)] \<rparr>) {||} [] 1"

lemma demo_wait:
  "process_listener_activity demo_tcp demo_slow now 0 (demo_slots (demo_conn [1]) (socket_ctx_new 80) rs c tr n rx) =
    Some (Inr (), (demo_slots (demo_conn []) ((socket_ctx_new 80)\<lparr> slot_state := HandshakePending, conn_epoch := 1, uplink_buffer := [1] \<rparr>)
       rs c (tr @ [LocalRecv 0 [1], HandshakeStart 0 1 (IpPort (V4 0x09090909) 80)]) n rx)
         \<lparr> handshakes := [(0, 1, IpPort (V4 0x09090909) 80)] \<rparr>)"
  by (simp add: process_listener_activity_def flush_slot_def flush_downlink_def first_payload_def recv_slot_def extract_socket_payload_def
      demo_slots_def demo_conn_def put_slot_def emit_def fmupd_same demo_resolve handle_local_payload_def spawn_handshake_def demo_slow_def
      put_ctx_def acquire_for_def buffer_uplink_def MAX_UPLINK_BUFFER_def socket_ctx_new_def Let_def)

lemma demo_idle_waiting:
  "process_listener_activity demo_tcp demo_slow now 1 ((demo_slots s ctx rs c tr n rx)\<lparr> handshakes := hs \<rparr>) =
     Some (Inr (), (demo_slots s ctx rs c tr n rx)\<lparr> handshakes := hs \<rparr>)"
  by (simp add: process_listener_activity_def flush_slot_def flush_downlink_def first_payload_def recv_slot_def extract_socket_payload_def
      demo_slots_def socket_ctx_new_def put_slot_def emit_def fmupd_same)

lemma demo_pending_reachable: "reachable demo_tcp demo_etherparse False demo_pending"
proof (rule tr_step [OF tr_init])
  let ?rd = "\<lambda>n. Inr (take n [0, 80, 2])" and ?poll = "demo_poll 0 (demo_conn [1])"
  show "env_ok (EvRx ?rd ?poll (\<lambda>_. Inr ()) demo_slow)" by (simp add: demo_poll_contract read_contract_def)
  let ?sl = "demo_slots (demo_conn [1]) (socket_ctx_new 80) fmempty 0 [TunWritten []] 0 None"
  have c: "downlink_pending (socket_ctx_new 80) = []" by (simp add: socket_ctx_new_def)
  have d: "process_dirty_relay demo_tcp demo_slow 1 (demo_tun ?sl {|0, 1|} [] 1) = Some demo_pending"
    using demo_wait [of 1 fmempty 0 "[TunWritten []]" 0 None] demo_idle_waiting
    by (simp add: process_dirty_relay_def demo_tun_def demo_dirty [simplified] demo_slots_at demo_conn_def set_slots_def Let_def demo_pending_def c)
  show "loop_step demo_tcp demo_etherparse False 1 (EvRx ?rd ?poll (\<lambda>_. Inr ()) demo_slow) (tun_init 2 1500) = Some demo_pending"
    using d demo_inspect(2)
    by (simp add: loop_rx_def wait_for_rx_def rx_buffer_capacity_for_mtu_def tun_packet_header_len_def rx_peek_def demo_frame demo_polled
        tun_init_def slots_init_def device_new_def set_slots_def)
qed simp_all

section \<open>A UDP flow to a fake address\<close>

text \<open>A DNS query for the name \<open>a\<close>, and then a UDP packet to the address it was answered with.\<close>

definition demo_query :: bytes where
  "demo_query = be32 0x0A000001 @ be32 0x08080808 @ be16 5353 @ be16 53 @ query_packet 7 0x0100 [0,0,0,0,0,0] [str ''a''] 1 1"

definition demo_packet :: bytes where
  "demo_packet = be32 0x0A000001 @ be32 3323068418 @ be16 5000 @ be16 6000 @ [1, 2]"

definition demo_frame_event :: "bytes \<Rightarrow> (demo_socket, string) loop_event" where
  "demo_frame_event pkt = EvRx (\<lambda>n. Inr (take n pkt)) (demo_poll 0 (demo_conn [])) (\<lambda>_. Inr ()) demo_up"

lemma demo_frame_rx:
  assumes "dev_mtu (device (tl_slots st)) = 1500" "length pkt \<le> 1500"
  shows "classify_inbound demo_etherparse pkt = InDns \<Longrightarrow>
      handle_dns_hijack demo_etherparse False (\<lambda>_. Inr ()) pkt now
        ((tl_slots st)\<lparr> device := (device (tl_slots st))\<lparr> rx_buffer := None \<rparr> \<rparr>) = Some sl \<Longrightarrow>
      loop_step demo_tcp demo_etherparse False now (demo_frame_event pkt) st = Some (set_slots sl st)"
    "classify_inbound demo_etherparse pkt = InUdpRelay \<Longrightarrow>
      handle_tuic_udp_uplink demo_etherparse pkt now (assoc_tbl st) (fake_pool (tl_slots st)) = Some (dg, t, p) \<Longrightarrow>
      \<exists>st'. loop_step demo_tcp demo_etherparse False now (demo_frame_event pkt) st = Some st' \<and> assoc_tbl st' = t"
  using assms
  by (simp_all add: demo_frame_event_def loop_rx_def wait_for_rx_def rx_buffer_capacity_for_mtu_def tun_packet_header_len_def rx_peek_def
      rx_take_def set_slots_def)

lemma demo_asked:
  "\<exists>sl :: (demo_socket, string) slots. loop_step demo_tcp demo_etherparse False 3 (demo_frame_event demo_query) (tun_init 2 1500) = Some (set_slots sl (tun_init 2 1500)) \<and>
     fake_pool sl = snd (alloc (str ''a'') 3 pool_new) \<and> dev_mtu (device sl) = 1500"
proof -
  let ?dns = "query_packet 7 0x0100 [0,0,0,0,0,0] [str ''a''] 1 1" and ?q = "query_of 7 0x0100 [str ''a''] 1 1"
  let ?udp = "\<lparr> ui_src_ip = 0x0A000001, ui_src_port = 5353, ui_dst_ip = 0x08080808, ui_dst_port = 53, ui_payload = ?dns \<rparr>"
  have p: "parse_inbound_udp demo_etherparse demo_query = Some ?udp"
    by (simp add: parse_inbound_udp_def demo_etherparse_def demo_parse_write demo_query_def)
  have d: "parse_query ?dns = Some ?q"
    using parse_query_complete [of "[str ''a'']" "[0,0,0,0,0,0]" 7 "0x0100" 1 1 "[]"] by (simp add: wf_label_def str_def)
  have n: "q_qtype ?q = QTYPE_A" "q_qname ?q = str ''a''" by (simp_all add: query_of_def QTYPE_A_def)
  let ?resp = "build_response ?q (AnswerA (fst (alloc (str ''a'') 3 pool_new)) 5)"
  have "length ?resp \<le> 65507" using question_length [OF d]
    by (simp add: build_response_def response_header_def answer_record_def query_packet_def encode_question_def encode_labels_def str_def Let_def)
  then obtain reply where r: "build_udp_ip_packet demo_etherparse (0x08080808, 53) (0x0A000001, 5353) ?resp = Some reply"
    using build_None_iff [OF demo_ep_contract, of "(0x08080808, 53)" "(0x0A000001, 5353)" ?resp] by fastforce
  have f: "forge_dns_reply demo_etherparse ?udp 3 pool_new = Some (Some reply, snd (alloc (str ''a'') 3 pool_new))"
    using r by (simp add: forge_dns_reply_def d n case_prod_unfold Let_def)
  have len: "length demo_query \<le> 1500" "classify_inbound demo_etherparse demo_query = InDns"
    using p by (simp_all add: demo_query_def query_packet_def encode_question_def encode_labels_def str_def classify_inbound_def)
  let ?st = "tun_init 2 1500 :: (demo_socket, string) tun"
  obtain sl where "handle_dns_hijack demo_etherparse False (\<lambda>_. Inr ()) demo_query 3
      ((tl_slots ?st)\<lparr> device := (device (tl_slots ?st))\<lparr> rx_buffer := None \<rparr> \<rparr>) = Some sl"
    "fake_pool sl = snd (alloc (str ''a'') 3 pool_new)" "dev_mtu (device sl) = 1500"
    using p f by (simp add: handle_dns_hijack_def tun_init_def slots_init_def device_flush_def flush_tx_def inject_ip_packet_def
        push_injected_def device_new_def)
  moreover have "dev_mtu (device (tl_slots ?st)) = 1500" by (simp add: tun_init_def slots_init_def device_new_def)
  ultimately show ?thesis using demo_frame_rx(1) [OF _ len, of ?st 3 sl] by blast
qed

lemma demo_flow:
  "\<exists>st :: (demo_socket, string) tun. tun_reach demo_tcp demo_etherparse False (\<lambda>st. \<not> pool_full (fake_pool (tl_slots st))) st \<and> 3323068418 \<in># held (assoc_tbl st)"
proof -
  let ?R = "tun_reach demo_tcp demo_etherparse False (\<lambda>st. \<not> pool_full (fake_pool (tl_slots st)))"
  have env: "env_ok (demo_frame_event pkt)" for pkt by (simp add: demo_frame_event_def demo_poll_contract read_contract_def)
  obtain sl where sl: "loop_step demo_tcp demo_etherparse False 3 (demo_frame_event demo_query) (tun_init 2 1500) = Some (set_slots sl (tun_init 2 1500))"
    "fake_pool sl = snd (alloc (str ''a'') 3 pool_new)" "dev_mtu (device sl) = 1500" using demo_asked by blast
  let ?st = "set_slots sl (tun_init 2 1500)"
  have a: "assignable 3323068420" by (simp add: assignable_nat)
  have full: "\<not> pool_full pool_new" "\<not> pool_full (fake_pool sl)"
    using a by (auto simp: pool_full_def sl(2) alloc_pool_new_fields intro!: exI [of _ 3323068420]) (simp add: pool_new_def)
  have r: "?R ?st" using tr_step [OF tr_init _ env sl(1), of "\<lambda>st. \<not> pool_full (fake_pool (tl_slots st))"] full(1)
    by (simp add: tun_init_def slots_init_def)
  let ?udp = "\<lparr> ui_src_ip = 0x0A000001, ui_src_port = 5000, ui_dst_ip = 3323068418, ui_dst_port = 6000, ui_payload = [1, 2] \<rparr>"
  have p: "parse_inbound_udp demo_etherparse demo_packet = Some ?udp"
    by (simp add: parse_inbound_udp_def demo_etherparse_def demo_parse_write demo_packet_def)
  have t: "resolve_target (V4 (ui_dst_ip ?udp), ui_dst_port ?udp) (fake_pool sl) = Direct (DomainPort (str ''a'') 6000) (Some 3323068418)"
    by (simp add: resolve_target_def is_dns_relay_port_def is_encrypted_dns_port_def sl(2) is_fake_def alloc_pool_new_fields resolve_def)
  have "assoc_inv assoc_new" by (simp add: assoc_new_def assoc_with_cap_inv)
  from uplink_flow [OF this p t, of 4] obtain i t1 where i: "intern (tuple_of ?udp) assoc_new = Some (i, t1)"
    and u: "\<exists>dg p'. handle_tuic_udp_uplink demo_etherparse demo_packet 4 assoc_new (fake_pool sl) =
      Some (dg, (set_fake_ip i 3323068418 (touch i 4 t1))\<lparr> reclaimed_fake_ips := [] \<rparr>, p')"
    by (auto simp: assoc_contains_def assoc_new_def assoc_with_cap_def Let_def)
  have len: "length demo_packet \<le> 1500" "classify_inbound demo_etherparse demo_packet = InUdpRelay"
    using p by (simp_all add: demo_packet_def classify_inbound_def)
  obtain st' where st': "loop_step demo_tcp demo_etherparse False 4 (demo_frame_event demo_packet) ?st = Some st'"
    "assoc_tbl st' = (set_fake_ip i 3323068418 (touch i 4 t1))\<lparr> reclaimed_fake_ips := [] \<rparr>"
    using u demo_frame_rx(2) [OF _ len, of ?st 4] sl(3) by (auto simp: set_slots_def tun_init_def)
  have "3323068418 \<in># held (assoc_tbl st')"
    unfolding st'(2) held_def by (auto simp: set_fake_ip_def fm_values_def)
  moreover have "?R st'" using tr_step [OF r _ env st'(1)] full(2) by (simp add: set_slots_def)
  ultimately show ?thesis by blast
qed

end
