(* ===== verification/Spec2Isabelle.thy ===== *)
theory Spec2Isabelle
  imports FakeIp Dns DnsBlock Failover TuicCodec Frag Assoc Segmentation RealityRead RealityUpstream TuicUpstream LoopProfiler Harness LoopProgress LoopDemo
begin

text \<open>
  A verification development of mini_vpn, a VPN client that reads packets from a TUN device, terminates TCP in
  user space, hands out fake addresses for domain names, and carries flows to a server over TUIC (QUIC) or
  REALITY (a TLS 1.3 connection disguised as one to another site), with failover between the two.

  \<^bold>\<open>The program and the theories.\<close> File names are relative to \<^verbatim>\<open>src/\<close>; definitions keep the names of the code,
  with a prefix where two components use the same name.

  \<^item> Shared parts. \<open>Prelude\<close> (machine types, slices, big-endian conversion, lemma collections), \<open>Shared\<close>
    (\<^verbatim>\<open>shared/errors.rs\<close>, \<^verbatim>\<open>shared/target.rs\<close>), \<open>Parsing\<close> (strings to values, \<open>TargetAddr::parse\<close>). Interfaces as
    locales: \<open>BiIndex\<close> (two tables that are inverse), \<open>FlowRefs\<close> (references to fake addresses), \<open>Cursor\<close> (cyclic
    allocation), \<open>Transition\<close> (invariants over histories), \<open>Address\<close> (self-delimiting encodings), and \<open>Oldest\<close>
    (eviction of the oldest entry). Each is interpreted on the components that provide it.
  \<^item> Names and addresses. \<open>FakeIp\<close> is \<^verbatim>\<open>fake_ip.rs\<close>: the state is the record \<open>fake_ip_pool\<close>, the operations \<open>alloc\<close>,
    \<open>acquire\<close>, \<open>release\<close>, \<open>pool_sweep\<close>, \<open>resolve\<close>. \<open>Dns\<close> is \<^verbatim>\<open>dns.rs\<close>, \<open>DnsBlock\<close> is \<^verbatim>\<open>dns_block.rs\<close>.
  \<^item> TUIC. \<open>TuicCodec\<close>, \<open>Frag\<close>, \<open>Assoc\<close> and \<open>TuicUpstream\<close> are \<^verbatim>\<open>tuic.rs\<close> (with the flow types of \<^verbatim>\<open>udp_relay.rs\<close>): commands,
    reassembly of fragments, the association table, and the upstream with its reconnects and its driver task. \<open>Quic\<close>
    is \<^verbatim>\<open>quic.rs\<close>. \<open>Harness\<close> is the UDP half of the stand-in server of \<^verbatim>\<open>harness.rs\<close>.
  \<^item> REALITY. \<open>Crypto\<close> collects the primitives as a parameter; \<open>Auth\<close>, \<open>ClientHello\<close>, \<open>ServerHello\<close>, \<open>Cert\<close>, \<open>KeySchedule\<close>,
    \<open>RecordLayer\<close>, \<open>Vless\<close>, \<open>Handshake\<close> are the files of \<^verbatim>\<open>reality/\<close> of those names, with \<open>TlsWire\<close> for what they share;
    \<open>Segmentation\<close> and \<open>HandshakeComplete\<close> hold lemmas about the driver. \<open>RealityStream\<close>, \<open>RealityWrite\<close>, \<open>RealityRead\<close>
    are the encrypted stream and \<open>RealityUpstream\<close> the opening of a flow, all of \<^verbatim>\<open>reality_upstream.rs\<close>.
  \<^item> Failover. \<open>Failover\<close> is \<^verbatim>\<open>failover.rs\<close>, as methods and again one atomic operation at a time.
  \<^item> The main loop. \<open>Device\<close> is \<^verbatim>\<open>device.rs\<close>, \<open>Metrics\<close> is \<^verbatim>\<open>metrics.rs\<close>, \<open>LoopProfiler\<close> is \<^verbatim>\<open>loop_profiler.rs\<close>. \<open>Relay\<close> (the task
    of one connection), \<open>Slots\<close> (listener slots, registry and every handler), \<open>UdpPlane\<close> (packets, DNS, UDP) and
    \<open>EventLoop\<close> (the arms of \<open>run_event_loop\<close>) are \<^verbatim>\<open>client_tun.rs\<close>. The state of the loop is the record \<open>tun\<close>, whose field
    \<open>tl_slots\<close> holds the sockets, contexts, registry, pool, device and relay tasks. \<open>loop_step\<close> runs one arm, and
    \<open>reachable\<close> is the inductive relation of the states that occur, whatever the environment and the relay tasks do
    and in whatever order. \<open>SlotActs\<close>, \<open>SlotInv\<close>, \<open>SlotRefs\<close>, \<open>SlotTotal\<close>, \<open>Registry\<close>, \<open>LoopInv\<close>, \<open>LoopArms\<close>,
    \<open>LoopReach\<close>, \<open>LoopProgress\<close> prove its invariants; \<open>LoopDemo\<close> runs it on a small concrete stack.
  \<^item> Startup. \<open>Config\<close> has every reader of the environment and \<open>start_tun_proxy\<close>.

  \<^bold>\<open>How they interact.\<close> The loop classifies a packet, answers DNS queries from the pool, sends UDP through the
  association table and the TUIC encoder, and gives TCP to the stack. A slot with a new connection resolves its
  address to a target, opens it on the upstream, directly or by a spawned handshake whose result comes back as an
  event, and pumps bytes through a bounded channel to its relay task. Slots and associations hold references to
  fake addresses, which keeps their mappings alive.

  \<^bold>\<open>What is proved.\<close> For the upstreams: nothing is sent before the server is authenticated (REALITY) or the client
  has authenticated itself on that connection (TUIC); the peer reads exactly what was written and the user what
  was sent, for every segmentation, partial write and key update; no nonce is used twice; an honest server is
  accepted; the downlink is accounted for; the driver recovers. For the loop: the exact inputs on which it panics;
  the well-formedness of all its data; the two byte streams of every connection; installation of handshakes;
  exactness of reference counts; reaping; progress of backlogs; and a run in which bytes of one connection reach
  the next one. For failover: the thresholds in both directions, alternation under every interleaving, and
  bounded times to switch. For the tables and codecs: bijection, exact sweeps, total allocation, bounds, round
  trips, and exact characterisations of what the parsers accept. For startup: it aborts or starts from a sound
  configuration.

  \<^bold>\<open>Conventions and bounds.\<close> A panic is \<^const>\<open>None\<close>, an error the left summand. No definition uses fuel: every loop is
  structural or has a termination proof, loops that wait for the environment are step functions run over a list of
  events, and the environment's answers are scripts or part of the event. Times are seconds (nanoseconds in the
  profiler) as naturals; counters are words of their width and may wrap. Third-party code is a parameter: the TCP
  stack (\<open>tcp_contract\<close>), the packet library (\<open>ep_contract\<close>), the primitives (\<open>crypto\<close> with \<open>aead_correct\<close>,
  \<open>x25519_ok\<close>, \<open>macs_sized\<close>), \<^verbatim>\<open>quinn\<close> (the record \<open>quinn\<close>), base64, PEM and the operating system. Every theorem with
  such a hypothesis is applied to a concrete instance.

  \<^bold>\<open>Not modelled.\<close> The traits of \<^verbatim>\<open>upstream.rs\<close> (declarations); \<^verbatim>\<open>main.rs\<close> and module lists; \<open>reality_probe\<close>, the text of log
  lines and reports and \<open>Debug\<close> implementations (output only); the percentages of the profiler (floating point numbers
  that are only printed); creation of the device (system calls); the load generators and measurements of
  \<^verbatim>\<open>harness.rs\<close>; tests. Secrecy is not stated: the primitives are only assumed correct, not secure.
\<close>

section \<open>The main loop\<close>

text \<open>
  C8. The main loop is total except for two inputs. From every state the program can reach, and for every
  event the environment can produce, a turn of the loop panics exactly in these cases: the operating system
  delivers a clean SYN to TCP port 0 while fewer than 64 ports are intercepted (the stack refuses to listen
  on port 0 and the result is unwrapped), or the server sends a UDP datagram of a live flow whose reassembled
  payload exceeds 65507 bytes (the packet builder's result is unwrapped). No other handler, sweep, timer,
  handshake result or relay round can panic: every socket, context and relay looked up exists, every
  rearmed port can be listened on, every flow gets an id.
\<close>

theorem loop_panics_exactly:
  assumes "tcp_contract api" "ep_contract ep" "reachable api ep macos st" "env_ok ev"
  shows "loop_step api ep macos now ev st = None \<longleftrightarrow>
    (case ev of
       EvRx rd poll w up \<Rightarrow> (\<exists>pkt. delivered macos rd st = Some pkt \<and> classify_inbound ep pkt = InOther \<and>
         inspect_inbound_tcp ep pkt = Some (0, True) \<and> fcard (fmdom (ports (registry (tl_slots st)))) < MAX_INTERCEPTED_PORTS)
     | EvDownlink dg w \<Rightarrow> (\<exists>meta payload e. decode_packet_meta dg = Some meta \<and> fst (frag_accept meta now (reassembler st)) = Some payload \<and>
         assoc_resolve (pm_assoc_id meta) (assoc_tbl st) = Some e \<and> length payload > 65507)
     | _ \<Rightarrow> False)"
  using loop_step_ok(1) [OF assms(1,2,4) reach_inv [OF assms(1-3)], of macos now]
  by (cases ev) (simp_all add: syn_to_zero_def too_large_def)

theorem loop_panics_exactly_witness:
  "loop_step demo_tcp demo_etherparse False 1
     (EvRx (\<lambda>n. Inr (take n [0, 0, 2])) (demo_poll 0 (demo_conn [])) (\<lambda>_. Inr ()) demo_up) (tun_init 2 1500) = None \<and>
   loop_step demo_tcp demo_etherparse False 1 (demo_syn [1]) (tun_init 2 1500) \<noteq> None"
proof -
  have r: "reachable demo_tcp demo_etherparse False (tun_init 2 1500)" by (rule tr_init) simp_all
  have d: "delivered False (\<lambda>n. Inr (take n f)) (tun_init 2 1500) = Some (take 1500 f)" for f :: bytes
    by (simp add: delivered_def tun_init_def slots_init_def device_new_def wait_for_rx_def rx_buffer_capacity_for_mtu_def
        tun_packet_header_len_def rx_peek_def)
  have f: "inspect_inbound_tcp demo_etherparse [0, 0, 2] = Some (0, True)" "classify_inbound demo_etherparse [0, 0, 2] = InOther"
    by (simp_all add: inspect_inbound_tcp_def classify_inbound_def parse_inbound_udp_def demo_etherparse_def demo_parse_def from_be16_def)
  have p: "ports (registry (tl_slots (tun_init 2 1500))) = fmempty" by (simp add: tun_init_def slots_init_def registry_new_def)
  show ?thesis
    using loop_panics_exactly [OF demo_tcp_contract demo_ep_contract r, of "EvRx (\<lambda>n. Inr (take n [0, 0, 2])) (demo_poll 0 (demo_conn [])) (\<lambda>_. Inr ()) demo_up" 1]
      loop_panics_exactly [OF demo_tcp_contract demo_ep_contract r, of "demo_syn [1]" 1]
    by (simp add: d f p demo_frame MAX_INTERCEPTED_PORTS_def demo_syn_def demo_poll_contract read_contract_def del: loop_step.simps)
qed

text \<open>
  C9. The data of the loop is well formed in every reachable state. Every slot has a socket and a context
  whose fields agree with its state (no channel, backlog, buffer or fake address while it listens; a bounded
  buffer and no channel while its handshake runs; a channel and no buffer while it relays; the transient
  states are never left behind); the registry lists every slot exactly once, under the port it listens on,
  and its count is right; at most 64 ports are intercepted and the number of slots is bounded; the channel
  of a slot leads to a relay task that sends its answers back to that slot.
\<close>

theorem slots_typed:
  assumes "tcp_contract api" "ep_contract ep" "reachable api ep macos st"
    "sl = tl_slots st" "reg = registry sl" "fmlookup (socket_ctxs sl) h = Some ctx"
  shows "slot_ok ctx \<and> fmlookup (sockets sl) h \<noteq> None \<and> h \<in> set (handles_for_port (local_port ctx) reg) \<and>
    distinct (all_handles reg) \<and> set (all_handles reg) = slot_set sl \<and> total_listeners reg = length (all_handles reg) \<and>
    fcard (fmdom (ports reg)) \<le> 64 \<and> total_listeners reg \<le> 4096 + 64 * pool_slots reg \<and>
    (\<forall>c. uplink_tx ctx = Some c \<longrightarrow> (\<exists>t. fmlookup (relays sl) c = Some t \<and> rt_handle t = h))"
proof -
  have inv: "slot_inv sl" using loop_invD(1) [OF reach_inv [OF assms(1-3)]] assms(4) by simp
  note good = slot_invD [OF inv]
  have h: "h \<in> slot_set sl" using assms(6) by (simp add: fmdom_member_iff)
  have reg: "mset (all_handles reg) = mset_set (slot_set sl)" "total_listeners reg = fcard (fmdom (socket_ctxs sl))"
    "\<And>port j. j \<in> set (handles_for_port port reg) \<Longrightarrow> map_option local_port (fmlookup (socket_ctxs sl) j) = Some port"
    "fcard (fmdom (ports reg)) \<le> 64" "total_listeners reg \<le> 4096 + pool_slots reg * fcard (fmdom (ports reg))"
    using good(3) assms(5) by (simp_all add: registry_inv_def Let_def MAX_INTERCEPTED_PORTS_def MAX_TOTAL_LISTENERS_def)
  have set: "set (all_handles reg) = slot_set sl" using registry_handles(1) [OF good(3)] assms(5) by simp
  have len: "total_listeners reg = length (all_handles reg)"
    using reg(2) arg_cong [OF reg(1), of size] by (simp add: fcard.rep_eq)
  have dist: "distinct (all_handles reg)" using registry_distinct [OF good(3)] assms(5) by simp
  from h set obtain port where "h \<in> set (handles_for_port port reg)" by (auto simp: all_handles_def)
  with reg(3) [of h port] assms(6) have "h \<in> set (handles_for_port (local_port ctx) reg)" by simp
  moreover have "total_listeners reg \<le> 4096 + 64 * pool_slots reg"
    using reg(5) mult_le_mono2 [OF reg(4), of "pool_slots reg"] by linarith
  moreover have "slot_ok ctx" "\<forall>c. uplink_tx ctx = Some c \<longrightarrow> (\<exists>t. fmlookup (relays sl) c = Some t \<and> rt_handle t = h)"
    using slots_goodD(2,3) [OF good(1)] assms(6) by (auto simp: slot_good_def owned_def)
  ultimately show ?thesis using reg(4) set dist len h slot_socket [OF inv, of h] by blast
qed

theorem slots_typed_witness:
  "\<exists>rs. reachable demo_tcp demo_etherparse False (demo_closing rs) \<and> slot_ok demo_ctx \<and>
     total_listeners (registry (tl_slots (demo_closing rs))) = 2 \<and>
     0 \<in> set (handles_for_port (local_port demo_ctx) (registry (tl_slots (demo_closing rs)))) \<and>
     (\<exists>t. fmlookup (relays (tl_slots (demo_closing rs))) 0 = Some t \<and> rt_handle t = 0)"
proof -
  obtain rs where r: "reachable demo_tcp demo_etherparse False (demo_closing rs)" using demo_closing_reachable by blast
  have c: "fmlookup (socket_ctxs (tl_slots (demo_closing rs))) 0 = Some demo_ctx"
    by (simp add: demo_closing_def demo_tun_def demo_slots_at)
  show ?thesis
    using slots_typed [OF demo_tcp_contract demo_ep_contract r refl refl c] r
    by (intro exI [of _ rs]) (simp add: demo_closing_def demo_tun_def demo_slots_def)
qed

text \<open>
  C4. Upload bytes arrive in order and none is lost silently. For every slot whose relay exists, in every
  reachable state: the bytes its connection has received from the application, apart from payloads the trace
  reports as dropped, are exactly the bytes written to the remote stream of that relay, followed by those
  still waiting in its channel, in order; only once the relay has closed may bytes in between be missing.
  The relay is the one started for this connection.
\<close>

theorem uplink_stream:
  assumes "tcp_contract api" "ep_contract ep" "reachable api ep macos st"
    "fmlookup (socket_ctxs (tl_slots st)) h = Some ctx" "uplink_tx ctx = Some c" "tr = trace (tl_slots st)"
  shows "\<exists>t r lost. fmlookup (relays (tl_slots st)) c = Some t \<and> h_relay (hist h tr) = Some (c, r) \<and>
    concat (h_kept (hist h tr)) = concat (writes c tr) @ concat lost @ concat (rt_rx t) \<and>
    (rt_closed t = None \<longrightarrow> lost = [])"
proof -
  note good = slot_invD(1) [OF loop_invD(1) [OF reach_inv [OF assms(1-3)]]]
  note g = slots_goodD(2) [OF good assms(4)]
  obtain t where t: "fmlookup (relays (tl_slots st)) c = Some t" using slots_goodD(3) [OF good] assms(4,5) unfolding owned_def by blast
  then obtain lost where lost: "sends c tr = writes c tr @ lost @ rt_rx t" "rt_closed t = None \<longrightarrow> lost = []"
    using slots_goodD(4) [OF good] unfolding assms(6) relays_good_def relay_good_def by meson
  have "\<exists>r. h_relay (hist h tr) = Some (c, r) \<and> concat (h_kept (hist h tr)) = concat (sends c tr)"
    using g assms(5,6) by (auto simp: slot_good_def slot_ok_def split: socket_state.splits)
  then show ?thesis using t lost by (intro exI [of _ t]) auto
qed

theorem uplink_stream_witness:
  "\<exists>rs t lost. reachable demo_tcp demo_etherparse False (demo_closing rs) \<and> fmlookup (relays (tl_slots (demo_closing rs))) 0 = Some t \<and>
     [1] = concat (writes 0 (trace (tl_slots (demo_closing rs)))) @ concat lost @ concat (rt_rx t) \<and> (rt_closed t = None \<longrightarrow> lost = [])"
proof -
  obtain rs where r: "reachable demo_tcp demo_etherparse False (demo_closing rs)" using demo_closing_reachable by blast
  have c: "fmlookup (socket_ctxs (tl_slots (demo_closing rs))) 0 = Some demo_ctx"
    by (simp add: demo_closing_def demo_tun_def demo_slots_at)
  have "concat (h_kept (hist 0 (trace (tl_slots (demo_closing rs))))) = [1]"
    by (simp add: demo_closing_def demo_tun_def demo_slots_def hist_def hist_new_def)
  moreover obtain t lost where "fmlookup (relays (tl_slots (demo_closing rs))) 0 = Some t"
      "concat (h_kept (hist 0 (trace (tl_slots (demo_closing rs))))) =
         concat (writes 0 (trace (tl_slots (demo_closing rs)))) @ concat lost @ concat (rt_rx t)" "rt_closed t = None \<longrightarrow> lost = []"
    using uplink_stream [OF demo_tcp_contract demo_ep_contract r c _ refl, of 0] by auto
  ultimately show ?thesis by (intro exI [of _ rs] exI [of _ t] exI [of _ lost]) (simp add: r)
qed

text \<open>
  C5. Download bytes arrive in order and none is lost silently. For every slot in every reachable state: the
  bytes accepted for its connection from the remote side are exactly the bytes that left the backlog followed
  by the backlog itself; what left the backlog is what the application's socket took, unless the trace
  reports that a backlog was discarded; and the counters of the diagnostics are the numbers of bytes
  accepted, of bytes sent and of discarded backlogs.
\<close>

theorem downlink_stream:
  assumes "tcp_contract api" "ep_contract ep" "reachable api ep macos st"
    "fmlookup (socket_ctxs (tl_slots st)) h = Some ctx" "v = hist h (trace (tl_slots st))"
  shows "h_remote v = h_out v @ downlink_pending ctx \<and> (h_lost v = 0 \<longrightarrow> h_sent v = h_out v) \<and>
    dd_remote_to_global_rx_bytes (downlink_diag ctx) = of_nat (length (h_remote v)) \<and>
    dd_send_slice_accepted_bytes (downlink_diag ctx) = of_nat (length (h_sent v)) \<and>
    dd_send_slice_errors (downlink_diag ctx) = of_nat (h_lost v)"
  using slots_goodD(2) [OF slot_invD(1) [OF loop_invD(1) [OF reach_inv [OF assms(1-3)]]] assms(4)] assms(5)
  by (simp add: slot_good_def diag_counts_def)

theorem downlink_stream_witness:
  "\<exists>(st :: (demo_socket, string) tun) ctx. reachable demo_tcp demo_etherparse False st \<and>
     fmlookup (socket_ctxs (tl_slots st)) 0 = Some ctx \<and> h_remote (hist 0 (trace (tl_slots st))) = [9] \<and>
     downlink_pending ctx = [9] \<and> dd_remote_to_global_rx_bytes (downlink_diag ctx) = 1 \<and>
     dd_send_slice_accepted_bytes (downlink_diag ctx) = 0"
proof -
  obtain rs ctx where c: "downlink_pending ctx = [9]" and r: "reachable demo_tcp demo_etherparse False
      (demo_tun (demo_slots (TcpCloseWait, [], None) ctx rs 1
       [TunWritten [], LocalRecv 0 [1], UplinkSend 0 [1], RelayStart 0 0 ''s'', StreamRead 0 [9], TunWritten [],
        RemoteRecv 0 [9], TunWritten []] 1 None) {|0|} [] 2)" (is "reachable _ _ _ ?st")
    using demo_backlog by blast
  have l: "fmlookup (socket_ctxs (tl_slots ?st)) 0 = Some ctx" by (simp add: demo_tun_def demo_slots_at)
  have h: "h_remote (hist 0 (trace (tl_slots ?st))) = [9]" "h_sent (hist 0 (trace (tl_slots ?st))) = []"
    by (simp_all add: demo_tun_def demo_slots_def hist_def hist_new_def)
  from downlink_stream [OF demo_tcp_contract demo_ep_contract r l refl] c h r l show ?thesis
    by (intro exI [of _ ?st] exI [of _ ctx]) simp
qed

text \<open>
  C6. A handshake result reaches the connection that asked for it and no other. In every reachable state
  of a run with fewer than \<open>2 ^ 64\<close> recorded actions, when a spawned handshake of a slot completes: if the slot
  still waits with the same epoch, the handshake is the one started for the connection the slot carries now,
  and the slot gets a new relay whose first message is exactly what the application has sent in the
  meantime, or, if the handshake failed, is rearmed; otherwise the result is dropped and nothing else changes.
  A slot that waits always has its handshake in flight, so it does not wait for a task that does not exist.
\<close>

theorem handshake_installs:
  assumes "tcp_contract api" "ep_contract ep" "reachable api ep macos st" "sl = tl_slots st" "tr = trace sl" "length tr < 2 ^ 64"
    "i < length (handshakes sl)" "handshakes sl ! i = (h, e, tgt)" "fmlookup (socket_ctxs sl) h = Some ctx"
  shows "(slot_state ctx = HandshakePending \<longrightarrow> (\<exists>t. (h, conn_epoch ctx, t) \<in> set (handshakes sl))) \<and>
    (\<exists>st'. loop_step api ep macos now (EvHandshake i res) st = Some st' \<and>
      (if conn_epoch ctx = e \<and> slot_state ctx = HandshakePending
       then h_shake (hist h tr) = Some (e, tgt) \<and>
         (case res of
            Inl _ \<Rightarrow> trace (tl_slots st') = tr @ [Rearmed h ''remote_open'' ''handshake_failed'']
          | Inr stream \<Rightarrow> (\<exists>c q t. trace (tl_slots st') = tr @ map (UplinkSend c) q @ [RelayStart h c stream] \<and>
              fmlookup (relays sl) c = None \<and> fmlookup (relays (tl_slots st')) c = Some t \<and> rt_rx t = q \<and>
              concat q = concat (h_kept (hist h tr))))
       else tl_slots st' = sl\<lparr> handshakes := take i (handshakes sl) @ drop (Suc i) (handshakes sl) \<rparr>))"
proof -
  note inv = reach_inv [OF assms(1-3)]
  note good = slot_invD [OF loop_invD(1) [OF inv], folded assms(4)]
  obtain st' where st': "loop_step api ep macos now (EvHandshake i res) st = Some st'"
    using loop_step_ok(1) [OF assms(1,2) _ inv, of "EvHandshake i res" macos now] by auto
  let ?sl = "sl\<lparr> handshakes := take i (handshakes sl) @ drop (Suc i) (handshakes sl) \<rparr>"
  have r: "handle_handshake_done api now h e res ?sl = Some (tl_slots st')"
    using st' assms(4,7,8) by (auto simp: loop_handshake_def set_slots_def Let_def)
  note m = epoch_match [OF good(1,2) assms(6) [unfolded assms(5)] assms(9)]
  show ?thesis
  proof (cases "conn_epoch ctx = e \<and> slot_state ctx = HandshakePending")
    case False
    then have "tl_slots st' = ?sl" using r assms(9) by (cases "conn_epoch ctx = e") (simp_all add: handle_handshake_done_def)
    then show ?thesis using st' False m(2) by simp blast
  next
    case True
    have k: "concat (h_kept (hist h tr)) = uplink_buffer ctx"
      using slots_goodD(2) [OF good(1) assms(9)] True assms(5) by (simp add: slot_good_def)
    have s: "h_shake (hist h tr) = Some (e, tgt)"
      using m(1) [of tgt] flight_mem [OF assms(7,8)] True assms(5) by simp
    show ?thesis
    proof (cases res)
      case (Inl x)
      then have "trace (tl_slots st') = tr @ [Rearmed h ''remote_open'' ''handshake_failed'']"
        using r True assms(5,9) by (auto simp: handle_handshake_done_def rearm_slot_def dest!: rearm_with_reason_eq split: option.splits)
      then show ?thesis using st' True Inl s m(2) by simp
    next
      case (Inr stream)
      let ?q = "if uplink_buffer ctx = [] then [] else [uplink_buffer ctx]"
      have "trace (tl_slots st') = tr @ map (UplinkSend (next_chan sl)) ?q @ [RelayStart h (next_chan sl) stream]"
        "fmlookup (relays (tl_slots st')) (next_chan sl) = Some (relay_new h stream ?q now)"
        using r [symmetric] True Inr assms(5,9)
        by (auto simp: handle_handshake_done_def try_send_new_def RELAY_CHANNEL_CAPACITY_def spawn_remote_relay_def Let_def split: if_splits)
      moreover have "fmlookup (relays sl) (next_chan sl) = None" by (rule new_chan_unused) (rule slots_goodD(4) [OF good(1)])
      moreover have "concat ?q = concat (h_kept (hist h tr))" using k by simp
      moreover have "rt_rx (relay_new h stream ?q now) = ?q" by (simp add: relay_new_def)
      ultimately show ?thesis using st' True Inr s m(2) by simp
    qed
  qed
qed

theorem handshake_installs_witness:
  "\<exists>st' c t. loop_step demo_tcp demo_etherparse False 2 (EvHandshake 0 (Inr ''s'')) demo_pending = Some st' \<and>
     last (trace (tl_slots st')) = RelayStart 0 c ''s'' \<and> fmlookup (relays (tl_slots st')) c = Some t \<and> concat (rt_rx t) = [1]"
proof -
  let ?sl = "tl_slots demo_pending" and ?tgt = "IpPort (V4 0x09090909) 80"
  let ?ctx = "(socket_ctx_new 80)\<lparr> slot_state := HandshakePending, conn_epoch := 1, uplink_buffer := [1] \<rparr>"
  have f: "fmlookup (socket_ctxs ?sl) 0 = Some ?ctx" "handshakes ?sl ! 0 = (0, 1, ?tgt)" "0 < length (handshakes ?sl)"
    "length (trace ?sl) < 2 ^ 64" "concat (h_kept (hist 0 (trace ?sl))) = [1]"
    by (simp_all add: demo_pending_def demo_tun_def demo_slots_def hist_def hist_new_def)
  show ?thesis
    using handshake_installs [OF demo_tcp_contract demo_ep_contract demo_pending_reachable refl refl f(4,3,2,1), of 2 "Inr ''s''"] f(5)
    by (auto simp del: loop_step.simps)
qed

text \<open>
  C7. Fake addresses in use keep their names. In every run in which the pool never fills up, each address's
  reference count is exactly the number of TCP slots and UDP flows that hold it; an address that is held
  resolves to a name, and the periodic sweep leaves that name in place.
\<close>

theorem held_addresses_resolve:
  assumes "tcp_contract api" "ep_contract ep" "tun_reach api ep macos (\<lambda>st. \<not> pool_full (fake_pool (tl_slots st))) st"
    "sl = tl_slots st" "ip \<in># ctx_held (socket_ctxs sl) + held (assoc_tbl st)"
  shows "refs ip (fake_pool sl) = count (ctx_held (socket_ctxs sl) + held (assoc_tbl st)) ip \<and>
    resolve ip (fake_pool sl) \<noteq> None \<and>
    resolve ip (fake_pool (tl_slots (loop_fake_ip_sweep now st))) = resolve ip (fake_pool sl)"
proof -
  have c: "pool_inv (fake_pool sl)" "balanced refs (fake_pool sl) (ctx_held (socket_ctxs sl) + held (assoc_tbl st))"
    using reach_counted [OF assms(1-3)] assms(4) by (simp_all add: loop_counted_def counted_def)
  let ?q = "snd (pool_sweep now FAKE_IP_TTL (fake_pool sl))"
  have "resolve ip (fake_pool sl) \<noteq> None" "resolve ip ?q \<noteq> None"
    using pool_refs.held_known [OF c assms(5)] pool_refs.held_survives [OF c assms(5)] by auto
  moreover then have "resolve ip ?q = resolve ip (fake_pool sl)"
    by (auto simp: resolve_def sweep_lookup split: option.splits if_splits)
  ultimately show ?thesis
    using c(2) assms(4) by (simp add: balanced_def loop_fake_ip_sweep_def set_slots_def Let_def)
qed

theorem held_addresses_resolve_witness:
  "\<exists>st :: (demo_socket, string) tun. 3323068418 \<in># held (assoc_tbl st) \<and> 0 < refs 3323068418 (fake_pool (tl_slots st)) \<and>
     resolve 3323068418 (fake_pool (tl_slots (loop_fake_ip_sweep 5000 st))) \<noteq> None"
proof -
  obtain st :: "(demo_socket, string) tun" where st: "tun_reach demo_tcp demo_etherparse False (\<lambda>st. \<not> pool_full (fake_pool (tl_slots st))) st"
    and h: "3323068418 \<in># held (assoc_tbl st)" using demo_flow by blast
  from h have m: "3323068418 \<in># ctx_held (socket_ctxs (tl_slots st)) + held (assoc_tbl st)" by simp
  show ?thesis
    using held_addresses_resolve [OF demo_tcp_contract demo_ep_contract st refl m, of 5000] h m
    by (intro exI [of _ st]) (simp del: union_iff not_None_eq)
qed



text \<open>
  C25. No backlog is forgotten. In every reachable state, whatever bytes wait for the application in a slot,
  the next timer tick, if the stack can then take \<open>n\<close> of them, hands the first \<open>n\<close> bytes to the socket.
\<close>

theorem backlog_offered:
  assumes "tcp_contract api" "ep_contract ep" "reachable api ep macos st" "poll_contract poll"
    "can_take api h pend n (tl_slots (poll_stack poll w st))"
  shows "\<exists>st' es. loop_step api ep macos now (EvTimer poll w up) st = Some st' \<and>
    trace (tl_slots st') = trace (tl_slots st) @ es \<and> LocalSent h (take n pend) \<in> set es"
proof -
  note inv = reach_inv [OF assms(1-3)]
  obtain st' where st': "loop_step api ep macos now (EvTimer poll w up) st = Some st'"
    using loop_step_ok(1) [OF assms(1,2) _ inv, of "EvTimer poll w up" macos now] assms(4) by auto
  then show ?thesis using timer_offers [OF assms(1) inv _ assms(5), of up now st'] by auto
qed

theorem backlog_offered_witness:
  "\<exists>st st' es. reachable demo_tcp demo_etherparse False st \<and>
     loop_step demo_tcp demo_etherparse False 5 (EvTimer (demo_poll 0 (demo_conn [])) (\<lambda>_. Inr ()) demo_up) st = Some st' \<and>
     trace (tl_slots st') = trace (tl_slots st) @ es \<and> LocalSent 0 [9] \<in> set es"
proof -
  obtain rs ctx where c: "downlink_pending ctx = [9]" and r: "reachable demo_tcp demo_etherparse False
      (demo_tun (demo_slots (TcpCloseWait, [], None) ctx rs 1
       [TunWritten [], LocalRecv 0 [1], UplinkSend 0 [1], RelayStart 0 0 ''s'', StreamRead 0 [9], TunWritten [],
        RemoteRecv 0 [9], TunWritten []] 1 None) {|0|} [] 2)" (is "reachable _ _ _ ?st")
    using demo_backlog by blast
  have t: "can_take demo_tcp 0 [9] 1 (tl_slots (poll_stack (demo_poll 0 (demo_conn [])) (\<lambda>_. Inr ()) ?st))"
    unfolding demo_polled by (simp add: can_take_def demo_tun_def demo_slots_at demo_conn_def c)
  from backlog_offered [OF demo_tcp_contract demo_ep_contract r demo_poll_contract t, of 5 demo_up] r show ?thesis
    by (auto simp del: loop_step.simps)
qed


section \<open>Startup\<close>

fun startup_runtime :: "'c startup \<Rightarrow> tun_runtime_config option" where
  "startup_runtime (Aborted _) = None"
| "startup_runtime (RunTuic rt _ _) = Some rt"
| "startup_runtime (RunReality rt _) = Some rt"
| "startup_runtime (RunFailover rt _ _ _) = Some rt"

text \<open>
  C27. Whatever the environment variables hold, as long as the two UUIDs are ASCII, startup does not panic: it
  aborts with an error or it starts the loop. When it starts, the pool size is at least one, the MTU is
  between 576 and 9000, the interval of the metrics is not zero, every UUID has 16 bytes, the TUIC password is
  not empty and its connection has been established, the REALITY key has 32 bytes, the short id 8, server and
  server name are not empty; and the state the loop starts in is an initial state of the model above, if the
  pool is not larger than 2^25.
\<close>

theorem startup_sound:
  assumes "ascii_value (g ''MINI_VPN_TUIC_UUID'')" "ascii_value (g ''MINI_VPN_REALITY_UUID'')"
  shows "\<exists>r. start_tun_proxy b64 g create_device connect = Some r \<and> startup_ok connect r \<and>
    (\<forall>rt. startup_runtime r = Some rt \<and> rt_pool_size rt \<le> 2 ^ 25 \<longrightarrow>
       1 \<le> rt_pool_size rt \<and> 576 \<le> rt_tun_mtu rt \<and> rt_tun_mtu rt \<le> 9000 \<and> 1 \<le> rt_metrics_secs rt \<and>
       reachable api ep macos (tun_init (rt_pool_size rt) (rt_tun_mtu rt) :: ('s, 'r) tun))"
proof -
  obtain r where r: "start_tun_proxy b64 g create_device connect = Some r"
    using start_tun_proxy_returns [of g b64 create_device connect, OF assms] by blast
  note ok = start_tun_proxy_ok [OF r]
  have "runtime_ok rt" if "startup_runtime r = Some rt" for rt using that ok by (cases r) auto
  then show ?thesis using r ok by (auto simp: runtime_ok_def MIN_TUN_MTU_def MAX_TUN_MTU_def intro!: tr_init)
qed

text \<open>A REALITY-only environment; the base64 decoder gives the key for any text.\<close>

definition demo_base64 :: base64 where
  "demo_base64 = \<lparr> url_safe_no_pad = (\<lambda>_. Some (replicate 32 7)), url_safe = (\<lambda>_. None),
     standard_no_pad = (\<lambda>_. None), standard = (\<lambda>_. None) \<rparr>"

definition demo_vars :: env where
  "demo_vars = map_of [(''MINI_VPN_UPSTREAM'', str '' Reality''), (''MINI_VPN_TUN_MTU'', str ''1400''),
     (''MINI_VPN_REALITY_SERVER'', str ''vps:443''), (''MINI_VPN_REALITY_UUID'', uuid_text (replicate 16 0xab)),
     (''MINI_VPN_REALITY_PBK'', str ''key''), (''MINI_VPN_REALITY_SHORT_ID'', str ''0a''), (''MINI_VPN_REALITY_SNI'', str ''site'')]"

lemma demo_runtime: "runtime_from_env demo_vars = Inr \<lparr> rt_pool_size = 2, rt_tun_mtu = 1400, rt_metrics_secs = 30, rt_profile_loop = False \<rparr>"
proof -
  have t: "trim (str ''1400'') = str ''1400''" by code_simp
  have "parse_uint (2 ^ 64 - 1) (str ''1400'') = Some 1400" by (simp add: parse_uint_def str_def dec_digit_def)
  with t have "parse_tun_mtu (demo_vars ''MINI_VPN_TUN_MTU'') = 1400"
    by (simp add: parse_tun_mtu_def demo_vars_def MIN_TUN_MTU_def MAX_TUN_MTU_def)
  then show ?thesis
    by (simp add: runtime_from_env_def runtime_from_sources_def listener_from_sources_def demo_vars_def DEFAULT_TUN_POOL_SIZE_def
        parse_metrics_secs_def parse_profile_loop_def flag_among_def METRICS_SNAPSHOT_SECS_def)
qed

lemma demo_kind: "select_upstream_kind (demo_vars ''MINI_VPN_UPSTREAM'') = KindReality" by code_simp

lemma demo_reality_env: "reality_from_env demo_base64 demo_vars = Some (Inr \<lparr> rc_server = str ''vps:443'', rc_uuid = replicate 16 0xab, rc_pbk = replicate 32 7, rc_short_id = 10 # replicate 7 0, rc_sni = str ''site'' \<rparr>)"
  by code_simp

theorem startup_sound_witness:
  "start_tun_proxy demo_base64 demo_vars (\<lambda>_. Inr ()) (\<lambda>_. Inl (Io ''none'') :: unit result) =
     Some (RunReality \<lparr> rt_pool_size = 2, rt_tun_mtu = 1400, rt_metrics_secs = 30, rt_profile_loop = False \<rparr>
       \<lparr> rc_server = str ''vps:443'', rc_uuid = replicate 16 0xab, rc_pbk = replicate 32 7, rc_short_id = 10 # replicate 7 0, rc_sni = str ''site'' \<rparr>) \<and>
   reachable demo_tcp demo_etherparse False (tun_init 2 1400 :: (demo_socket, string) tun)"
proof -
  let ?r = "RunReality \<lparr> rt_pool_size = 2, rt_tun_mtu = 1400, rt_metrics_secs = 30, rt_profile_loop = False \<rparr>
       \<lparr> rc_server = str ''vps:443'', rc_uuid = replicate 16 0xab, rc_pbk = replicate 32 7, rc_short_id = 10 # replicate 7 0, rc_sni = str ''site'' \<rparr>"
  have run: "start_tun_proxy demo_base64 demo_vars (\<lambda>_. Inr ()) (\<lambda>_. Inl (Io ''none'') :: unit result) = Some ?r"
    by (simp add: start_tun_proxy_def demo_runtime demo_kind demo_reality_env tun_mtu_for_config_def)
  have "ascii_value (demo_vars ''MINI_VPN_TUIC_UUID'')" "ascii_value (demo_vars ''MINI_VPN_REALITY_UUID'')" by code_simp+
  from startup_sound [where 'r = string, OF this, of demo_base64 "\<lambda>_. Inr ()" "\<lambda>_. Inl (Io ''none'') :: unit result" demo_tcp demo_etherparse False] run
  show ?thesis by simp
qed

end
